(* ===== verification/JsPrelude.thy ===== *)
theory JsPrelude
  imports Complex_Main "HOL-Library.Multiset" "HOL-Library.List_Lexorder" "HOL-Library.Char_ord"
begin

text \<open>
  What the components share of JavaScript itself: dynamically typed payload values, strings,
  arrays (in particular the stable \<^verbatim>\<open>Array.prototype.sort\<close>), insertion-ordered
  \<^verbatim>\<open>Map\<close> and \<^verbatim>\<open>Set\<close>, rounding, and the two interfaces the
  components rely on: a keyed store (locale \<open>keyed_store\<close>) and a consistent comparator
  (locale \<open>js_comparator\<close>).

  Conventions of the whole development. A string is a list of characters, one character per
  UTF-16 code unit; the few non-ASCII characters the sources write (an ellipsis, a dash) are
  single named characters. Numbers are exact: \<open>int\<close> for counts, instants and indices,
  \<open>rat\<close> where the code divides. \<open>None\<close> is a null or absent field.
\<close>

named_theorems js_defs \<open>definitions that a component unfolds as a matter of course\<close>

section \<open>Dynamically typed values\<close>

text \<open>A value read out of a JSON payload, whose shape the code tests at run time.\<close>

datatype jsval =
    JUndef
  | JNull
  | JBool bool
  | JNum rat
  | JStr string
  | JArr "jsval list"
  | JObj "(string \<times> jsval) list"

fun js_prop :: "jsval \<Rightarrow> string \<Rightarrow> jsval" where
  "js_prop (JObj kvs) k = (case map_of kvs k of Some v \<Rightarrow> v | None \<Rightarrow> JUndef)"
| "js_prop _ _ = JUndef"

fun js_nullish :: "jsval \<Rightarrow> bool" where
  "js_nullish JUndef = True"
| "js_nullish JNull = True"
| "js_nullish _ = False"

text \<open>\<^verbatim>\<open>a ?? b\<close>.\<close>

definition js_coalesce :: "jsval \<Rightarrow> jsval \<Rightarrow> jsval" where
  "js_coalesce a b = (if js_nullish a then b else a)"

text \<open>Truthiness, as \<^verbatim>\<open>if (v)\<close> and \<^verbatim>\<open>v && ...\<close> test it.\<close>

fun js_truthy :: "jsval \<Rightarrow> bool" where
  "js_truthy JUndef = False"
| "js_truthy JNull = False"
| "js_truthy (JBool b) = b"
| "js_truthy (JNum n) = (n \<noteq> 0)"
| "js_truthy (JStr s) = (s \<noteq> [])"
| "js_truthy (JArr _) = True"
| "js_truthy (JObj _) = True"

text \<open>\<^verbatim>\<open>v && typeof v === 'object'\<close>: arrays are objects too, null is not.\<close>

fun js_is_object :: "jsval \<Rightarrow> bool" where
  "js_is_object (JObj _) = True"
| "js_is_object (JArr _) = True"
| "js_is_object _ = False"

fun js_is_array :: "jsval \<Rightarrow> bool" where
  "js_is_array (JArr _) = True"
| "js_is_array _ = False"

fun js_elems :: "jsval \<Rightarrow> jsval list" where
  "js_elems (JArr xs) = xs"
| "js_elems _ = []"

text \<open>What every object literal inherits: \<^verbatim>\<open>o[k]\<close> and \<^verbatim>\<open>k in o\<close> find these too.\<close>

definition OBJECT_KEYS :: "string list" where
  "OBJECT_KEYS = [''constructor'', ''__defineGetter__'', ''__defineSetter__'', ''hasOwnProperty'', ''__lookupGetter__'',
     ''__lookupSetter__'', ''isPrototypeOf'', ''propertyIsEnumerable'', ''toString'', ''valueOf'', ''__proto__'', ''toLocaleString'']"

text \<open>Writing a property of an object, in place when it exists, and object spread.\<close>

fun kv_set :: "(string \<times> jsval) list \<Rightarrow> string \<Rightarrow> jsval \<Rightarrow> (string \<times> jsval) list" where
  "kv_set [] k v = [(k, v)]"
| "kv_set ((k', v') # kvs) k v = (if k' = k then (k, v) # kvs else (k', v') # kv_set kvs k v)"

fun js_set_prop :: "jsval \<Rightarrow> string \<Rightarrow> jsval \<Rightarrow> jsval" where
  "js_set_prop (JObj kvs) k v = JObj (kv_set kvs k v)"
| "js_set_prop o' _ _ = o'"

fun js_str :: "jsval \<Rightarrow> string option" where
  "js_str (JStr s) = Some s"
| "js_str _ = None"

text \<open>\<^verbatim>\<open>a || b\<close> on an optional string: the empty string is falsy.\<close>

definition str_or :: "string option \<Rightarrow> string option \<Rightarrow> string option" where
  "str_or a b = (case a of None \<Rightarrow> b | Some s \<Rightarrow> if s = [] then b else a)"

definition opt_or :: "'a option \<Rightarrow> 'a option \<Rightarrow> 'a option" where
  "opt_or a b = (case a of None \<Rightarrow> b | Some _ \<Rightarrow> a)"

definition str_of :: "string option \<Rightarrow> string" where
  "str_of a = (case a of None \<Rightarrow> [] | Some s \<Rightarrow> s)"

definition nonempty :: "string option \<Rightarrow> bool" where
  "nonempty a = (case a of None \<Rightarrow> False | Some s \<Rightarrow> s \<noteq> [])"

lemma str_of_simps [simp]: "str_of None = []" "str_of (Some s) = s"
  by (simp_all add: str_of_def)

lemma nonempty_simps [simp]: "nonempty None = False" "nonempty (Some s) = (s \<noteq> [])"
  by (simp_all add: nonempty_def)

lemma str_or_simps [simp]:
  "str_or None b = b" "str_or (Some []) b = b" "s \<noteq> [] \<Longrightarrow> str_or (Some s) b = Some s"
  by (simp_all add: str_or_def)

lemma opt_or_simps [simp]: "opt_or None b = b" "opt_or (Some x) b = Some x"
  by (simp_all add: opt_or_def)

lemma map_of_kv_set: "map_of (kv_set kvs k v) k' = (if k' = k then Some v else map_of kvs k')"
  by (induction kvs k v rule: kv_set.induct) auto

lemma js_prop_set: "js_prop (js_set_prop (JObj kvs) k v) k' = (if k' = k then v else js_prop (JObj kvs) k')"
  by (simp add: map_of_kv_set)

section \<open>Strings\<close>

definition nl :: char where "nl = CHR 0x0A"
definition ellipsis :: char where "ellipsis = CHR 0x85"
definition em_dash :: char where "em_dash = CHR 0x97"

definition is_ws :: "char \<Rightarrow> bool" where
  "is_ws c = (c = CHR '' '' \<or> c = CHR 0x09 \<or> c = CHR 0x0A \<or> c = CHR 0x0B
     \<or> c = CHR 0x0C \<or> c = CHR 0x0D \<or> c = CHR 0xA0)"

definition lower_char :: "char \<Rightarrow> char" where
  "lower_char c = (let n = of_char c :: nat in if 65 \<le> n \<and> n \<le> 90 then char_of (n + 32) else c)"

definition upper_char :: "char \<Rightarrow> char" where
  "upper_char c = (let n = of_char c :: nat in if 97 \<le> n \<and> n \<le> 122 then char_of (n - 32) else c)"

definition to_lower :: "string \<Rightarrow> string" where
  "to_lower s = map lower_char s"

definition trim_start :: "string \<Rightarrow> string" where
  "trim_start s = dropWhile is_ws s"

definition trim_end :: "string \<Rightarrow> string" where
  "trim_end s = rev (dropWhile is_ws (rev s))"

definition js_trim :: "string \<Rightarrow> string" where
  "js_trim s = trim_end (trim_start s)"

definition starts_with :: "string \<Rightarrow> string \<Rightarrow> bool" where
  "starts_with p s = (take (length p) s = p)"

definition ends_with :: "string \<Rightarrow> string \<Rightarrow> bool" where
  "ends_with p s = (length p \<le> length s \<and> drop (length s - length p) s = p)"

fun js_includes :: "string \<Rightarrow> string \<Rightarrow> bool" where
  "js_includes p [] = (p = [])"
| "js_includes p (c # s) = (starts_with p (c # s) \<or> js_includes p s)"

text \<open>\<^verbatim>\<open>s.split(c)\<close> for a one-character separator, and \<^verbatim>\<open>xs.join(sep)\<close>.\<close>

fun split_on :: "char \<Rightarrow> string \<Rightarrow> string list" where
  "split_on c [] = [[]]"
| "split_on c (x # xs) =
     (if x = c then [] # split_on c xs
      else (case split_on c xs of [] \<Rightarrow> [[x]] | y # ys \<Rightarrow> (x # y) # ys))"

fun js_join :: "string \<Rightarrow> string list \<Rightarrow> string" where
  "js_join sep [] = []"
| "js_join sep [x] = x"
| "js_join sep (x # y # ys) = x @ sep @ js_join sep (y # ys)"

fun show_nat_rev :: "nat \<Rightarrow> nat \<Rightarrow> string" where
  "show_nat_rev 0 n = []"
| "show_nat_rev (Suc f) n =
     (if n < 10 then [char_of (48 + n)] else char_of (48 + n mod 10) # show_nat_rev f (n div 10))"

text \<open>A number inside a template string. The fuel \<open>Suc n\<close> always covers the digits.\<close>

definition show_nat :: "nat \<Rightarrow> string" where
  "show_nat n = rev (show_nat_rev (Suc n) n)"

definition show_int :: "int \<Rightarrow> string" where
  "show_int n = (if n < 0 then CHR ''-'' # show_nat (nat (- n)) else show_nat (nat n))"

text \<open>\<^verbatim>\<open>k === 1 ? one : many\<close>.\<close>

definition plural_s :: "nat \<Rightarrow> string" where
  "plural_s k = (if k = 1 then '''' else ''s'')"

lemma split_on_nonempty [simp]: "split_on c s \<noteq> []"
  by (cases s) (auto split: list.splits)

lemma js_join_split: "js_join [c] (split_on c s) = s"
proof (induction s)
  case Nil
  show ?case by simp
next
  case (Cons x s)
  show ?case
  proof (cases "split_on c s")
    case Nil
    then show ?thesis by simp
  next
    case (Cons y ys)
    then show ?thesis using Cons.IH by (cases ys) auto
  qed
qed

lemma split_on_no_sep: "c \<notin> set s \<Longrightarrow> split_on c s = [s]"
  by (induction s) auto

lemma split_on_append_sep: "c \<notin> set a \<Longrightarrow> split_on c (a @ c # b) = a # split_on c b"
  by (induction a) auto

lemma split_on_append: "split_on c (a @ c # b) = split_on c a @ split_on c b"
  by (induction a) (auto split: list.splits)

lemma split_on_parts: "x \<in> set (split_on c s) \<Longrightarrow> c \<notin> set x"
proof (induction s arbitrary: x)
  case Nil
  then show ?case by simp
next
  case (Cons a s)
  then show ?case
    by (cases "split_on c s") (auto split: if_splits)
qed

lemma split_on_join:
  "xs \<noteq> [] \<Longrightarrow> \<forall>x \<in> set xs. c \<notin> set x \<Longrightarrow> split_on c (js_join [c] xs) = xs"
  by (induction "[c]" xs rule: js_join.induct) (simp_all add: split_on_no_sep split_on_append_sep)

lemma js_join_append:
  "xs \<noteq> [] \<Longrightarrow> ys \<noteq> [] \<Longrightarrow> js_join sep (xs @ ys) = js_join sep xs @ sep @ js_join sep ys"
proof (induction sep xs rule: js_join.induct)
  case (2 sep x)
  then show ?case by (cases ys) auto
qed auto

lemma to_lower_idem [simp]: "to_lower (to_lower s) = to_lower s"
proof -
  have "lower_char (lower_char c) = lower_char c" for c
  proof (cases "65 \<le> (of_char c :: nat) \<and> (of_char c :: nat) \<le> 90")
    case True
    then have "(of_char (char_of (of_char c + 32 :: nat)) :: nat) = of_char c + 32"
      by (simp add: of_char_of)
    with True show ?thesis by (simp add: lower_char_def Let_def)
  next
    case False
    then have "lower_char c = c" by (auto simp: lower_char_def Let_def)
    then show ?thesis by simp
  qed
  then show ?thesis by (simp add: to_lower_def)
qed

lemma trim_end_dropWhile: "trim_end (trim_end s) = trim_end s"
  by (simp add: trim_end_def dropWhile_idem)

section \<open>Decimal text is unique\<close>

lemma show_nat_rev_ne: "0 < f \<Longrightarrow> show_nat_rev f n \<noteq> []"
  by (cases f) auto

lemma digit_char_inj: "a < 10 \<Longrightarrow> b < 10 \<Longrightarrow> (char_of (48 + a :: nat) :: char) = char_of (48 + b) \<Longrightarrow> a = b"
proof -
  assume "a < 10" "b < 10" and eq: "(char_of (48 + a) :: char) = char_of (48 + b)"
  then have "of_char (char_of (48 + a) :: char) = (48 + a :: nat)" "of_char (char_of (48 + b) :: char) = (48 + b :: nat)"
    by (simp_all only: of_char_of) simp_all
  with eq show "a = b" by simp
qed

lemma show_nat_rev_inj: "n < f \<Longrightarrow> m < f' \<Longrightarrow> show_nat_rev f n = show_nat_rev f' m \<Longrightarrow> n = m"
proof (induction f arbitrary: n m f')
  case (Suc f)
  then obtain g where g: "f' = Suc g" by (cases f') auto
  show ?case
  proof (cases "n < 10 \<and> m < 10")
    case True
    with Suc.prems(3) g show ?thesis by (auto dest: digit_char_inj)
  next
    case False
    have small: "m < 10" if "n < 10"
    proof (rule ccontr)
      assume m: "\<not> m < 10"
      with that Suc.prems(3) g have "show_nat_rev g (m div 10) = []" by simp
      moreover have "0 < g" using m Suc.prems(2) g by simp
      ultimately show False using show_nat_rev_ne by blast
    qed
    have small': "n < 10" if "m < 10"
    proof (rule ccontr)
      assume n: "\<not> n < 10"
      with that Suc.prems(3) g have "show_nat_rev f (n div 10) = []" by simp
      moreover have "0 < f" using n Suc.prems(1) by simp
      ultimately show False using show_nat_rev_ne by blast
    qed
    have "\<not> n < 10 \<and> \<not> m < 10" using False small small' by blast
    then have big: "10 \<le> n" "10 \<le> m" by auto
    with Suc.prems(3) g have "char_of (48 + n mod 10) = (char_of (48 + m mod 10) :: char)"
      "show_nat_rev f (n div 10) = show_nat_rev g (m div 10)" by auto
    moreover have "n div 10 < f" "m div 10 < g" using big Suc.prems(1,2) g by auto
    ultimately have "n mod 10 = m mod 10" "n div 10 = m div 10"
      using Suc.IH [of "n div 10" "m div 10" g] digit_char_inj [of "n mod 10" "m mod 10"] by auto
    then show ?thesis by (metis mod_div_mult_eq)
  qed
qed simp

lemma show_nat_inj: "show_nat n = show_nat m \<longleftrightarrow> n = m"
  using show_nat_rev_inj [of n "Suc n" m "Suc m"] by (auto simp: show_nat_def)

end
