(* ===== verification/JsArrays.thy ===== *)
theory JsArrays
  imports JsPrelude
begin

text \<open>
  Arrays, \<^verbatim>\<open>Map\<close>, \<^verbatim>\<open>Set\<close> and rounding. The sort is the stable one that
  ECMAScript 2019 requires; its properties are proved once, in the locale of the consistent
  comparators, and every comparator of a component interprets that locale. A
  \<^verbatim>\<open>Map\<close> keeps its keys in first-insertion order; its laws are those of the locale
  \<open>keyed_store\<close>, whose client lemmas (grouping rows by a key) are proved from the laws alone.
\<close>

section \<open>Stable sort\<close>

text \<open>\<open>le a b\<close> stands for \<^verbatim>\<open>cmp(a, b) <= 0\<close>.\<close>

fun js_insert :: "('a \<Rightarrow> 'a \<Rightarrow> bool) \<Rightarrow> 'a \<Rightarrow> 'a list \<Rightarrow> 'a list" where
  "js_insert le x [] = [x]"
| "js_insert le x (y # ys) = (if le x y then x # y # ys else y # js_insert le x ys)"

fun js_sort :: "('a \<Rightarrow> 'a \<Rightarrow> bool) \<Rightarrow> 'a list \<Rightarrow> 'a list" where
  "js_sort le [] = []"
| "js_sort le (x # xs) = js_insert le x (js_sort le xs)"

lemma mset_js_insert [simp]: "mset (js_insert le x ys) = {#x#} + mset ys"
  by (induction ys) auto

lemma mset_js_sort [simp]: "mset (js_sort le xs) = mset xs"
  by (induction xs) auto

lemma set_js_sort [simp]: "set (js_sort le xs) = set xs"
  by (metis mset_js_sort set_mset_mset)

lemma length_js_sort [simp]: "length (js_sort le xs) = length xs"
  by (metis mset_js_sort size_mset)

lemma js_sort_Nil_iff [simp]: "js_sort le xs = [] \<longleftrightarrow> xs = []"
  by (metis length_js_sort length_0_conv)

locale js_comparator =
  fixes le :: "'a \<Rightarrow> 'a \<Rightarrow> bool"
  assumes le_total: "le a b \<or> le b a"
    and le_trans: "le a b \<Longrightarrow> le b c \<Longrightarrow> le a c"
begin

lemma le_refl: "le a a"
  using le_total by blast

lemma sorted_insert: "sorted_wrt le ys \<Longrightarrow> sorted_wrt le (js_insert le x ys)"
proof (induction ys)
  case Nil
  show ?case by simp
next
  case (Cons y ys)
  show ?case
  proof (cases "le x y")
    case True
    with Cons.prems show ?thesis by (auto intro: le_trans)
  next
    case False
    then have "le y x" using le_total by blast
    moreover have "set (js_insert le x ys) = insert x (set ys)"
      by (metis mset_js_insert set_mset_mset set_mset_add_mset_insert add_mset_add_single union_commute)
    ultimately show ?thesis using False Cons by auto
  qed
qed

lemma sort_sorted: "sorted_wrt le (js_sort le xs)"
  by (induction xs) (auto intro: sorted_insert)

text \<open>The first element of a sorted array is least, the last one greatest.\<close>

lemma sort_head_least: "js_sort le xs = m # ms \<Longrightarrow> x \<in> set xs \<Longrightarrow> le m x"
proof -
  assume s: "js_sort le xs = m # ms" and x: "x \<in> set xs"
  have "sorted_wrt le (m # ms)" using sort_sorted [of xs] s by simp
  moreover have "x \<in> set (m # ms)" using x s set_js_sort by metis
  ultimately show "le m x" using le_refl by auto
qed

lemma sort_last_greatest: "xs \<noteq> [] \<Longrightarrow> x \<in> set xs \<Longrightarrow> le x (last (js_sort le xs))"
proof -
  assume ne: "xs \<noteq> []" and x: "x \<in> set xs"
  obtain ys z where yz: "js_sort le xs = ys @ [z]"
    using ne by (metis js_sort_Nil_iff rev_exhaust)
  have "sorted_wrt le (ys @ [z])" using sort_sorted [of xs] yz by simp
  moreover have "x \<in> set (ys @ [z])" using x yz set_js_sort by metis
  ultimately show ?thesis using le_refl yz by (auto simp: sorted_wrt_append)
qed

text \<open>Filtering commutes with sorting.\<close>

lemma insert_front: "(\<forall>y \<in> set ys. le x y) \<Longrightarrow> js_insert le x ys = x # ys"
  by (cases ys) auto

lemma filter_insert:
  "sorted_wrt le ys \<Longrightarrow> filter P (js_insert le x ys) = (if P x then js_insert le x (filter P ys) else filter P ys)"
proof (induction ys)
  case Nil
  show ?case by simp
next
  case (Cons y ys)
  show ?case
  proof (cases "le x y")
    case True
    with Cons.prems have "\<forall>z \<in> set (filter P (y # ys)). le x z" by (auto intro: le_trans)
    then show ?thesis using True insert_front [of "filter P (y # ys)" x] by auto
  next
    case False
    then show ?thesis using Cons by auto
  qed
qed

lemma filter_sort: "filter P (js_sort le xs) = js_sort le (filter P xs)"
  by (induction xs) (simp_all add: filter_insert sort_sorted)

text \<open>Sorting a sorted array changes nothing: the order of equal elements is kept.\<close>

lemma sort_id: "sorted_wrt le xs \<Longrightarrow> js_sort le xs = xs"
proof (induction xs)
  case Nil
  show ?case by simp
next
  case (Cons x xs)
  then show ?case by (cases xs) auto
qed

lemma sort_idem: "js_sort le (js_sort le xs) = js_sort le xs"
  by (simp add: sort_id sort_sorted)

end

text \<open>Comparators that compare a key by a linear order, ascending or descending.\<close>

abbreviation asc_by :: "('a \<Rightarrow> 'b::linorder) \<Rightarrow> 'a \<Rightarrow> 'a \<Rightarrow> bool" where
  "asc_by f a b \<equiv> f a \<le> f b"

abbreviation desc_by :: "('a \<Rightarrow> 'b::linorder) \<Rightarrow> 'a \<Rightarrow> 'a \<Rightarrow> bool" where
  "desc_by f a b \<equiv> f b \<le> f a"

interpretation asc: js_comparator "asc_by f" for f :: "'a \<Rightarrow> 'b::linorder"
  by unfold_locales auto

interpretation desc: js_comparator "desc_by f" for f :: "'a \<Rightarrow> 'b::linorder"
  by unfold_locales auto

section \<open>Map and Set in insertion order\<close>

definition jm_get :: "('k \<times> 'v) list \<Rightarrow> 'k \<Rightarrow> 'v option" where
  "jm_get m k = map_of m k"

fun jm_set :: "('k \<times> 'v) list \<Rightarrow> 'k \<Rightarrow> 'v \<Rightarrow> ('k \<times> 'v) list" where
  "jm_set [] k v = [(k, v)]"
| "jm_set ((k', v') # m) k v = (if k' = k then (k, v) # m else (k', v') # jm_set m k v)"

definition jm_keys :: "('k \<times> 'v) list \<Rightarrow> 'k list" where
  "jm_keys m = map fst m"

definition jm_values :: "('k \<times> 'v) list \<Rightarrow> 'v list" where
  "jm_values m = map snd m"

definition jm_delete :: "('k \<times> 'v) list \<Rightarrow> 'k \<Rightarrow> ('k \<times> 'v) list" where
  "jm_delete m k = filter (\<lambda>p. fst p \<noteq> k) m"

lemma jm_get_Nil [simp]: "jm_get [] k = None"
  by (simp add: jm_get_def)

lemma jm_get_set: "jm_get (jm_set m k v) k' = (if k' = k then Some v else jm_get m k')"
  by (induction m k v rule: jm_set.induct) (auto simp: jm_get_def)

lemma jm_keys_set: "set (jm_keys (jm_set m k v)) = insert k (set (jm_keys m))"
  by (induction m k v rule: jm_set.induct) (auto simp: jm_keys_def)

lemma jm_distinct_set: "distinct (jm_keys m) \<Longrightarrow> distinct (jm_keys (jm_set m k v))"
proof (induction m k v rule: jm_set.induct)
  case (2 k' v' m k v)
  then show ?case using jm_keys_set [of m k v] by (auto simp: jm_keys_def)
qed (auto simp: jm_keys_def)

lemma jm_get_None_iff: "jm_get m k = None \<longleftrightarrow> k \<notin> set (jm_keys m)"
  by (simp add: jm_get_def jm_keys_def map_of_eq_None_iff)

lemma jm_get_delete: "jm_get (jm_delete m k) k' = (if k' = k then None else jm_get m k')"
  by (induction m) (auto simp: jm_get_def jm_delete_def)

text \<open>\<^verbatim>\<open>[...new Set(xs)]\<close>: the first occurrences, in order.\<close>

fun js_uniq_acc :: "'a list \<Rightarrow> 'a list \<Rightarrow> 'a list" where
  "js_uniq_acc seen [] = []"
| "js_uniq_acc seen (x # xs) =
     (if x \<in> set seen then js_uniq_acc seen xs else x # js_uniq_acc (x # seen) xs)"

definition js_uniq :: "'a list \<Rightarrow> 'a list" where
  "js_uniq xs = js_uniq_acc [] xs"

lemma set_js_uniq_acc: "set (js_uniq_acc seen xs) = set xs - set seen"
  by (induction seen xs rule: js_uniq_acc.induct) auto

lemma set_js_uniq [simp]: "set (js_uniq xs) = set xs"
  by (simp add: js_uniq_def set_js_uniq_acc)

lemma distinct_js_uniq_acc: "distinct (js_uniq_acc seen xs)"
  by (induction seen xs rule: js_uniq_acc.induct) (auto simp: set_js_uniq_acc)

lemma distinct_js_uniq [simp]: "distinct (js_uniq xs)"
  by (simp add: js_uniq_def distinct_js_uniq_acc)

section \<open>The keyed-store interface\<close>

text \<open>
  What grouping code relies on: reading after a write, and the keys being exactly those written.
  \<open>group_rows\<close> is the loop \<^verbatim>\<open>for (r of rows) { g = m.get(key(r)) ?? []; g.push(r); m.set(key(r), g) }\<close>.
\<close>

fun group_rows ::
  "('m \<Rightarrow> 'k \<Rightarrow> 'r list option) \<Rightarrow> ('m \<Rightarrow> 'k \<Rightarrow> 'r list \<Rightarrow> 'm) \<Rightarrow> ('r \<Rightarrow> 'k) \<Rightarrow> 'm \<Rightarrow> 'r list \<Rightarrow> 'm" where
  "group_rows get put key m [] = m"
| "group_rows get put key m (r # rs) =
     group_rows get put key
       (put m (key r) ((case get m (key r) of None \<Rightarrow> [] | Some g \<Rightarrow> g) @ [r])) rs"

locale keyed_store =
  fixes empty :: 'm
    and get :: "'m \<Rightarrow> 'k \<Rightarrow> 'v option"
    and put :: "'m \<Rightarrow> 'k \<Rightarrow> 'v \<Rightarrow> 'm"
    and keys :: "'m \<Rightarrow> 'k list"
    and ok :: "'m \<Rightarrow> bool"
  assumes get_empty: "get empty k = None"
    and ok_empty: "ok empty"
    and ok_put: "ok m \<Longrightarrow> ok (put m k v)"
    and get_put: "ok m \<Longrightarrow> get (put m k v) k' = (if k' = k then Some v else get m k')"
    and keys_get: "ok m \<Longrightarrow> set (keys m) = {k. get m k \<noteq> None}"
    and keys_distinct: "ok m \<Longrightarrow> distinct (keys m)"

locale row_store = keyed_store empty get put keys ok
  for empty :: 'm and get :: "'m \<Rightarrow> 'k \<Rightarrow> 'r list option" and put keys ok
begin

lemma group_ok: "ok m \<Longrightarrow> ok (group_rows get put key m rs)"
  by (induction rs arbitrary: m) (auto simp: ok_put)

lemma group_get_from:
  "ok m \<Longrightarrow> get (group_rows get put key m rs) k =
     (let g = (case get m k of None \<Rightarrow> [] | Some g \<Rightarrow> g) @ filter (\<lambda>r. key r = k) rs
      in if get m k = None \<and> g = [] then None else Some g)"
proof (induction rs arbitrary: m)
  case Nil
  then show ?case by (auto split: option.splits)
next
  case (Cons r rs)
  have okp: "ok (put m (key r) ((case get m (key r) of None \<Rightarrow> [] | Some g \<Rightarrow> g) @ [r]))"
    using Cons.prems by (rule ok_put)
  show ?case
    using Cons.IH [OF okp] Cons.prems
    by (auto simp: get_put Let_def split: option.splits)
qed

text \<open>Each group is exactly the rows with its key, in their order; no other key appears.\<close>

lemma group_get:
  "get (group_rows get put key empty rs) k =
     (let g = filter (\<lambda>r. key r = k) rs in if g = [] then None else Some g)"
  by (simp add: group_get_from ok_empty get_empty)

lemma group_keys: "set (keys (group_rows get put key empty rs)) = key ` set rs"
  by (auto simp: keys_get group_ok ok_empty group_get Let_def filter_empty_conv)

lemma group_keys_distinct: "distinct (keys (group_rows get put key empty rs))"
  by (simp add: keys_distinct group_ok ok_empty)

end

lemma jm_keys_iff: "set (jm_keys m) = {k. jm_get m k \<noteq> None}"
  by (auto simp: jm_get_None_iff)

interpretation jm: keyed_store "[]" jm_get jm_set jm_keys "\<lambda>m. distinct (jm_keys m)"
  by unfold_locales (simp_all add: jm_get_set jm_distinct_set jm_keys_iff, simp add: jm_keys_def)

interpretation jr: row_store "[]" jm_get jm_set jm_keys "\<lambda>m. distinct (jm_keys m)"
  by unfold_locales

definition js_group_by :: "('r \<Rightarrow> 'k) \<Rightarrow> 'r list \<Rightarrow> ('k \<times> 'r list) list" where
  "js_group_by key rs = group_rows jm_get jm_set key [] rs"

lemma js_group_by_get:
  "jm_get (js_group_by key rs) k =
     (let g = filter (\<lambda>r. key r = k) rs in if g = [] then None else Some g)"
  unfolding js_group_by_def by (rule jr.group_get)

lemma js_group_by_keys: "set (jm_keys (js_group_by key rs)) = key ` set rs"
  unfolding js_group_by_def by (rule jr.group_keys)

lemma js_group_by_distinct: "distinct (jm_keys (js_group_by key rs))"
  unfolding js_group_by_def by (rule jr.group_keys_distinct)

lemma js_group_by_entry:
  "(k, g) \<in> set (js_group_by key rs) \<longleftrightarrow> k \<in> key ` set rs \<and> g = filter (\<lambda>r. key r = k) rs"
proof -
  have d: "distinct (map fst (js_group_by key rs))"
    using js_group_by_distinct [of key rs] by (simp add: jm_keys_def)
  have "(k, g) \<in> set (js_group_by key rs) \<longleftrightarrow> jm_get (js_group_by key rs) k = Some g"
    using d by (simp add: jm_get_def)
  then show ?thesis
    by (auto simp: js_group_by_get Let_def filter_empty_conv split: if_splits)
qed

section \<open>Slices\<close>

text \<open>\<^verbatim>\<open>for (let i = 0; i < xs.length; i += n + 1) ... xs.slice(i, i + n + 1)\<close>.\<close>

function chunks :: "nat \<Rightarrow> 'a list \<Rightarrow> 'a list list" where
  "chunks n xs = (if xs = [] then [] else take (Suc n) xs # chunks n (drop (Suc n) xs))"
  by pat_completeness auto
termination
  by (relation "measure (\<lambda>(n, xs). length xs)") auto

declare chunks.simps [simp del]

lemma concat_chunks [simp]: "concat (chunks n xs) = xs"
proof (induction n xs rule: chunks.induct)
  case (1 n xs)
  show ?case
  proof (cases "xs = []")
    case True
    then show ?thesis by (subst chunks.simps) simp
  next
    case False
    with 1 show ?thesis by (subst chunks.simps) simp
  qed
qed

section \<open>Searching\<close>

text \<open>\<^verbatim>\<open>xs.findIndex(p)\<close>, with \<open>None\<close> for \<open>-1\<close>.\<close>

fun find_index :: "('a \<Rightarrow> bool) \<Rightarrow> 'a list \<Rightarrow> nat option" where
  "find_index p [] = None"
| "find_index p (x # xs) = (if p x then Some 0 else map_option Suc (find_index p xs))"

lemma find_index_Some:
  "find_index p xs = Some i \<Longrightarrow> i < length xs \<and> p (xs ! i) \<and> (\<forall>j < i. \<not> p (xs ! j))"
proof (induction xs arbitrary: i)
  case Nil
  then show ?case by simp
next
  case (Cons x xs)
  then show ?case
    by (cases i) (auto split: if_splits simp: less_Suc_eq_0_disj)
qed

lemma find_index_None: "find_index p xs = None \<longleftrightarrow> (\<forall>x \<in> set xs. \<not> p x)"
  by (induction xs) auto

lemma find_Some_D: "List.find p xs = Some x \<Longrightarrow> x \<in> set xs \<and> p x"
  by (induction xs) (auto split: if_splits)

lemma set_map_filter: "set (List.map_filter f xs) = {y. \<exists>x \<in> set xs. f x = Some y}"
  by (force simp: List.map_filter_def)

section \<open>Rounding\<close>

text \<open>\<^verbatim>\<open>Math.round\<close> rounds halves up; \<^verbatim>\<open>toFixed(1)\<close> is the nearest tenth.\<close>

definition js_round :: "rat \<Rightarrow> int" where
  "js_round x = \<lfloor>x + 1 / 2\<rfloor>"

definition to_fixed1 :: "rat \<Rightarrow> rat" where
  "to_fixed1 x = of_int (js_round (10 * x)) / 10"

lemma js_round_of_int [simp]: "js_round (of_int n) = n"
  unfolding js_round_def by linarith

lemma js_round_mono: "x \<le> y \<Longrightarrow> js_round x \<le> js_round y"
  unfolding js_round_def by (intro floor_mono) simp

lemma js_round_le: "x \<le> of_int n \<Longrightarrow> js_round x \<le> n"
  using js_round_mono [of x "of_int n"] by simp

lemma js_round_ge: "of_int n \<le> x \<Longrightarrow> n \<le> js_round x"
  using js_round_mono [of "of_int n" x] by simp

end
