(* ===== verification/JsRegex.thy ===== *)
theory JsRegex
  imports JsArrays
begin

text \<open>
  Regular expressions with the backtracking semantics of ECMAScript. A position is the character
  before it, the rest of the input and the captures so far; \<open>rx_m r p\<close> is the list of the
  positions at which a match of \<open>r\<close> from \<open>p\<close> can end, in the order in which the engine tries
  them, so the head is the match the engine reports. An iteration of a repetition that consumes
  nothing is discarded, as the standard says. The flag \<^verbatim>\<open>i\<close> compares characters by
  their ASCII upper and lower case forms.
\<close>

record rxpos =
  rx_prev :: "char option"
  rx_rest :: string
  rx_caps :: "(nat \<times> string) list"

datatype rx =
    RCls bool "(char \<times> char) list"
      \<comment> \<open>a character in the ranges; with \<open>True\<close>, not in them\<close>
  | REps
  | RSeq rx rx
  | RAlt rx rx
  | RRep bool nat "nat option" rx
      \<comment> \<open>greedy or lazy, at least, at most\<close>
  | RBeg
  | RLine
      \<comment> \<open>the start of a line, as \<^verbatim>\<open>^\<close> is with the flag \<^verbatim>\<open>m\<close>\<close>
  | REnd
  | RWordB
  | RGroup nat rx
  | RNot rx
      \<comment> \<open>negative lookahead\<close>

fun in_ranges :: "char \<Rightarrow> (char \<times> char) list \<Rightarrow> bool" where
  "in_ranges c [] = False"
| "in_ranges c ((a, b) # rs) =
     (((of_char a :: nat) \<le> of_char c \<and> (of_char c :: nat) \<le> of_char b) \<or> in_ranges c rs)"

definition cls_ok :: "bool \<Rightarrow> bool \<Rightarrow> (char \<times> char) list \<Rightarrow> char \<Rightarrow> bool" where
  "cls_ok ic neg rs c =
     ((if ic then in_ranges (lower_char c) rs \<or> in_ranges (upper_char c) rs else in_ranges c rs)
        \<noteq> neg)"

definition is_word_char :: "char \<Rightarrow> bool" where
  "is_word_char c = in_ranges c
     [(CHR ''a'', CHR ''z''), (CHR ''A'', CHR ''Z''), (CHR ''0'', CHR ''9''), (CHR ''_'', CHR ''_'')]"

definition word_at :: "char option \<Rightarrow> bool" where
  "word_at c = (case c of None \<Rightarrow> False | Some d \<Rightarrow> is_word_char d)"

definition rx_step :: "rxpos \<Rightarrow> rxpos list" where
  "rx_step p = (case rx_rest p of [] \<Rightarrow> []
     | c # s \<Rightarrow> [p\<lparr>rx_prev := Some c, rx_rest := s\<rparr>])"

text \<open>The optional part of a repetition: up to \<open>n\<close> more iterations, each consuming something.\<close>

fun rx_more :: "bool \<Rightarrow> nat \<Rightarrow> (rxpos \<Rightarrow> rxpos list) \<Rightarrow> rxpos \<Rightarrow> rxpos list" where
  "rx_more greedy 0 f p = [p]"
| "rx_more greedy (Suc n) f p =
     (let qs = concat (map (\<lambda>q. if length (rx_rest q) < length (rx_rest p)
                                then rx_more greedy n f q else []) (f p))
      in if greedy then qs @ [p] else p # qs)"

fun rx_times :: "nat \<Rightarrow> (rxpos \<Rightarrow> rxpos list) \<Rightarrow> rxpos \<Rightarrow> rxpos list" where
  "rx_times 0 f p = [p]"
| "rx_times (Suc n) f p = concat (map (rx_times n f) (f p))"

primrec rx_m :: "bool \<Rightarrow> rx \<Rightarrow> rxpos \<Rightarrow> rxpos list" where
  "rx_m ic (RCls neg rs) = (\<lambda>p. case rx_rest p of [] \<Rightarrow> []
     | c # s \<Rightarrow> if cls_ok ic neg rs c then [p\<lparr>rx_prev := Some c, rx_rest := s\<rparr>] else [])"
| "rx_m ic REps = (\<lambda>p. [p])"
| "rx_m ic (RSeq a b) = (\<lambda>p. concat (map (rx_m ic b) (rx_m ic a p)))"
| "rx_m ic (RAlt a b) = (\<lambda>p. rx_m ic a p @ rx_m ic b p)"
| "rx_m ic (RRep greedy lo hi a) = (\<lambda>p. concat (map
     (\<lambda>q. rx_more greedy (case hi of None \<Rightarrow> length (rx_rest q) | Some h \<Rightarrow> h - lo) (rx_m ic a) q)
     (rx_times lo (rx_m ic a) p)))"
| "rx_m ic RBeg = (\<lambda>p. if rx_prev p = None then [p] else [])"
| "rx_m ic RLine = (\<lambda>p. if rx_prev p = None \<or> rx_prev p = Some nl \<or> rx_prev p = Some (CHR 0x0D) then [p] else [])"
| "rx_m ic REnd = (\<lambda>p. if rx_rest p = [] then [p] else [])"
| "rx_m ic RWordB = (\<lambda>p. if word_at (rx_prev p) \<noteq>
       word_at (case rx_rest p of [] \<Rightarrow> None | c # _ \<Rightarrow> Some c) then [p] else [])"
| "rx_m ic (RGroup n a) = (\<lambda>p. map (\<lambda>q. q\<lparr>rx_caps := (n, take (length (rx_rest p) - length (rx_rest q))
       (rx_rest p)) # rx_caps q\<rparr>) (rx_m ic a p))"
| "rx_m ic (RNot a) = (\<lambda>p. if rx_m ic a p = [] then [p] else [])"

text \<open>Search from left to right: the skipped text, the position of the match, and where it ends.\<close>

fun rx_search :: "bool \<Rightarrow> rx \<Rightarrow> char option \<Rightarrow> string \<Rightarrow> (string \<times> rxpos) option" where
  "rx_search ic r pv [] =
     (case rx_m ic r \<lparr>rx_prev = pv, rx_rest = [], rx_caps = []\<rparr> of [] \<Rightarrow> None | q # _ \<Rightarrow> Some ([], q))"
| "rx_search ic r pv (c # s) =
     (case rx_m ic r \<lparr>rx_prev = pv, rx_rest = c # s, rx_caps = []\<rparr> of
        q # _ \<Rightarrow> Some ([], q)
      | [] \<Rightarrow> map_option (\<lambda>(sk, q). (c # sk, q)) (rx_search ic r (Some c) s))"

definition rx_test :: "rx \<Rightarrow> string \<Rightarrow> bool" where
  "rx_test r s = (rx_search False r None s \<noteq> None)"

definition rx_test_i :: "rx \<Rightarrow> string \<Rightarrow> bool" where
  "rx_test_i r s = (rx_search True r None s \<noteq> None)"

text \<open>\<^verbatim>\<open>r.exec(s)\<close>: the captures of the first match.\<close>

definition rx_exec :: "bool \<Rightarrow> rx \<Rightarrow> string \<Rightarrow> (nat \<times> string) list option" where
  "rx_exec ic r s = map_option (\<lambda>(sk, q). rx_caps q) (rx_search ic r None s)"

definition rx_cap :: "(nat \<times> string) list \<Rightarrow> nat \<Rightarrow> string option" where
  "rx_cap cs n = map_of cs n"

text \<open>\<^verbatim>\<open>s.replace(r, w)\<close>, once and with the flag \<^verbatim>\<open>g\<close> (for an \<open>r\<close> that never matches
  the empty string; the fuel bounds the number of matches by the length of the input).\<close>

definition rx_replace1 :: "bool \<Rightarrow> rx \<Rightarrow> string \<Rightarrow> string \<Rightarrow> string" where
  "rx_replace1 ic r w s = (case rx_search ic r None s of None \<Rightarrow> s
     | Some (sk, q) \<Rightarrow> sk @ w @ rx_rest q)"

fun rx_replace_from :: "nat \<Rightarrow> bool \<Rightarrow> rx \<Rightarrow> string \<Rightarrow> char option \<Rightarrow> string \<Rightarrow> string" where
  "rx_replace_from 0 ic r w pv s = s"
| "rx_replace_from (Suc n) ic r w pv s = (case rx_search ic r pv s of None \<Rightarrow> s
     | Some (sk, q) \<Rightarrow> sk @ w @ rx_replace_from n ic r w (rx_prev q) (rx_rest q))"

definition rx_replace_all :: "bool \<Rightarrow> rx \<Rightarrow> string \<Rightarrow> string \<Rightarrow> string" where
  "rx_replace_all ic r w s = rx_replace_from (Suc (length s)) ic r w None s"

section \<open>Building expressions\<close>

definition rchar :: "char \<Rightarrow> rx" where "rchar c = RCls False [(c, c)]"

fun lit :: "string \<Rightarrow> rx" where
  "lit [] = REps"
| "lit [c] = rchar c"
| "lit (c # d # s) = RSeq (rchar c) (lit (d # s))"

fun rseq :: "rx list \<Rightarrow> rx" where
  "rseq [] = REps"
| "rseq [r] = r"
| "rseq (r # s # rs) = RSeq r (rseq (s # rs))"

fun ralt :: "rx list \<Rightarrow> rx" where
  "ralt [] = RCls False []"
| "ralt [r] = r"
| "ralt (r # s # rs) = RAlt r (ralt (s # rs))"

definition words_rx :: "string list \<Rightarrow> rx" where "words_rx ws = ralt (map lit ws)"
definition rchars :: "string \<Rightarrow> rx" where "rchars cs = RCls False (map (\<lambda>c. (c, c)) cs)"
definition ropt :: "rx \<Rightarrow> rx" where "ropt r = RRep True 0 (Some 1) r"
definition rstar :: "rx \<Rightarrow> rx" where "rstar r = RRep True 0 None r"
definition rplus :: "rx \<Rightarrow> rx" where "rplus r = RRep True 1 None r"
definition rrep :: "nat \<Rightarrow> nat \<Rightarrow> rx \<Rightarrow> rx" where "rrep a b r = RRep True a (Some b) r"
definition digit :: rx where "digit = RCls False [(CHR ''0'', CHR ''9'')]"
definition word_rx :: rx where
  "word_rx = RCls False [(CHR ''a'', CHR ''z''), (CHR ''A'', CHR ''Z''), (CHR ''0'', CHR ''9''), (CHR ''_'', CHR ''_'')]"
definition space :: rx where
  "space = RCls False [(CHR '' '', CHR '' ''), (CHR 0x09, CHR 0x0D), (CHR 0xA0, CHR 0xA0)]"
definition not_space :: rx where
  "not_space = RCls True [(CHR '' '', CHR '' ''), (CHR 0x09, CHR 0x0D), (CHR 0xA0, CHR 0xA0)]"
definition any_char :: rx where
  "any_char = RCls True [(CHR 0x0A, CHR 0x0A), (CHR 0x0D, CHR 0x0D)]"

section \<open>A match ends inside the input\<close>

definition rx_suffix :: "rxpos \<Rightarrow> rxpos \<Rightarrow> bool" where
  "rx_suffix q p = (\<exists>u. rx_rest p = u @ rx_rest q)"

lemma rx_suffix_refl [simp]: "rx_suffix p p"
  by (simp add: rx_suffix_def)

lemma rx_suffix_trans: "rx_suffix r q \<Longrightarrow> rx_suffix q p \<Longrightarrow> rx_suffix r p"
  by (auto simp: rx_suffix_def)

lemma rx_more_suffix:
  assumes f: "\<And>p q. q \<in> set (f p) \<Longrightarrow> rx_suffix q p"
  shows "q \<in> set (rx_more g n f p) \<Longrightarrow> rx_suffix q p"
proof (induction n arbitrary: p q)
  case 0
  then show ?case by simp
next
  case (Suc n)
  then consider "q = p" | x where "x \<in> set (f p)" "q \<in> set (rx_more g n f x)"
    by (auto simp: Let_def split: if_splits)
  then show ?case
    by cases (auto intro: rx_suffix_trans [OF Suc.IH] f)
qed

lemma rx_times_suffix:
  assumes f: "\<And>p q. q \<in> set (f p) \<Longrightarrow> rx_suffix q p"
  shows "q \<in> set (rx_times n f p) \<Longrightarrow> rx_suffix q p"
proof (induction n arbitrary: p q)
  case (Suc n)
  then obtain x where "x \<in> set (f p)" "q \<in> set (rx_times n f x)" by auto
  then show ?case by (meson Suc.IH f rx_suffix_trans)
qed simp

lemma rx_m_suffix: "q \<in> set (rx_m ic r p) \<Longrightarrow> rx_suffix q p"
proof (induction r arbitrary: p q)
  case (RCls neg rs)
  then show ?case by (cases "rx_rest p") (auto simp: rx_suffix_def split: if_splits)
next
  case (RSeq a b)
  from RSeq.prems obtain x where "x \<in> set (rx_m ic a p)" "q \<in> set (rx_m ic b x)" by auto
  then show ?case by (meson RSeq.IH rx_suffix_trans)
next
  case (RRep g lo hi a)
  then obtain x h where "x \<in> set (rx_times lo (rx_m ic a) p)" "q \<in> set (rx_more g h (rx_m ic a) x)"
    by auto
  then have "rx_suffix x p" "rx_suffix q x"
    using rx_times_suffix [of "rx_m ic a", OF RRep.IH] rx_more_suffix [of "rx_m ic a", OF RRep.IH]
    by blast+
  then show ?case by (rule rx_suffix_trans [rotated])
next
  case (RGroup n a)
  then show ?case by (fastforce simp: rx_suffix_def)
qed (auto split: if_splits)

lemma rx_search_split:
  "rx_search ic r pv s = Some (sk, q) \<Longrightarrow> \<exists>u. s = sk @ u @ rx_rest q"
proof (induction ic r pv s arbitrary: sk rule: rx_search.induct)
  case (1 ic r pv)
  then show ?case
    using rx_m_suffix [of q ic r "\<lparr>rx_prev = pv, rx_rest = [], rx_caps = []\<rparr>"]
    by (auto simp: rx_suffix_def split: list.splits)
next
  case (2 ic r pv c s)
  show ?case
  proof (cases "rx_m ic r \<lparr>rx_prev = pv, rx_rest = c # s, rx_caps = []\<rparr>")
    case Nil
    with 2 show ?thesis by auto
  next
    case (Cons q' qs)
    with 2 have "q = q'" "sk = []" by auto
    with Cons rx_m_suffix [of q ic r "\<lparr>rx_prev = pv, rx_rest = c # s, rx_caps = []\<rparr>"]
    show ?thesis by (auto simp: rx_suffix_def)
  qed
qed

text \<open>A word list finds exactly the strings that contain one of its words.\<close>

lemma rx_m_rchar: "rx_m False (rchar c) p =
  (case rx_rest p of [] \<Rightarrow> [] | d # s \<Rightarrow> if d = c then [p\<lparr>rx_prev := Some d, rx_rest := s\<rparr>] else [])"
proof -
  have "(of_char c :: nat) \<le> of_char d \<and> (of_char d :: nat) \<le> of_char c \<longleftrightarrow> d = c" for d
    by (metis of_char_eq_iff order_antisym order_refl)
  then show ?thesis
    by (auto simp: rchar_def cls_ok_def split: list.splits)
qed

lemma starts_with_Cons:
  "starts_with (c # s) t = (case t of [] \<Rightarrow> False | d # t' \<Rightarrow> d = c \<and> starts_with s t')"
  by (auto simp: starts_with_def split: list.splits)

lemma rx_m_lit_Cons_Nil_iff:
  assumes "\<And>p. rx_m False r p = [] \<longleftrightarrow> \<not> starts_with w (rx_rest p)"
  shows "rx_m False (RSeq (rchar c) r) p = [] \<longleftrightarrow> \<not> starts_with (c # w) (rx_rest p)"
  by (cases "rx_rest p") (simp_all add: rx_m_rchar starts_with_Cons assms)

lemma rx_m_lit_Nil_iff: "rx_m False (lit w) p = [] \<longleftrightarrow> \<not> starts_with w (rx_rest p)"
proof (induction w arbitrary: p rule: lit.induct)
  case 1
  then show ?case by (simp add: starts_with_def)
next
  case (2 c)
  then show ?case by (cases "rx_rest p") (simp_all add: rx_m_rchar starts_with_Cons, simp add: starts_with_def)
next
  case (3 c d s)
  show ?case unfolding lit.simps by (rule rx_m_lit_Cons_Nil_iff) (rule 3)
qed

lemma rx_m_ralt_Nil_iff: "rx_m ic (ralt rs) p = [] \<longleftrightarrow> (\<forall>r \<in> set rs. rx_m ic r p = [])"
  by (induction rs rule: ralt.induct) (simp_all add: cls_ok_def split: list.splits)

lemma all_splits_Cons:
  "(\<forall>u v. c # s = u @ v \<longrightarrow> P u v) \<longleftrightarrow> P [] (c # s) \<and> (\<forall>u v. s = u @ v \<longrightarrow> P (c # u) v)"
  by (auto simp: Cons_eq_append_conv)

lemma rx_search_Cons_None:
  "rx_search ic r pv (c # s) = None \<longleftrightarrow>
   rx_m ic r \<lparr>rx_prev = pv, rx_rest = c # s, rx_caps = []\<rparr> = [] \<and> rx_search ic r (Some c) s = None"
  by (cases "rx_m ic r \<lparr>rx_prev = pv, rx_rest = c # s, rx_caps = []\<rparr>") auto

lemma rx_search_Nil_None:
  "rx_search ic r pv [] = None \<longleftrightarrow> rx_m ic r \<lparr>rx_prev = pv, rx_rest = [], rx_caps = []\<rparr> = []"
  by (cases "rx_m ic r \<lparr>rx_prev = pv, rx_rest = [], rx_caps = []\<rparr>") auto

lemma rx_search_None_iff: "rx_search ic r pv s = None \<longleftrightarrow>
  (\<forall>u v. s = u @ v \<longrightarrow> rx_m ic r \<lparr>rx_prev = (if u = [] then pv else Some (last u)), rx_rest = v, rx_caps = []\<rparr> = [])"
proof (induction s arbitrary: pv)
  case Nil
  show ?case by (simp only: rx_search_Nil_None) simp
next
  case (Cons c s)
  have "(if c # u = [] then pv else Some (last (c # u))) = (if u = [] then Some c else Some (last u))" for u
    by simp
  then show ?case
    unfolding all_splits_Cons rx_search_Cons_None Cons.IH by simp
qed

lemma js_includes_iff: "js_includes w s \<longleftrightarrow> \<not> (\<forall>u v. s = u @ v \<longrightarrow> \<not> starts_with w v)"
proof (induction s)
  case Nil
  then show ?case by (auto simp: starts_with_def)
next
  case (Cons c s)
  then show ?case unfolding all_splits_Cons by simp
qed

theorem rx_test_words: "rx_test (words_rx ws) s \<longleftrightarrow> (\<exists>w \<in> set ws. js_includes w s)"
proof -
  have m: "rx_m False (words_rx ws) p = [] \<longleftrightarrow> (\<forall>w \<in> set ws. \<not> starts_with w (rx_rest p))" for p
    by (simp add: words_rx_def rx_m_ralt_Nil_iff rx_m_lit_Nil_iff)
  have "rx_search False (words_rx ws) None s = None \<longleftrightarrow>
      (\<forall>u v. s = u @ v \<longrightarrow> (\<forall>w \<in> set ws. \<not> starts_with w v))"
    by (simp add: rx_search_None_iff m)
  also have "\<dots> \<longleftrightarrow> (\<forall>w \<in> set ws. \<forall>u v. s = u @ v \<longrightarrow> \<not> starts_with w v)"
    by blast
  finally show ?thesis
    by (simp only: rx_test_def js_includes_iff ball_simps bex_simps not_not)
qed

section \<open>Anchored patterns\<close>

text \<open>No class of the pattern takes the character \<open>c\<close>; every match ends at the end of the input.\<close>

primrec rx_avoids :: "bool \<Rightarrow> char \<Rightarrow> rx \<Rightarrow> bool" where
  "rx_avoids ic c (RCls neg rs) = (\<not> cls_ok ic neg rs c)"
| "rx_avoids ic c REps = True"
| "rx_avoids ic c (RSeq a b) = (rx_avoids ic c a \<and> rx_avoids ic c b)"
| "rx_avoids ic c (RAlt a b) = (rx_avoids ic c a \<and> rx_avoids ic c b)"
| "rx_avoids ic c (RRep greedy lo hi a) = rx_avoids ic c a"
| "rx_avoids ic c RBeg = True"
| "rx_avoids ic c RLine = True"
| "rx_avoids ic c REnd = True"
| "rx_avoids ic c RWordB = True"
| "rx_avoids ic c (RGroup n a) = rx_avoids ic c a"
| "rx_avoids ic c (RNot a) = True"

fun rx_ends :: "rx \<Rightarrow> bool" where
  "rx_ends REnd = True"
| "rx_ends (RSeq a b) = rx_ends b"
| "rx_ends r = False"

definition rx_skips :: "char \<Rightarrow> rxpos \<Rightarrow> rxpos \<Rightarrow> bool" where
  "rx_skips c q p = (\<exists>u. rx_rest p = u @ rx_rest q \<and> c \<notin> set u)"

lemma rx_skips_refl [simp]: "rx_skips c p p"
  by (simp add: rx_skips_def)

lemma rx_skips_trans: "rx_skips c r q \<Longrightarrow> rx_skips c q p \<Longrightarrow> rx_skips c r p"
  by (fastforce simp: rx_skips_def)

lemma rx_more_skips:
  assumes f: "\<And>p q. q \<in> set (f p) \<Longrightarrow> rx_skips c q p"
  shows "q \<in> set (rx_more g n f p) \<Longrightarrow> rx_skips c q p"
proof (induction n arbitrary: p q)
  case (Suc n)
  then consider "q = p" | x where "x \<in> set (f p)" "q \<in> set (rx_more g n f x)"
    by (auto simp: Let_def split: if_splits)
  then show ?case
    by cases (auto intro: rx_skips_trans [OF Suc.IH] f)
qed simp

lemma rx_times_skips:
  assumes f: "\<And>p q. q \<in> set (f p) \<Longrightarrow> rx_skips c q p"
  shows "q \<in> set (rx_times n f p) \<Longrightarrow> rx_skips c q p"
proof (induction n arbitrary: p q)
  case (Suc n)
  then obtain x where "x \<in> set (f p)" "q \<in> set (rx_times n f x)" by auto
  then show ?case by (meson Suc.IH f rx_skips_trans)
qed simp

lemma rx_m_skips: "rx_avoids ic c r \<Longrightarrow> q \<in> set (rx_m ic r p) \<Longrightarrow> rx_skips c q p"
proof (induction r arbitrary: p q)
  case (RCls neg rs)
  then show ?case by (cases "rx_rest p") (auto simp: rx_skips_def split: if_splits)
next
  case (RSeq a b)
  from RSeq.prems obtain x where "x \<in> set (rx_m ic a p)" "q \<in> set (rx_m ic b x)" by auto
  with RSeq show ?case by (metis rx_avoids.simps(3) rx_skips_trans)
next
  case (RRep g lo hi a)
  then obtain x h where "x \<in> set (rx_times lo (rx_m ic a) p)" "q \<in> set (rx_more g h (rx_m ic a) x)"
    by auto
  moreover have "\<And>p q. q \<in> set (rx_m ic a p) \<Longrightarrow> rx_skips c q p" using RRep.IH RRep.prems(1) by simp
  ultimately have "rx_skips c x p" "rx_skips c q x"
    using rx_times_skips [of "rx_m ic a"] rx_more_skips [of "rx_m ic a"] by blast+
  then show ?case by (rule rx_skips_trans [rotated])
next
  case (RGroup n a)
  then show ?case by (fastforce simp: rx_skips_def)
qed (auto split: if_splits)

lemma rx_m_ends: "rx_ends r \<Longrightarrow> q \<in> set (rx_m ic r p) \<Longrightarrow> rx_rest q = []"
  by (induction r arbitrary: p rule: rx_ends.induct) (auto split: if_splits)

text \<open>A string that matches \<^verbatim>\<open>/^...$/\<close> holds none of the characters the pattern avoids.\<close>

lemma anchored_avoids:
  assumes "rx_search ic (RSeq RBeg r) None s \<noteq> None" "rx_avoids ic c r" "rx_ends r"
  shows "c \<notin> set s"
proof -
  from assms(1) obtain u v where s: "s = u @ v"
    and m: "rx_m ic (RSeq RBeg r) \<lparr>rx_prev = (if u = [] then None else Some (last u)), rx_rest = v, rx_caps = []\<rparr> \<noteq> []"
    unfolding rx_search_None_iff by blast
  then have u: "u = []" by (auto split: if_splits)
  with m have "rx_m ic r \<lparr>rx_prev = None, rx_rest = v, rx_caps = []\<rparr> \<noteq> []" by auto
  then obtain q where q: "q \<in> set (rx_m ic r \<lparr>rx_prev = None, rx_rest = v, rx_caps = []\<rparr>)" by (meson last_in_set)
  from rx_m_skips [OF assms(2) q] rx_m_ends [OF assms(3) q] show ?thesis by (auto simp: rx_skips_def s u)
qed

end
