(* ===== verification/JsDate.thy ===== *)
theory JsDate
  imports JsRegex
begin

text \<open>
  Instants are milliseconds since 1970-01-01T00:00:00Z, as an \<open>int\<close>. \<open>date_parse\<close> is
  \<^verbatim>\<open>Date.parse\<close> on the ISO forms the code stores (a date; a date and time with an optional
  fraction, and \<^verbatim>\<open>Z\<close> or an offset); any other text, for which the engine's answer is
  implementation-defined, reads as invalid (\<open>None\<close>, the code's \<^verbatim>\<open>NaN\<close>). A date and time
  without an offset is read as UTC, the zone the services run in. The calendar is the proleptic
  Gregorian one, computed by days since the epoch.
\<close>

abbreviation day_ms :: int where "day_ms \<equiv> 86400000"

definition days_from_civil :: "int \<Rightarrow> int \<Rightarrow> int \<Rightarrow> int" where
  "days_from_civil y m d =
     (let y' = if m \<le> 2 then y - 1 else y;
          era = y' div 400;
          yoe = y' mod 400;
          doy = (153 * ((m + 9) mod 12) + 2) div 5 + d - 1;
          doe = yoe * 365 + yoe div 4 - yoe div 100 + doy
      in era * 146097 + doe - 719468)"

definition civil_from_days :: "int \<Rightarrow> int \<times> int \<times> int" where
  "civil_from_days z0 =
     (let z = z0 + 719468;
          era = z div 146097;
          doe = z mod 146097;
          yoe = (doe - doe div 1460 + doe div 36524 - doe div 146096) div 365;
          doy = doe - (365 * yoe + yoe div 4 - yoe div 100);
          mp = (5 * doy + 2) div 153;
          d = doy - (153 * mp + 2) div 5 + 1;
          m = if mp < 10 then mp + 3 else mp - 9
      in (yoe + era * 400 + (if m \<le> 2 then 1 else 0), m, d))"

text \<open>\<^verbatim>\<open>Date.UTC(y, month - 1, d, h, mi, s)\<close> with the month counted from 1; a month past 12 or a day
  past the end of the month carries over, as in the engine.\<close>

definition date_utc :: "int \<Rightarrow> int \<Rightarrow> int \<Rightarrow> int \<Rightarrow> int \<Rightarrow> int \<Rightarrow> int" where
  "date_utc y m d h mi s =
     (let y' = y + (m - 1) div 12; m' = (m - 1) mod 12 + 1
      in (days_from_civil y' m' 1 + d - 1) * day_ms + h * 3600000 + mi * 60000 + s * 1000)"

definition is_digit :: "char \<Rightarrow> bool" where
  "is_digit c = (48 \<le> (of_char c :: nat) \<and> (of_char c :: nat) \<le> 57)"

fun digits_val :: "int \<Rightarrow> string \<Rightarrow> int" where
  "digits_val acc [] = acc"
| "digits_val acc (c # s) = digits_val (10 * acc + (int (of_char c) - 48)) s"

definition take_num :: "nat \<Rightarrow> string \<Rightarrow> (int \<times> string) option" where
  "take_num n s = (if length (take n s) = n \<and> list_all is_digit (take n s)
     then Some (digits_val 0 (take n s), drop n s) else None)"

definition eat :: "char \<Rightarrow> string \<Rightarrow> string option" where
  "eat c s = (case s of [] \<Rightarrow> None | x # r \<Rightarrow> if x = c then Some r else None)"

text \<open>Milliseconds of a fraction: its first three digits, padded with zeros.\<close>

definition frac_ms :: "string \<Rightarrow> int" where
  "frac_ms ds = digits_val 0 (take 3 (ds @ ''000''))"

definition parse_zone :: "string \<Rightarrow> int option" where
  "parse_zone s =
     (case s of [] \<Rightarrow> Some 0
      | c # r \<Rightarrow>
        if c = CHR ''Z'' \<and> r = [] then Some 0
        else if c = CHR ''+'' \<or> c = CHR ''-'' then
          Option.bind (take_num 2 r) (\<lambda>(h, r1).
            let r2 = (case eat CHR '':'' r1 of Some x \<Rightarrow> x | None \<Rightarrow> r1)
            in if r2 = [] then Some ((if c = CHR ''-'' then 1 else - 1) * h * 3600000)
               else Option.bind (take_num 2 r2) (\<lambda>(mi, r3).
                 if r3 = [] then Some ((if c = CHR ''-'' then 1 else - 1) * (h * 3600000 + mi * 60000))
                 else None))
        else None)"

definition parse_time :: "string \<Rightarrow> (int \<times> string) option" where
  "parse_time s =
     Option.bind (take_num 2 s) (\<lambda>(h, s1). Option.bind (eat CHR '':'' s1) (\<lambda>s2.
     Option.bind (take_num 2 s2) (\<lambda>(mi, s3).
       if h > 23 \<or> mi > 59 then None
       else (case eat CHR '':'' s3 of
          None \<Rightarrow> Some (h * 3600000 + mi * 60000, s3)
        | Some s4 \<Rightarrow> Option.bind (take_num 2 s4) (\<lambda>(sec, s5).
            if sec > 59 then None
            else (case eat CHR ''.'' s5 of
                None \<Rightarrow> Some (h * 3600000 + mi * 60000 + sec * 1000, s5)
              | Some s6 \<Rightarrow> let ds = takeWhile is_digit s6 in
                  if ds = [] then None
                  else Some (h * 3600000 + mi * 60000 + sec * 1000 + frac_ms ds, dropWhile is_digit s6)))))))"

definition date_parse :: "string \<Rightarrow> int option" where
  "date_parse s =
     Option.bind (take_num 4 s) (\<lambda>(y, s1). Option.bind (eat CHR ''-'' s1) (\<lambda>s2.
     Option.bind (take_num 2 s2) (\<lambda>(m, s3). Option.bind (eat CHR ''-'' s3) (\<lambda>s4.
     Option.bind (take_num 2 s4) (\<lambda>(d, s5).
       if m < 1 \<or> m > 12 \<or> d < 1 \<or> d > 31 then None
       else if s5 = [] then Some (date_utc y m d 0 0 0)
       else Option.bind (eat CHR ''T'' s5) (\<lambda>s6. Option.bind (parse_time s6) (\<lambda>(t, s7).
         Option.bind (parse_zone s7) (\<lambda>z. Some (date_utc y m d 0 0 0 + t + z)))))))))"

text \<open>\<^verbatim>\<open>const t = iso ? Date.parse(iso) : NaN; return Number.isFinite(t) ? t : null\<close>.\<close>

definition ms_of :: "string option \<Rightarrow> int option" where
  "ms_of w = (case w of None \<Rightarrow> None | Some s \<Rightarrow> if s = [] then None else date_parse s)"

definition pad2 :: "int \<Rightarrow> string" where
  "pad2 n = (if n < 10 then CHR ''0'' # show_int n else show_int n)"

definition pad3 :: "int \<Rightarrow> string" where
  "pad3 n = (if n < 100 then CHR ''0'' # pad2 n else show_int n)"

definition pad4 :: "int \<Rightarrow> string" where
  "pad4 n = (if n < 1000 then CHR ''0'' # pad3 n else show_int n)"

text \<open>\<^verbatim>\<open>new Date(t).toISOString()\<close> for the years 0 to 9999.\<close>

definition iso_of :: "int \<Rightarrow> string" where
  "iso_of t =
     (let (y, m, d) = civil_from_days (t div day_ms); r = t mod day_ms
      in pad4 y @ ''-'' @ pad2 m @ ''-'' @ pad2 d @ ''T'' @ pad2 (r div 3600000) @ '':'' @
         pad2 (r mod 3600000 div 60000) @ '':'' @ pad2 (r mod 60000 div 1000) @ ''.'' @
         pad3 (r mod 1000) @ ''Z'')"

text \<open>The date half: \<^verbatim>\<open>toISOString().slice(0, 10)\<close>.\<close>

definition iso_day :: "int \<Rightarrow> string" where
  "iso_day t = take 10 (iso_of t)"

lemma date_parse_examples:
  "date_parse ''2026-03-14'' = Some 1773446400000"
  "date_parse ''2026-03-14T10:00:00.5+02:00'' = Some 1773475200500"
  "date_parse ''soon'' = None"
  by code_simp+

lemma iso_of_examples:
  "iso_of 1773475200500 = ''2026-03-14T08:00:00.500Z''"
  "iso_of (- 1) = ''1969-12-31T23:59:59.999Z''"
  by code_simp+

lemma date_utc_day: "date_utc y m (d + 1) h mi s = date_utc y m d h mi s + day_ms"
  by (simp add: date_utc_def Let_def algebra_simps)

lemma date_utc_mono_day: "d \<le> d' \<Longrightarrow> date_utc y m d h mi s \<le> date_utc y m d' h mi s"
  by (simp add: date_utc_def Let_def)

end
