(* ===== verification/MessagePrivacy.thy ===== *)
theory MessagePrivacy
  imports JsDate
begin

text \<open>
  Who may read what: \<^verbatim>\<open>packages/core/src/privacy/messagePrivacy.mjs\<close> (a message's content, a
  meeting's transcript, the wording of a fact derived from a message) and the viewer context of
  \<^verbatim>\<open>packages/core/src/db/readContext.ts\<close>. Payloads are \<open>jsval\<close>, tested at run time as the
  code tests them; the database reads are parameters, one call per batch of ids.
\<close>

section \<open>The read context (db/readContext.ts)\<close>

datatype viewer_scope = ScopeAdmin | ScopeMember

definition NO_CONTENT_VIEWER :: string where
  "NO_CONTENT_VIEWER = ''00000000-0000-0000-0000-000000000001''"

record read_context =
  workspaceId :: string
  viewerUserId :: "string option"
  viewerScope :: viewer_scope
  openVisibility :: bool
  teamOnly :: bool

definition teamReadContext :: "string \<Rightarrow> read_context" where
  "teamReadContext ws = \<lparr>workspaceId = ws, viewerUserId = None, viewerScope = ScopeAdmin,
     openVisibility = False, teamOnly = True\<rparr>"

record request =
  rq_workspaceId :: "string option"
  rq_memberUserId :: "string option"
  rq_internalUserId :: "string option"
  rq_noContent :: bool
  rq_viewerScope :: "string option"
  rq_openVisibility :: "bool option"
  rq_workspaceRole :: "string option"

definition readContextFromReq :: "request \<Rightarrow> read_context" where
  "readContextFromReq rq =
     \<lparr>workspaceId = str_of (rq_workspaceId rq),
      viewerUserId = (if rq_noContent rq then Some NO_CONTENT_VIEWER else rq_memberUserId rq),
      viewerScope = (if rq_viewerScope rq = Some ''admin'' then ScopeAdmin else ScopeMember),
      openVisibility = (rq_openVisibility rq \<noteq> Some False),
      teamOnly = False\<rparr>"

definition systemReadContext :: "string \<Rightarrow> read_context" where
  "systemReadContext ws = \<lparr>workspaceId = ws, viewerUserId = None, viewerScope = ScopeAdmin,
     openVisibility = False, teamOnly = False\<rparr>"

definition ownerScoped :: "read_context option \<Rightarrow> bool" where
  "ownerScoped ctx = (case ctx of None \<Rightarrow> False
     | Some c \<Rightarrow> viewerScope c = ScopeMember \<or> viewerUserId c = Some NO_CONTENT_VIEWER)"

definition rawVisible :: "string option \<Rightarrow> read_context option \<Rightarrow> bool" where
  "rawVisible ownerUserId ctx = (case ctx of None \<Rightarrow> True
     | Some c \<Rightarrow>
        if viewerUserId c = Some NO_CONTENT_VIEWER then False
        else if viewerScope c = ScopeAdmin \<or> openVisibility c then True
        else if ownerUserId = None then True
        else ownerUserId = viewerUserId c)"

record claim_row =
  cl_entity_id :: string
  derived_visibility :: "string option"

definition claimVisible :: "claim_row \<Rightarrow> read_context option \<Rightarrow> string set option \<Rightarrow> bool" where
  "claimVisible claim ctx visibleEntityIds = (case ctx of None \<Rightarrow> True
     | Some c \<Rightarrow>
        if viewerScope c = ScopeAdmin \<or> openVisibility c then True
        else if derived_visibility claim = Some ''shared'' then True
        else (case visibleEntityIds of None \<Rightarrow> False | Some ids \<Rightarrow> cl_entity_id claim \<in> ids))"

definition filterClaimsForViewer ::
  "claim_row list \<Rightarrow> read_context option \<Rightarrow> string set option \<Rightarrow> claim_row list" where
  "filterClaimsForViewer claims ctx visibleEntityIds = (case ctx of None \<Rightarrow> claims
     | Some c \<Rightarrow>
        if viewerScope c = ScopeAdmin \<or> openVisibility c then claims
        else filter (\<lambda>cl. claimVisible cl ctx visibleEntityIds) claims)"

section \<open>The message rule\<close>

definition PRIVATE_MESSAGE_TYPES :: "string list" where
  "PRIVATE_MESSAGE_TYPES =
    [''email_sent'', ''email_received'', ''email_reply'', ''email_replied'',
     ''linkedin_message'', ''linkedin_message_sent'', ''linkedin_message_received'',
     ''linkedin_replied'', ''linkedin_reply'',
     ''linkedin_inmail'', ''linkedin_inmail_sent'', ''linkedin_inmail_received'',
     ''slack_dm'', ''slack_dm_conversation'']"

definition strip_interaction :: "string \<Rightarrow> string" where
  "strip_interaction t = (if starts_with ''interaction.'' t then drop 12 t else t)"

definition strip_kind :: "string \<Rightarrow> string" where
  "strip_kind t = (if starts_with ''interaction.'' t then drop 12 t
     else if starts_with ''evidence.'' t then drop 9 t else t)"

definition isPrivateMessageType :: "string \<Rightarrow> bool" where
  "isPrivateMessageType t = (strip_kind t \<in> set PRIVATE_MESSAGE_TYPES)"

definition js_lower :: "jsval \<Rightarrow> string option" where
  "js_lower v = (case js_str v of None \<Rightarrow> None
     | Some s \<Rightarrow> if js_trim s = [] then None else Some (to_lower (js_trim s)))"

definition js_list :: "jsval \<Rightarrow> string list" where
  "js_list v = List.map_filter js_lower (if js_is_array v then js_elems v else if js_nullish v then [] else [v])"

definition messageParticipants :: "jsval \<Rightarrow> string list" where
  "messageParticipants raw =
     (let r = (if js_is_object raw then raw else JObj []);
          p = (if js_is_object (js_prop r ''participants'') then js_prop r ''participants'' else JObj [])
      in js_uniq (js_list (js_prop p ''from'') @ js_list (js_prop p ''to'') @ js_list (js_prop p ''cc'')
           @ js_list (js_prop r ''from'') @ js_list (js_prop r ''to'') @ js_list (js_prop r ''cc'')))"

text \<open>A viewer's addresses are a \<^verbatim>\<open>Set\<close>, or the array an older caller passes.\<close>

datatype addresses = EmailSet "string list" | EmailArray "jsval list"

record viewer =
  userId :: "string option"
  emails :: addresses
  isAdmin :: bool

definition viewer_emails :: "viewer \<Rightarrow> string list" where
  "viewer_emails v = (case emails v of EmailSet es \<Rightarrow> es | EmailArray xs \<Rightarrow> js_list (JArr xs))"

text \<open>\<^verbatim>\<open>!viewer || !viewer.userId\<close>.\<close>

definition system_viewer :: "viewer option \<Rightarrow> bool" where
  "system_viewer v = (case v of None \<Rightarrow> True | Some w \<Rightarrow> \<not> nonempty (userId w))"

text \<open>The fields of a row that the rule reads: \<open>owner_user_id\<close> and the payload.\<close>

definition canReadMessage :: "jsval \<Rightarrow> jsval \<Rightarrow> viewer option \<Rightarrow> bool" where
  "canReadMessage owner raw viewer =
     (if system_viewer viewer then True
      else let w = the viewer; u = str_of (userId w) in
        if u = NO_CONTENT_VIEWER then False
        else if js_nullish owner then True
        else if owner = JStr u then True
        else if JStr u \<in> set (js_elems (js_prop raw ''mailbox_owner_ids'')) then True
        else list_ex (\<lambda>a. a \<in> set (viewer_emails w)) (messageParticipants raw))"

datatype direction = Sent | Received

definition you_rx :: rx where
  "you_rx = rseq [RBeg, lit ''you:'']"

text \<open>\<open>summary\<close> is the row's summary when it is a string.\<close>

definition messageDirection :: "string \<Rightarrow> jsval \<Rightarrow> string option \<Rightarrow> direction" where
  "messageDirection type raw summary =
     (let t = strip_interaction type;
          outbound = js_coalesce (js_prop raw ''is_outbound'') (js_prop raw ''is_sender'')
      in if ends_with ''_sent'' t then Sent
         else if ends_with ''_received'' t then Received
         else case outbound of
           JBool b \<Rightarrow> (if b then Sent else Received)
         | _ \<Rightarrow> (if rx_test_i you_rx (str_of summary) then Sent else Received))"

fun dir_word :: "direction \<Rightarrow> string" where
  "dir_word Sent = ''sent''"
| "dir_word Received = ''received''"

definition redactedMessageLabel :: "string \<Rightarrow> jsval \<Rightarrow> string option \<Rightarrow> string" where
  "redactedMessageLabel type raw summary =
     (let t = strip_kind type; dir = dir_word (messageDirection t raw summary)
      in if starts_with ''slack_'' t then ''Slack message '' @ dir
         else if starts_with ''email_'' t then ''Email '' @ dir
         else ''LinkedIn message '' @ dir)"

definition lower_val :: "jsval \<Rightarrow> jsval" where
  "lower_val v = (case js_lower v of None \<Rightarrow> JNull | Some s \<Rightarrow> JStr s)"

definition redactedRaw :: "jsval \<Rightarrow> jsval" where
  "redactedRaw raw =
     (let r = (if js_is_object raw then raw else JObj []);
          p = js_prop r ''participants'';
          out = js_prop r ''is_outbound''
      in JObj [(''participants'', if js_is_object p then p
                  else JObj [(''from'', lower_val (js_prop r ''from'')),
                             (''to'', JArr (map JStr (js_list (js_prop r ''to'')))),
                             (''cc'', JArr (map JStr (js_list (js_prop r ''cc''))))]),
               (''is_outbound'', case out of JBool b \<Rightarrow> JBool b | _ \<Rightarrow> JUndef),
               (''redacted'', JBool True)])"

definition canReadMeetingRaw :: "jsval \<Rightarrow> viewer option \<Rightarrow> bool \<Rightarrow> bool" where
  "canReadMeetingRaw meta viewer open' =
     (if system_viewer viewer then True
      else let w = the viewer; u = str_of (userId w) in
        if u = NO_CONTENT_VIEWER then False
        else if isAdmin w then True
        else let m = (if js_is_object meta then meta else JObj []);
                 owner = js_prop m ''owner_user_id'';
                 es = (case emails w of EmailSet xs \<Rightarrow> map JStr xs | EmailArray xs \<Rightarrow> xs);
                 was = (\<lambda>v. case v of JStr s \<Rightarrow> JStr (to_lower (js_trim s)) \<in> set es | _ \<Rightarrow> False)
             in if js_truthy owner \<and> owner = JStr u then True
                else if was (js_prop m ''host_email'') then True
                else if list_ex was (js_elems (js_prop m ''attendee_emails'')) then True
                else \<not> js_truthy owner \<and> open')"

text \<open>An observation-shaped and an activity-shaped row.\<close>

record obs_row =
  ob_id :: string
  ob_property :: string
  ob_value :: jsval
  ob_raw :: jsval
  ob_raw_data :: jsval
  ob_owner :: jsval
  ob_redacted :: bool

record act_row =
  ac_id :: string
  ac_type :: string
  ac_description :: jsval
  ac_summary :: jsval
  ac_raw :: jsval
  ac_raw_data :: jsval
  ac_owner :: jsval
  ac_redacted :: bool

definition redactObservationForViewer :: "obs_row \<Rightarrow> viewer option \<Rightarrow> obs_row" where
  "redactObservationForViewer ob viewer =
     (if \<not> isPrivateMessageType (ob_property ob)
         \<or> canReadMessage (ob_owner ob) (js_coalesce (ob_raw ob) (ob_raw_data ob)) viewer then ob
      else let label = redactedMessageLabel (ob_property ob) (ob_raw ob)
                         (js_str (js_prop (ob_value ob) ''summary''))
           in ob\<lparr>ob_value := JObj [(''description'', JStr label), (''summary'', JNull)],
                 ob_raw := (if ob_raw ob = JUndef then JUndef else redactedRaw (ob_raw ob)),
                 ob_redacted := True\<rparr>)"

definition redactActivityForViewer :: "act_row \<Rightarrow> viewer option \<Rightarrow> act_row" where
  "redactActivityForViewer a viewer =
     (if \<not> isPrivateMessageType (ac_type a)
         \<or> canReadMessage (ac_owner a) (js_coalesce (ac_raw a) (ac_raw_data a)) viewer then a
      else a\<lparr>ac_description := JStr (redactedMessageLabel (ac_type a) (ac_raw_data a) (js_str (ac_summary a))),
             ac_summary := JNull,
             ac_raw_data := redactedRaw (ac_raw_data a),
             ac_redacted := True\<rparr>)"

definition applyMessagePrivacyToObservations :: "obs_row list \<Rightarrow> viewer option \<Rightarrow> obs_row list" where
  "applyMessagePrivacyToObservations rows viewer =
     (if system_viewer viewer then rows else map (\<lambda>ob. redactObservationForViewer ob viewer) rows)"

definition applyMessagePrivacyToActivities :: "act_row list \<Rightarrow> viewer option \<Rightarrow> act_row list" where
  "applyMessagePrivacyToActivities rows viewer =
     (if system_viewer viewer then rows else map (\<lambda>a. redactActivityForViewer a viewer) rows)"

section \<open>Rows read without their payload\<close>

text \<open>\<open>fetch ids\<close> is what the database returns for one batch: id, owner and payload per row.\<close>

definition extra_rows ::
  "(string list \<Rightarrow> (string \<times> jsval \<times> jsval) list) \<Rightarrow> obs_row list \<Rightarrow> (string \<times> jsval \<times> jsval) list" where
  "extra_rows fetch rows =
     (let need = map ob_id (filter (\<lambda>r. isPrivateMessageType (ob_property r)
                   \<and> (ob_raw r = JUndef \<or> ob_owner r = JUndef)) rows)
      in foldl (\<lambda>m (i, ow, rw). jm_set m i (ow, rw)) [] (concat (map fetch (chunks 199 need))))"

definition full_row :: "(string \<times> jsval \<times> jsval) list \<Rightarrow> obs_row \<Rightarrow> obs_row" where
  "full_row extra r = (case jm_get extra (ob_id r) of None \<Rightarrow> r
     | Some (ow, rw) \<Rightarrow> r\<lparr>ob_owner := ow, ob_raw := rw\<rparr>)"

definition redactObservationRowsForViewer ::
  "(string list \<Rightarrow> (string \<times> jsval \<times> jsval) list) \<Rightarrow> obs_row list \<Rightarrow> viewer option \<Rightarrow> obs_row list" where
  "redactObservationRowsForViewer fetch rows viewer =
     (if system_viewer viewer \<or> rows = [] then rows
      else let extra = extra_rows fetch rows
           in map (\<lambda>r.
                if \<not> isPrivateMessageType (ob_property r) then r
                else let full = full_row extra r
                     in if ob_owner full = JUndef
                        then redactObservationForViewer (full\<lparr>ob_owner := JStr ''__unknown__''\<rparr>) viewer
                        else let out = redactObservationForViewer full viewer
                             in if ob_redacted out then out else r) rows)"

section \<open>The viewer cache\<close>

record identity_row =
  idy_kind :: string
  idy_owner :: "string option"
  idy_value :: "string option"

definition VIEWER_TTL_MS :: int where "VIEWER_TTL_MS = 60000"

type_synonym viewer_cache = "(string \<times> (int \<times> viewer)) list"

text \<open>\<open>identities\<close> is \<open>None\<close> when \<^verbatim>\<open>getInternalIdentities\<close> throws. Returns the new cache and the viewer.\<close>

definition loadMessageViewer ::
  "identity_row list option \<Rightarrow> int \<Rightarrow> viewer_cache \<Rightarrow> string \<Rightarrow> string option \<Rightarrow> viewer_cache \<times> viewer option" where
  "loadMessageViewer identities now cache ws user =
     (if \<not> nonempty user then (cache, None)
      else let key = ws @ ''|'' @ str_of user;
               fresh = \<lparr>userId = user,
                        emails = EmailSet (js_uniq (map (\<lambda>y. to_lower (js_trim (str_of (idy_value y))))
                          (filter (\<lambda>y. idy_kind y = ''email'' \<and> idy_owner y = user \<and> nonempty (idy_value y))
                            (case identities of None \<Rightarrow> [] | Some ys \<Rightarrow> ys)))),
                        isAdmin = False\<rparr>
           in case jm_get cache key of
                Some (t0, v) \<Rightarrow> if now - t0 < VIEWER_TTL_MS then (cache, Some v)
                                else (jm_set cache key (now, fresh), Some fresh)
              | None \<Rightarrow> (jm_set cache key (now, fresh), Some fresh))"

definition TEAM_VIEWER :: viewer where
  "TEAM_VIEWER = \<lparr>userId = Some ''__team__'', emails = EmailSet [], isAdmin = False\<rparr>"

definition messageViewerForContext ::
  "identity_row list option \<Rightarrow> int \<Rightarrow> viewer_cache \<Rightarrow> read_context option \<Rightarrow> viewer_cache \<times> viewer option" where
  "messageViewerForContext identities now cache ctx =
     (case ctx of None \<Rightarrow> (cache, None)
      | Some c \<Rightarrow> loadMessageViewer identities now cache (workspaceId c) (viewerUserId c))"

definition derivedViewerForContext ::
  "identity_row list option \<Rightarrow> int \<Rightarrow> viewer_cache \<Rightarrow> read_context option \<Rightarrow> viewer_cache \<times> viewer option" where
  "derivedViewerForContext identities now cache ctx =
     (case ctx of None \<Rightarrow> messageViewerForContext identities now cache ctx
      | Some c \<Rightarrow> if teamOnly c then (cache, Some TEAM_VIEWER)
                  else messageViewerForContext identities now cache ctx)"


section \<open>A pass over rows that redacts some of them\<close>

text \<open>
  The contract of every redacting pass: a redacted row keeps the fields that identify it
  (\<open>key\<close>) and is safe for the viewer; a row that is not hidden is safe as it is.
\<close>

locale row_redactor =
  fixes hidden :: "'r \<Rightarrow> bool" and redact :: "'r \<Rightarrow> 'r" and key :: "'r \<Rightarrow> 'k" and safe :: "'r \<Rightarrow> bool"
  assumes redact_key: "key (redact r) = key r"
    and redact_safe: "hidden r \<Longrightarrow> safe (redact r)"
    and open_safe: "\<not> hidden r \<Longrightarrow> safe r"
begin

lemma pass_keys: "map key (map (\<lambda>r. if hidden r then redact r else r) rs) = map key rs"
  by (simp add: redact_key)

lemma pass_safe: "r \<in> set (map (\<lambda>r. if hidden r then redact r else r) rs) \<Longrightarrow> safe r"
  using redact_safe open_safe by auto

end

text \<open>What an unreadable message row may still show: its label and the envelope.\<close>

definition message_labels :: "string list" where
  "message_labels = [''Slack message sent'', ''Slack message received'', ''Email sent'',
     ''Email received'', ''LinkedIn message sent'', ''LinkedIn message received'']"

definition shows_only_envelope :: "obs_row \<Rightarrow> bool" where
  "shows_only_envelope ob = (ob_redacted ob
     \<and> js_nullish (js_prop (ob_value ob) ''summary'')
     \<and> js_prop (ob_value ob) ''description'' \<in> JStr ` set message_labels
     \<and> (\<forall>k. k \<notin> {''participants'', ''is_outbound'', ''redacted''} \<longrightarrow> js_nullish (js_prop (ob_raw ob) k)))"

definition obs_hidden :: "viewer option \<Rightarrow> obs_row \<Rightarrow> bool" where
  "obs_hidden v ob = (isPrivateMessageType (ob_property ob)
     \<and> \<not> canReadMessage (ob_owner ob) (js_coalesce (ob_raw ob) (ob_raw_data ob)) v)"

lemma redactObservation_visible: "\<not> obs_hidden v ob \<Longrightarrow> redactObservationForViewer ob v = ob"
  by (auto simp: redactObservationForViewer_def obs_hidden_def)

lemma label_cases: "redactedMessageLabel t raw s \<in> set message_labels"
  by (cases "messageDirection (strip_kind t) raw s")
    (simp_all add: redactedMessageLabel_def message_labels_def Let_def)

lemma redactedRaw_props:
  "k \<notin> {''participants'', ''is_outbound'', ''redacted''} \<Longrightarrow> js_nullish (js_prop (redactedRaw raw) k)"
  by (simp add: redactedRaw_def Let_def)

lemma redactObservation_hidden: "obs_hidden v ob \<Longrightarrow> shows_only_envelope (redactObservationForViewer ob v)"
  using label_cases [of "ob_property ob" "ob_raw ob" "js_str (js_prop (ob_value ob) ''summary'')"]
  by (auto simp: redactObservationForViewer_def obs_hidden_def shows_only_envelope_def Let_def redactedRaw_props)

interpretation obs_pass: row_redactor "obs_hidden v" "\<lambda>ob. redactObservationForViewer ob v"
    "\<lambda>ob. (ob_id ob, ob_property ob, ob_owner ob)" "\<lambda>ob. obs_hidden v ob \<longrightarrow> shows_only_envelope ob" for v
  by unfold_locales (auto simp: redactObservation_hidden, simp_all add: redactObservationForViewer_def Let_def)

lemma apply_obs_pass:
  "\<not> system_viewer v \<Longrightarrow> applyMessagePrivacyToObservations rows v =
     map (\<lambda>ob. if obs_hidden v ob then redactObservationForViewer ob v else ob) rows"
  by (simp add: applyMessagePrivacyToObservations_def redactObservation_visible)

section \<open>Redaction hides the content\<close>

text \<open>The envelope of a payload: who was on the message, who holds a copy, which way it went.\<close>

definition same_envelope :: "jsval \<Rightarrow> jsval \<Rightarrow> bool" where
  "same_envelope r r' = (\<forall>k \<in> {''participants'', ''from'', ''to'', ''cc'', ''mailbox_owner_ids'',
     ''is_outbound'', ''is_sender''}. js_prop r k = js_prop r' k)"

lemma same_envelope_participants:
  "same_envelope (JObj a) (JObj b) \<Longrightarrow> messageParticipants (JObj a) = messageParticipants (JObj b)"
  by (simp only: messageParticipants_def js_is_object.simps Let_def if_True)
    (simp add: same_envelope_def del: js_prop.simps)

lemma same_envelope_read:
  "same_envelope (JObj a) (JObj b) \<Longrightarrow> canReadMessage ow (JObj a) v = canReadMessage ow (JObj b) v"
  using same_envelope_participants [of a b]
  by (simp add: canReadMessage_def same_envelope_def Let_def del: js_prop.simps)

lemma same_envelope_label:
  "same_envelope (JObj a) (JObj b) \<Longrightarrow> rx_test_i you_rx (str_of s) = rx_test_i you_rx (str_of s') \<Longrightarrow>
   redactedMessageLabel t (JObj a) s = redactedMessageLabel t (JObj b) s'"
  by (simp add: redactedMessageLabel_def messageDirection_def same_envelope_def Let_def del: js_prop.simps)

lemma same_envelope_raw:
  "same_envelope (JObj a) (JObj b) \<Longrightarrow> redactedRaw (JObj a) = redactedRaw (JObj b)"
  by (simp only: redactedRaw_def js_is_object.simps Let_def if_True)
    (simp add: same_envelope_def del: js_prop.simps)

text \<open>C3: A viewer who may not read a private message learns nothing from its row but the envelope:
  two rows that differ only in their value and payload, with the same envelope and the same
  "You:" marker on the summary, are redacted to the same row, whatever they said.\<close>

theorem redaction_hides_content:
  assumes hidden: "obs_hidden v ob" and raw: "ob_raw ob = JObj a"
    and env: "same_envelope (JObj a) (JObj b)"
    and marker: "rx_test_i you_rx (str_of (js_str (js_prop (ob_value ob) ''summary'')))
               = rx_test_i you_rx (str_of (js_str (js_prop value' ''summary'')))"
  shows "redactObservationForViewer ob v = redactObservationForViewer (ob\<lparr>ob_value := value', ob_raw := JObj b\<rparr>) v"
proof -
  have unread: "\<not> canReadMessage (ob_owner ob) (JObj a) v" "\<not> canReadMessage (ob_owner ob) (JObj b) v"
    using hidden raw same_envelope_read [OF env] by (auto simp: obs_hidden_def js_coalesce_def)
  have lbl: "redactedMessageLabel (ob_property ob) (JObj a) (js_str (js_prop (ob_value ob) ''summary''))
      = redactedMessageLabel (ob_property ob) (JObj b) (js_str (js_prop value' ''summary''))"
    using env marker by (rule same_envelope_label)
  have priv: "isPrivateMessageType (ob_property ob)" using hidden by (simp add: obs_hidden_def)
  show ?thesis
    using unread lbl priv raw same_envelope_raw [OF env]
    by (simp add: redactObservationForViewer_def js_coalesce_def Let_def del: js_prop.simps)
qed

definition demo_viewer :: viewer where
  "demo_viewer = \<lparr>userId = Some ''u1'', emails = EmailSet [''u1@a.example''], isAdmin = True\<rparr>"

definition demo_obs :: obs_row where
  "demo_obs = \<lparr>ob_id = ''o1'', ob_property = ''interaction.email_received'',
     ob_value = JObj [(''summary'', JStr ''the price'')],
     ob_raw = JObj [(''from'', JStr ''x@b.example''), (''body'', JStr ''secret'')],
     ob_raw_data = JUndef, ob_owner = JStr ''u2'', ob_redacted = False\<rparr>"

lemma demo_hidden: "obs_hidden (Some demo_viewer) demo_obs"
  by code_simp

theorem redaction_hides_content_witness:
  "redactObservationForViewer demo_obs (Some demo_viewer) =
   redactObservationForViewer (demo_obs\<lparr>ob_value := JNull,
     ob_raw := JObj [(''from'', JStr ''x@b.example'')]\<rparr>) (Some demo_viewer)"
  by (rule redaction_hides_content [OF demo_hidden, where a = "[(''from'', JStr ''x@b.example''), (''body'', JStr ''secret'')]"])
    (simp add: demo_obs_def, simp add: same_envelope_def, code_simp)


section \<open>Rows read without their payload fail closed\<close>

definition effective_owner :: "obs_row \<Rightarrow> jsval" where
  "effective_owner ob = (if ob_owner ob = JUndef then JStr ''__unknown__'' else ob_owner ob)"

lemma redactObservation_id [simp]: "ob_id (redactObservationForViewer ob v) = ob_id ob"
  by (simp add: redactObservationForViewer_def Let_def)

lemma redactObservation_open:
  "\<not> ob_redacted (redactObservationForViewer ob v) \<Longrightarrow> isPrivateMessageType (ob_property ob) \<Longrightarrow>
   canReadMessage (ob_owner ob) (js_coalesce (ob_raw ob) (ob_raw_data ob)) v"
  by (auto simp: redactObservationForViewer_def Let_def split: if_splits)

lemma full_row_fields [simp]:
  "ob_id (full_row m r) = ob_id r" "ob_property (full_row m r) = ob_property r"
  "ob_raw_data (full_row m r) = ob_raw_data r" "ob_redacted (full_row m r) = ob_redacted r"
  by (auto simp: full_row_def split: option.splits)

text \<open>C2: The pass over rows that were read without their payload keeps every row in its place, and a
  private message comes out unredacted only when the viewer may read it under the owner and payload
  the database returned for it; a message whose owner could not be loaded counts as another
  person's, never as shared.\<close>

theorem redact_rows_fail_closed:
  assumes "\<not> system_viewer v"
  shows "list_all2 (\<lambda>r out. ob_id out = ob_id r \<and>
      (isPrivateMessageType (ob_property r) \<and> \<not> ob_redacted out \<longrightarrow>
        canReadMessage (effective_owner (full_row (extra_rows fetch rows) r))
          (js_coalesce (ob_raw (full_row (extra_rows fetch rows) r)) (ob_raw_data r)) v))
    rows (redactObservationRowsForViewer fetch rows v)"
proof (cases "rows = []")
  case True
  then show ?thesis by (simp add: redactObservationRowsForViewer_def)
next
  case False
  define m where "m = extra_rows fetch rows"
  have "canReadMessage (JStr ''__unknown__'') (js_coalesce (ob_raw (full_row m r)) (ob_raw_data r)) v"
    if "isPrivateMessageType (ob_property r)"
       "\<not> ob_redacted (redactObservationForViewer (full_row m r\<lparr>ob_owner := JStr ''__unknown__''\<rparr>) v)" for r
    using redactObservation_open [OF that(2)] that(1) by simp
  moreover have "canReadMessage (ob_owner (full_row m r)) (js_coalesce (ob_raw (full_row m r)) (ob_raw_data r)) v"
    if "isPrivateMessageType (ob_property r)" "\<not> ob_redacted (redactObservationForViewer (full_row m r) v)" for r
    using redactObservation_open [OF that(2)] that(1) by simp
  ultimately show ?thesis
    using assms False
    by (auto simp: redactObservationRowsForViewer_def m_def [symmetric] Let_def effective_owner_def
        list_all2_map2 list_all2_same)
qed

theorem redact_rows_fail_closed_witness:
  "\<exists>out. redactObservationRowsForViewer (\<lambda>ids. []) [demo_obs] (Some demo_viewer) = [out]
     \<and> ob_id out = ob_id demo_obs \<and> ob_redacted out"
proof -
  have "\<not> system_viewer (Some demo_viewer)" by (simp add: system_viewer_def demo_viewer_def)
  note th = redact_rows_fail_closed [OF this, of "\<lambda>ids. []" "[demo_obs]"]
  have "isPrivateMessageType (ob_property demo_obs)"
    and "\<not> canReadMessage (effective_owner (full_row (extra_rows (\<lambda>ids. []) [demo_obs]) demo_obs))
          (js_coalesce (ob_raw (full_row (extra_rows (\<lambda>ids. []) [demo_obs]) demo_obs)) (ob_raw_data demo_obs)) (Some demo_viewer)"
    by code_simp+
  with th show ?thesis by (auto simp: list_all2_Cons1)
qed

section \<open>The viewer cache answers for the member asked about\<close>

definition cache_key :: "string \<Rightarrow> string \<Rightarrow> string" where
  "cache_key ws u = ws @ ''|'' @ u"

lemma cache_key_inj:
  "CHR ''|'' \<notin> set u \<Longrightarrow> CHR ''|'' \<notin> set u' \<Longrightarrow> cache_key ws u = cache_key ws' u' \<Longrightarrow> u = u'"
proof -
  assume u: "CHR ''|'' \<notin> set u" and u': "CHR ''|'' \<notin> set u'" and eq: "cache_key ws u = cache_key ws' u'"
  have tail: "takeWhile (\<lambda>c. c \<noteq> CHR ''|'') (rev (cache_key w x)) = rev x" if "CHR ''|'' \<notin> set x" for w x
    using that by (auto simp: cache_key_def takeWhile_tail takeWhile_append2)
  have "rev u = rev u'" using tail [OF u, of ws] tail [OF u', of ws'] eq by metis
  then show "u = u'" by simp
qed

definition cache_ok :: "viewer_cache \<Rightarrow> bool" where
  "cache_ok c = (\<forall>k t v. jm_get c k = Some (t, v) \<longrightarrow>
     (\<exists>ws u. k = cache_key ws u \<and> CHR ''|'' \<notin> set u \<and> userId v = Some u))"

text \<open>The viewer cache never answers with another member: from a cache in which every entry was
  written by a load (the empty one included), loading a member's viewer returns that member, and
  the new cache satisfies the same invariant, whether the entry was fresh, stale or absent and even
  when reading the member's addresses failed.\<close>

theorem loadMessageViewer_member:
  assumes ok: "cache_ok cache" and u: "u \<noteq> []" "CHR ''|'' \<notin> set u"
    and res: "loadMessageViewer identities now cache ws (Some u) = (cache', viewer)"
  shows "cache_ok cache' \<and> (\<exists>v. viewer = Some v \<and> userId v = Some u)"
proof -
  define fresh where "fresh = \<lparr>userId = Some u,
      emails = EmailSet (js_uniq (map (\<lambda>y. to_lower (js_trim (str_of (idy_value y))))
        (filter (\<lambda>y. idy_kind y = ''email'' \<and> idy_owner y = Some u \<and> nonempty (idy_value y))
          (case identities of None \<Rightarrow> [] | Some ys \<Rightarrow> ys)))), isAdmin = False\<rparr>"
  have put: "cache_ok (jm_set cache (cache_key ws u) (now, fresh))"
    using ok u(2) by (auto simp: cache_ok_def jm_get_set fresh_def)
  have miss: "cache' = jm_set cache (cache_key ws u) (now, fresh) \<and> viewer = Some fresh
      \<or> (\<exists>t v. jm_get cache (cache_key ws u) = Some (t, v) \<and> cache' = cache \<and> viewer = Some v)"
    using res u(1)
    by (auto simp: loadMessageViewer_def Let_def fresh_def cache_key_def split: option.splits if_splits)
  have hit: "userId v = Some u" if "jm_get cache (cache_key ws u) = Some (t, v)" for t v
  proof -
    from ok that obtain ws' u' where "cache_key ws u = cache_key ws' u'" "CHR ''|'' \<notin> set u'" "userId v = Some u'"
      unfolding cache_ok_def by blast
    with cache_key_inj [OF u(2)] show ?thesis by metis
  qed
  from miss show ?thesis
    using put hit ok by (auto simp: fresh_def)
qed

theorem loadMessageViewer_member_witness:
  "cache_ok (fst (loadMessageViewer None 5 [] ''w'' (Some ''u1'')))"
proof -
  obtain c v where r: "loadMessageViewer None 5 [] ''w'' (Some ''u1'') = (c, v)" by (rule prod.exhaust)
  have "cache_ok []" by (simp add: cache_ok_def)
  from loadMessageViewer_member [OF this _ _ r] r show ?thesis by simp
qed

end
