(* ===== verification/DerivedPrivacy.thy ===== *)
theory DerivedPrivacy
  imports MessagePrivacy
begin

text \<open>
  The second half of \<^verbatim>\<open>packages/core/src/privacy/messagePrivacy.mjs\<close>: what was derived from a
  message. A derived row (a fact, an action item, a reply disposition) is shared; the words it
  quotes follow the messages it points back to. Rows are \<open>jsval\<close> objects, since the code accepts
  several shapes.
\<close>

section \<open>Where a derived row points\<close>

definition hexd :: rx where
  "hexd = RCls False [(CHR ''0'', CHR ''9''), (CHR ''a'', CHR ''f'')]"

definition UUID_RE :: rx where
  "UUID_RE = rseq [RBeg, RRep True 8 (Some 8) hexd, lit ''-'', RRep True 4 (Some 4) hexd, lit ''-'',
     RRep True 4 (Some 4) hexd, lit ''-'', RRep True 4 (Some 4) hexd, lit ''-'',
     RRep True 12 (Some 12) hexd, REnd]"

definition is_uuid :: "string \<Rightarrow> bool" where
  "is_uuid s = rx_test_i UUID_RE s"

definition MESSAGE_SIGNAL_RE :: rx where
  "MESSAGE_SIGNAL_RE = rseq [RBeg, ralt [lit ''email_'', lit ''linkedin_'', lit ''slack_dm'',
     rseq [lit ''conversation_thread'', REnd], rseq [lit ''reply'', REnd],
     rseq [lit ''positive_reply'', REnd], rseq [lit ''email'', REnd], rseq [lit ''linkedin'', REnd]]]"

definition obj_or_empty :: "jsval \<Rightarrow> jsval" where
  "obj_or_empty v = (if js_is_object v then v else JObj [])"

definition row_meta :: "jsval \<Rightarrow> jsval" where
  "row_meta r = (let v = obj_or_empty (js_prop r ''value'') in
     if js_is_object (js_prop r ''metadata'') then js_prop r ''metadata''
     else if js_is_object (js_prop v ''metadata'') then js_prop v ''metadata'' else JObj [])"

text \<open>\<^verbatim>\<open>{ ids, messageHint }\<close>.\<close>

definition derivedSources :: "jsval \<Rightarrow> string list \<times> bool" where
  "derivedSources row =
     (let r = obj_or_empty row; v = obj_or_empty (js_prop r ''value''); meta = row_meta r;
          ids = filter is_uuid (List.map_filter js_str
            (js_elems (js_prop r ''supporting_observation_ids'')
             @ js_elems (js_prop meta ''source_observation_ids'')
             @ [js_prop meta ''source_activity_id'', js_prop v ''source_id'', js_prop r ''source_id'']));
          hint = list_ex (\<lambda>t. case js_str t of None \<Rightarrow> False | Some s \<Rightarrow> rx_test MESSAGE_SIGNAL_RE s)
            [js_prop meta ''signal_type'', js_prop v ''source_type'', js_prop r ''source_type'']
      in (js_uniq ids, hint))"

text \<open>Is this a row whose content may come from a message?\<close>

definition isDerivedProperty :: "string \<Rightarrow> bool" where
  "isDerivedProperty p = (starts_with ''note.'' p \<or> starts_with ''action_item.'' p \<or> p = ''reply_signal'')"

section \<open>Loading the sources\<close>

text \<open>One message: its owner and the payload the rule reads.\<close>

record source_msg =
  sm_property :: string
  sm_owner :: jsval
  sm_raw :: jsval

record source_obs =
  so_id :: string
  so_property :: string
  so_owner :: jsval
  so_mailbox_owner_ids :: jsval
  so_participants :: jsval
  so_from :: jsval
  so_to :: jsval
  so_cc :: jsval

record sources =
  messages :: "(string \<times> source_msg) list"
  found :: "string list"
  failed :: bool

definition no_sources :: sources where
  "no_sources = \<lparr>messages = [], found = [], failed = False\<rparr>"

definition add_source :: "sources \<Rightarrow> source_obs \<Rightarrow> sources" where
  "add_source s d =
     (if isDerivedProperty (so_property d) then s
      else let s1 = s\<lparr>found := so_id d # found s\<rparr> in
        if \<not> isPrivateMessageType (so_property d) then s1
        else s1\<lparr>messages := jm_set (messages s1) (so_id d)
               \<lparr>sm_property = so_property d, sm_owner = so_owner d,
                sm_raw = JObj [(''mailbox_owner_ids'', so_mailbox_owner_ids d),
                  (''participants'', so_participants d), (''from'', so_from d), (''to'', so_to d),
                  (''cc'', so_cc d)]\<rparr>\<rparr>)"

text \<open>\<open>fetch\<close> answers one batch: \<open>Inl\<close> when the read fails, which ends the loop.\<close>

fun load_batches ::
  "(string list \<Rightarrow> unit + source_obs list) \<Rightarrow> string list list \<Rightarrow> sources \<Rightarrow> sources" where
  "load_batches fetch [] s = s"
| "load_batches fetch (b # bs) s = (case fetch b of
     Inl _ \<Rightarrow> s\<lparr>failed := True\<rparr>
   | Inr ds \<Rightarrow> load_batches fetch bs (foldl add_source s ds))"

definition loadDerivedSources ::
  "(string list \<Rightarrow> unit + source_obs list) \<Rightarrow> jsval list \<Rightarrow> sources" where
  "loadDerivedSources fetch rows =
     load_batches fetch (chunks 199 (js_uniq (concat (map (\<lambda>r. fst (derivedSources r)) rows)))) no_sources"

section \<open>May this viewer read the wording?\<close>

fun derived_scan :: "sources \<Rightarrow> viewer option \<Rightarrow> bool \<Rightarrow> bool \<Rightarrow> string list \<Rightarrow> bool" where
  "derived_scan s viewer hint saw [] = (if saw then False else \<not> hint)"
| "derived_scan s viewer hint saw (i # ids) =
     (case jm_get (messages s) i of
        Some m \<Rightarrow> if canReadMessage (sm_owner m) (sm_raw m) viewer then True
                  else derived_scan s viewer hint True ids
      | None \<Rightarrow> if i \<in> set (found s) then True else derived_scan s viewer hint saw ids)"

definition canReadDerived :: "jsval \<Rightarrow> sources \<Rightarrow> viewer option \<Rightarrow> bool" where
  "canReadDerived row s viewer =
     (if system_viewer viewer then True
      else let (ids, messageHint) = derivedSources row in
        if ids = [] then \<not> messageHint
        else if failed s then False
        else derived_scan s viewer messageHint False ids)"

definition QUOTE_FIELDS :: "string list" where
  "QUOTE_FIELDS = [''quote'', ''accepted_quote'', ''evidence_quote'', ''source_quote'', ''excerpt'', ''snippet'']"

definition strip_field :: "jsval \<Rightarrow> string \<Rightarrow> jsval" where
  "strip_field ob k = (if js_nullish (js_prop ob k) then ob else js_set_prop ob k JNull)"

definition stripQuotes :: "jsval \<Rightarrow> jsval" where
  "stripQuotes ob = (case ob of JObj _ \<Rightarrow> foldl strip_field ob QUOTE_FIELDS | _ \<Rightarrow> ob)"

definition redactDerivedText :: "jsval \<Rightarrow> jsval" where
  "redactDerivedText row = (case row of
     JObj _ \<Rightarrow>
       (let out0 = js_set_prop (stripQuotes row) ''quote_private'' (JBool True);
            out1 = (if js_is_object (js_prop row ''metadata'')
                    then js_set_prop out0 ''metadata'' (stripQuotes (js_prop row ''metadata'')) else out0)
        in case js_prop row ''value'' of
             JObj kvs \<Rightarrow>
               (let v = stripQuotes (JObj kvs) in
                js_set_prop out1 ''value''
                  (if js_is_object (js_prop v ''metadata'')
                   then js_set_prop v ''metadata'' (stripQuotes (js_prop v ''metadata'')) else v))
           | _ \<Rightarrow> out1)
   | _ \<Rightarrow> row)"

definition default_judged :: "jsval \<Rightarrow> bool" where
  "default_judged r =
     ((case js_prop r ''property'' of JStr p \<Rightarrow> (if p = [] then True else isDerivedProperty p) | v \<Rightarrow> \<not> js_truthy v)
      \<and> \<not> js_truthy (js_coalesce (js_prop (js_prop r ''metadata'') ''doc_type'')
                        (js_prop (js_prop (js_prop r ''value'') ''metadata'') ''doc_type'')))"

definition filterDerivedForViewer ::
  "(string list \<Rightarrow> unit + source_obs list) \<Rightarrow> (jsval \<Rightarrow> bool) \<Rightarrow> jsval list \<Rightarrow> viewer option \<Rightarrow> jsval list" where
  "filterDerivedForViewer fetch judged rows viewer =
     (if system_viewer viewer \<or> rows = [] then rows
      else let targets = filter judged rows in
        if targets = [] then rows
        else let s = loadDerivedSources fetch targets
             in map (\<lambda>r. if judged r \<and> \<not> canReadDerived r s viewer then redactDerivedText r else r) rows)"

section \<open>Rows that cite claims\<close>

text \<open>\<open>fetch_claims\<close> reads the claims of one batch of ids; \<open>citesOf\<close> is \<^verbatim>\<open>claimIdsOf(r) || []\<close>.\<close>

fun load_claims :: "(string list \<Rightarrow> unit + jsval list) \<Rightarrow> string list list \<Rightarrow> jsval list option" where
  "load_claims f [] = Some []"
| "load_claims f (b # bs) = (case f b of Inl _ \<Rightarrow> None
     | Inr cs \<Rightarrow> map_option (\<lambda>rest. cs @ rest) (load_claims f bs))"

definition cited_ids :: "('r \<Rightarrow> jsval list) \<Rightarrow> 'r \<Rightarrow> string list" where
  "cited_ids citesOf r = filter is_uuid (List.map_filter js_str (citesOf r))"

definition filterByCitedClaimsForViewer ::
  "(string list \<Rightarrow> unit + jsval list) \<Rightarrow> (string list \<Rightarrow> unit + source_obs list) \<Rightarrow> 'r list
     \<Rightarrow> viewer option \<Rightarrow> ('r \<Rightarrow> jsval list) \<Rightarrow> 'r list" where
  "filterByCitedClaimsForViewer fetch_claims fetch rows viewer citesOf =
     (if system_viewer viewer \<or> rows = [] then rows
      else let ids = js_uniq (concat (map (cited_ids citesOf) rows)) in
        if ids = [] then rows
        else case load_claims fetch_claims (chunks 199 ids) of
          None \<Rightarrow> filter (\<lambda>r. citesOf r = []) rows
        | Some claims \<Rightarrow>
            let visible = List.map_filter (\<lambda>c. js_str (js_prop c ''id''))
                            (filterDerivedForViewer fetch default_judged claims viewer);
                known = List.map_filter (\<lambda>c. js_str (js_prop c ''id'')) claims
            in filter (\<lambda>r. let cited = cited_ids citesOf r in
                 cited = [] \<or> list_ex (\<lambda>i. i \<in> set visible \<or> i \<notin> set known) cited) rows)"

section \<open>The audience of a derived row\<close>

text \<open>The key is a constructor here; the code renders it as a string.\<close>

datatype audience = AudTeam | AudUnknown | AudMsg "string list" "string list"

fun audience_scan :: "sources \<Rightarrow> bool \<Rightarrow> string list \<Rightarrow> string list \<Rightarrow> bool \<Rightarrow> string list \<Rightarrow> bool \<Rightarrow> audience" where
  "audience_scan s nonempty_ids hs as saw [] hint =
     (if \<not> saw then (if hint \<and> nonempty_ids then AudUnknown else AudTeam)
      else AudMsg (js_sort (\<le>) hs) (js_sort (\<le>) as))"
| "audience_scan s ne hs as saw (i # ids) hint =
     (case jm_get (messages s) i of
        None \<Rightarrow> if i \<in> set (found s) then AudTeam else audience_scan s ne hs as saw ids hint
      | Some m \<Rightarrow>
          if js_nullish (sm_owner m) then AudTeam
          else audience_scan s ne
                 (js_uniq (hs @ List.map_filter js_str (sm_owner m # js_elems (js_prop (sm_raw m) ''mailbox_owner_ids''))))
                 (js_uniq (as @ messageParticipants (sm_raw m))) True ids hint)"

definition derivedAudienceKey :: "jsval \<Rightarrow> sources \<Rightarrow> audience" where
  "derivedAudienceKey row s =
     (let (ids, messageHint) = derivedSources row in audience_scan s (ids \<noteq> []) [] [] False ids messageHint)"

definition show_audience :: "audience \<Rightarrow> string" where
  "show_audience a = (case a of AudTeam \<Rightarrow> ''team'' | AudUnknown \<Rightarrow> ''unknown''
     | AudMsg hs as \<Rightarrow> ''msg:'' @ js_join '','' hs @ ''|'' @ js_join '','' as)"


section \<open>Hidden wording is gone, everything else stays\<close>

declare js_prop.simps(1) [simp del] js_set_prop.simps(1) [simp del]

lemma strip_field_obj: "\<exists>kvs'. strip_field (JObj kvs) k = JObj kvs'"
  by (simp add: strip_field_def js_set_prop.simps)

lemma strip_field_prop:
  "js_prop (strip_field (JObj kvs) k) k' =
     (if k' = k \<and> \<not> js_nullish (js_prop (JObj kvs) k) then JNull else js_prop (JObj kvs) k')"
  by (auto simp: strip_field_def js_prop_set)

lemma foldl_strip_obj: "\<exists>kvs'. foldl strip_field (JObj kvs) ks = JObj kvs'"
proof (induction ks arbitrary: kvs)
  case Nil
  then show ?case by simp
next
  case (Cons k ks)
  obtain kvs' where "strip_field (JObj kvs) k = JObj kvs'" using strip_field_obj by blast
  with Cons.IH [of kvs'] show ?case by simp
qed

lemma foldl_strip_prop:
  "(k' \<in> set ks \<longrightarrow> js_nullish (js_prop (foldl strip_field (JObj kvs) ks) k'))
   \<and> (k' \<notin> set ks \<longrightarrow> js_prop (foldl strip_field (JObj kvs) ks) k' = js_prop (JObj kvs) k')
   \<and> (js_nullish (js_prop (JObj kvs) k') \<longrightarrow> js_nullish (js_prop (foldl strip_field (JObj kvs) ks) k'))"
proof (induction ks arbitrary: kvs)
  case Nil
  then show ?case by simp
next
  case (Cons k ks)
  obtain kvs' where k: "strip_field (JObj kvs) k = JObj kvs'" using strip_field_obj by blast
  have p: "js_prop (JObj kvs') k' =
      (if k' = k \<and> \<not> js_nullish (js_prop (JObj kvs) k) then JNull else js_prop (JObj kvs) k')"
    using strip_field_prop [of kvs k k'] k by simp
  show ?case
    using Cons.IH [of kvs'] p by (cases "js_nullish (js_prop (JObj kvs) k)") (auto simp: k)
qed

lemma stripQuotes_obj: "\<exists>kvs'. stripQuotes (JObj kvs) = JObj kvs'"
  using foldl_strip_obj by (simp add: stripQuotes_def)

lemma stripQuotes_nullish: "k \<in> set QUOTE_FIELDS \<Longrightarrow> js_nullish (js_prop (stripQuotes v) k)"
proof (cases v)
  case (JObj kvs)
  then show "k \<in> set QUOTE_FIELDS \<Longrightarrow> ?thesis"
    using foldl_strip_prop [of k QUOTE_FIELDS kvs] by (simp add: stripQuotes_def)
qed (simp_all add: stripQuotes_def)

lemma stripQuotes_keeps: "k \<notin> set QUOTE_FIELDS \<Longrightarrow> js_prop (stripQuotes v) k = js_prop v k"
proof (cases v)
  case (JObj kvs)
  then show "k \<notin> set QUOTE_FIELDS \<Longrightarrow> ?thesis"
    using foldl_strip_prop [of k QUOTE_FIELDS kvs] by (simp add: stripQuotes_def)
qed (simp_all add: stripQuotes_def)

text \<open>No quote at any of the four places a derived row can hold one.\<close>

definition quote_free :: "jsval \<Rightarrow> bool" where
  "quote_free v = (\<forall>k \<in> set QUOTE_FIELDS. js_nullish (js_prop v k))"

definition wording_free :: "jsval \<Rightarrow> bool" where
  "wording_free r = (quote_free r \<and> quote_free (js_prop r ''metadata'')
     \<and> quote_free (js_prop r ''value'') \<and> quote_free (js_prop (js_prop r ''value'') ''metadata''))"

lemma quote_free_strip [simp]: "quote_free (stripQuotes v)"
  by (simp add: quote_free_def stripQuotes_nullish)

lemma quote_free_non_obj: "\<not> js_is_object v \<Longrightarrow> quote_free v"
  by (cases v) (auto simp: quote_free_def)

lemma quote_free_arr [simp]: "quote_free (JArr xs)"
  by (simp add: quote_free_def)

lemma js_prop_setp:
  "v = JObj kvs \<Longrightarrow> js_prop (js_set_prop v k x) k' = (if k' = k then x else js_prop v k')"
  by (simp add: js_prop_set)

lemma set_prop_obj: "\<exists>kvs'. js_set_prop (JObj kvs) k x = JObj kvs'"
  by (simp add: js_set_prop.simps)

lemma QUOTE_FIELDS_not: "''quote_private'' \<notin> set QUOTE_FIELDS" "''metadata'' \<notin> set QUOTE_FIELDS"
    "''value'' \<notin> set QUOTE_FIELDS"
  by (simp_all add: QUOTE_FIELDS_def)

text \<open>Each field of a redacted derived row, as the code assembles it.\<close>

lemma redactDerived_prop:
  "js_prop (redactDerivedText (JObj row)) k =
    (if k = ''value'' then
       (case js_prop (JObj row) ''value'' of
          JObj kvs \<Rightarrow> (let v = stripQuotes (JObj kvs) in
            if js_is_object (js_prop v ''metadata'') then js_set_prop v ''metadata'' (stripQuotes (js_prop v ''metadata''))
            else v)
        | x \<Rightarrow> x)
     else if k = ''metadata'' then
       (if js_is_object (js_prop (JObj row) ''metadata'') then stripQuotes (js_prop (JObj row) ''metadata'')
        else js_prop (JObj row) ''metadata'')
     else if k = ''quote_private'' then JBool True
     else js_prop (stripQuotes (JObj row)) k)"
proof -
  obtain s where s: "stripQuotes (JObj row) = JObj s" using stripQuotes_obj by blast
  obtain o0 where o0: "js_set_prop (JObj s) ''quote_private'' (JBool True) = JObj o0" using set_prop_obj by blast
  have p0: "js_prop (JObj o0) k' = (if k' = ''quote_private'' then JBool True else js_prop (JObj s) k')" for k'
    unfolding o0 [symmetric] by (rule js_prop_set)
  define o1 where "o1 = (if js_is_object (js_prop (JObj row) ''metadata'')
      then js_set_prop (JObj o0) ''metadata'' (stripQuotes (js_prop (JObj row) ''metadata'')) else JObj o0)"
  have p1: "js_prop o1 k' = (if k' = ''metadata'' \<and> js_is_object (js_prop (JObj row) ''metadata'')
      then stripQuotes (js_prop (JObj row) ''metadata'') else js_prop (JObj o0) k')" for k'
    by (simp add: o1_def js_prop_set)
  obtain o1' where o1': "o1 = JObj o1'" unfolding o1_def
    by (cases "js_is_object (js_prop (JObj row) ''metadata'')") (simp_all add: js_set_prop.simps)
  have sm: "js_prop (JObj s) ''metadata'' = js_prop (JObj row) ''metadata''"
      and sv: "js_prop (JObj s) ''value'' = js_prop (JObj row) ''value''"
    using stripQuotes_keeps [OF QUOTE_FIELDS_not(2), of "JObj row"] stripQuotes_keeps [OF QUOTE_FIELDS_not(3), of "JObj row"]
    by (simp_all add: s)
  have def': "redactDerivedText (JObj row) = (case js_prop (JObj row) ''value'' of
             JObj kvs \<Rightarrow>
               (let v = stripQuotes (JObj kvs) in
                js_set_prop o1 ''value''
                  (if js_is_object (js_prop v ''metadata'')
                   then js_set_prop v ''metadata'' (stripQuotes (js_prop v ''metadata'')) else v))
           | _ \<Rightarrow> o1)"
    by (simp only: redactDerivedText_def s o0 o1_def Let_def jsval.case)
  show ?thesis
    unfolding def' s
    by (cases "js_prop (JObj row) ''value''")
      (simp_all only: jsval.case Let_def o1' js_prop_set, simp_all add: o1' [symmetric] p1 p0 sm sv s)
qed

lemma redactDerived_wording_free: "wording_free (redactDerivedText (JObj row))"
proof -
  let ?r = "redactDerivedText (JObj row)"
  have "quote_free ?r"
    unfolding quote_free_def redactDerived_prop
    using QUOTE_FIELDS_not stripQuotes_nullish by auto
  moreover have "quote_free (js_prop ?r ''metadata'')"
    by (simp add: redactDerived_prop quote_free_non_obj)
  moreover have "quote_free (js_prop ?r ''value'') \<and> quote_free (js_prop (js_prop ?r ''value'') ''metadata'')"
  proof (cases "js_prop (JObj row) ''value''")
    case (JObj kvs)
    obtain v where v: "stripQuotes (JObj kvs) = JObj v" using stripQuotes_obj by blast
    have qv: "quote_free (JObj v)" using quote_free_strip [of "JObj kvs"] by (simp add: v)
    show ?thesis
    proof (cases "js_is_object (js_prop (JObj v) ''metadata'')")
      case True
      have val: "js_prop ?r ''value'' = js_set_prop (JObj v) ''metadata'' (stripQuotes (js_prop (JObj v) ''metadata''))"
        using True JObj by (simp add: redactDerived_prop v Let_def)
      show ?thesis
        unfolding val using qv QUOTE_FIELDS_not
        by (simp add: quote_free_def js_prop_set stripQuotes_nullish)
    next
      case False
      have val: "js_prop ?r ''value'' = JObj v"
        using False JObj by (simp add: redactDerived_prop v Let_def)
      show ?thesis unfolding val using qv False by (simp add: quote_free_non_obj)
    qed
  qed (auto simp: redactDerived_prop quote_free_def)
  ultimately show ?thesis by (simp add: wording_free_def)
qed


lemma redactDerived_keeps:
  "k \<notin> set QUOTE_FIELDS \<Longrightarrow> k \<notin> {''quote_private'', ''metadata'', ''value''} \<Longrightarrow>
   js_prop (redactDerivedText (JObj row)) k = js_prop (JObj row) k"
  by (simp add: redactDerived_prop stripQuotes_keeps)

text \<open>The pass over derived rows redacts as \<open>row_redactor\<close> says, for the rows that are objects.\<close>

definition derived_hidden :: "(jsval \<Rightarrow> bool) \<Rightarrow> sources \<Rightarrow> viewer option \<Rightarrow> jsval \<Rightarrow> bool" where
  "derived_hidden judged s v r = (judged r \<and> \<not> canReadDerived r s v \<and> (\<exists>kvs. r = JObj kvs))"

lemma redactDerived_non_obj: "(\<nexists>kvs. r = JObj kvs) \<Longrightarrow> redactDerivedText r = r"
  by (cases r) (auto simp: redactDerivedText_def)

lemma QUOTE_not_id: "''id'' \<notin> set QUOTE_FIELDS"
  by (simp add: QUOTE_FIELDS_def)

interpretation derived_pass: row_redactor "derived_hidden judged s v" redactDerivedText "\<lambda>r. js_prop r ''id''"
    "\<lambda>r. derived_hidden judged s v r \<longrightarrow> wording_free r" for judged s v
proof (unfold_locales, goal_cases)
  case (1 r)
  then show ?case
    by (cases "\<exists>kvs. r = JObj kvs") (auto simp: redactDerived_keeps QUOTE_not_id redactDerived_non_obj)
next
  case (2 r)
  then obtain kvs where "r = JObj kvs" by (auto simp: derived_hidden_def)
  then show ?case by (simp add: redactDerived_wording_free)
next
  case (3 r)
  then show ?case by simp
qed



section \<open>A failed lookup hides the wording\<close>

lemma load_batches_failed:
  "b \<in> set bs \<Longrightarrow> fetch b = Inl u \<Longrightarrow> failed (load_batches fetch bs s)"
  by (induction fetch bs s rule: load_batches.induct) (auto split: sum.splits)

text \<open>When reading any batch of sources fails, no member may read the wording of any row that points
  at a source: the failure is never taken for the absence of private sources.\<close>

theorem derived_lookup_fails_closed:
  assumes v: "\<not> system_viewer v"
    and batch: "b \<in> set (chunks 199 (js_uniq (concat (map (\<lambda>r. fst (derivedSources r)) rows))))"
    and fail: "fetch b = Inl u" and ids: "fst (derivedSources row) \<noteq> []"
  shows "\<not> canReadDerived row (loadDerivedSources fetch rows) v"
  using v ids load_batches_failed [of b _ fetch u no_sources, OF batch fail]
  by (cases "derivedSources row") (simp add: canReadDerived_def loadDerivedSources_def)

definition demo_row :: jsval where
  "demo_row = JObj [(''property'', JStr ''note.1''),
     (''supporting_observation_ids'', JArr [JStr ''0a1b2c3d-0000-4000-8000-00000000000a'']),
     (''quote'', JStr ''secret'')]"

lemma demo_row_sources: "derivedSources demo_row = ([''0a1b2c3d-0000-4000-8000-00000000000a''], False)"
  by code_simp

theorem derived_lookup_fails_closed_witness:
  "\<not> canReadDerived demo_row (loadDerivedSources (\<lambda>ids. Inl ()) [demo_row]) (Some demo_viewer)"
  by (rule derived_lookup_fails_closed [where b = "[''0a1b2c3d-0000-4000-8000-00000000000a'']"])
    (simp_all add: demo_row_sources system_viewer_def demo_viewer_def js_uniq_def chunks.simps)


section \<open>The audience key\<close>

text \<open>Owners are user ids or null (a nullable text column).\<close>

definition owners_typed :: "sources \<Rightarrow> bool" where
  "owners_typed s = list_all (\<lambda>(i, m). js_nullish (sm_owner m) \<or> js_str (sm_owner m) \<noteq> None) (messages s)"

lemma owners_typed_get:
  "owners_typed s \<Longrightarrow> jm_get (messages s) i = Some m \<Longrightarrow> \<not> js_nullish (sm_owner m) \<Longrightarrow>
   \<exists>x. sm_owner m = JStr x"
  by (cases "sm_owner m") (auto simp: owners_typed_def list_all_iff jm_get_def dest!: map_of_SomeD)















text \<open>A row that only hints at a message, with no pointer, is keyed 'team' although nobody may read its
  wording: merging treats as shared what reading treats as private.\<close>

lemma hint_only_row_is_keyed_team:
  "derivedAudienceKey (JObj [(''source_type'', JStr ''email'')]) no_sources = AudTeam
   \<and> \<not> canReadDerived (JObj [(''source_type'', JStr ''email'')]) no_sources (Some demo_viewer)"
  by code_simp

end
