(* ===== verification/JsNumber.thy ===== *)
theory JsNumber
  imports JsDate
begin

text \<open>
  The conversions between JavaScript values, numbers and text: \<^verbatim>\<open>Number(v)\<close>,
  \<^verbatim>\<open>String(v)\<close>, \<^verbatim>\<open>Number.isFinite\<close>. A number is an exact rational; \<open>None\<close> is
  \<^verbatim>\<open>NaN\<close> or an infinity, which the code always tests for together.
\<close>

section \<open>Number(v)\<close>

text \<open>An unsigned decimal literal: digits, a fraction, an exponent.\<close>

definition exp10 :: "int \<Rightarrow> rat" where
  "exp10 k = (if 0 \<le> k then of_int (10 ^ nat k) else 1 / of_int (10 ^ nat (- k)))"

definition exp_part :: "string \<Rightarrow> int option" where
  "exp_part s = (case s of [] \<Rightarrow> Some 0
     | c # r \<Rightarrow>
        if c = CHR ''e'' \<or> c = CHR ''E'' then
          (case r of [] \<Rightarrow> None
           | d # ds \<Rightarrow>
              let neg = (d = CHR ''-'');
                  body = (if d = CHR ''-'' \<or> d = CHR ''+'' then ds else r)
              in if body \<noteq> [] \<and> list_all is_digit body
                 then Some (if neg then - digits_val 0 body else digits_val 0 body)
                 else None)
        else None)"

definition dec_number :: "string \<Rightarrow> rat option" where
  "dec_number t =
     (let ip = takeWhile is_digit t;
          r = dropWhile is_digit t;
          dot = (case r of c # _ \<Rightarrow> c = CHR ''.'' | [] \<Rightarrow> False);
          fp = (if dot then takeWhile is_digit (tl r) else []);
          r2 = (if dot then dropWhile is_digit (tl r) else r)
      in if ip = [] \<and> fp = [] then None
         else map_option (\<lambda>k. of_int (digits_val 0 (ip @ fp)) * exp10 (k - int (length fp))) (exp_part r2))"

definition radix_digit :: "char \<Rightarrow> int" where
  "radix_digit c = (let n = of_char (lower_char c) :: int in
     if 48 \<le> n \<and> n \<le> 57 then n - 48 else if 97 \<le> n \<and> n \<le> 102 then n - 87 else 99)"

definition radix_number :: "int \<Rightarrow> string \<Rightarrow> rat option" where
  "radix_number b ds = (if ds \<noteq> [] \<and> list_all (\<lambda>c. radix_digit c < b) ds
     then Some (of_int (foldl (\<lambda>acc c. acc * b + radix_digit c) 0 ds)) else None)"

text \<open>\<^verbatim>\<open>Number(s)\<close> of a string: the empty string is 0, anything else unreadable is NaN.\<close>

definition str_number :: "string \<Rightarrow> rat option" where
  "str_number s = (let t = js_trim s in
     if t = [] then Some 0
     else if hd t = CHR ''-'' then map_option uminus (dec_number (tl t))
     else if hd t = CHR ''+'' then dec_number (tl t)
     else if starts_with ''0x'' (to_lower t) then radix_number 16 (drop 2 t)
     else if starts_with ''0o'' (to_lower t) then radix_number 8 (drop 2 t)
     else if starts_with ''0b'' (to_lower t) then radix_number 2 (drop 2 t)
     else dec_number t)"

text \<open>\<^verbatim>\<open>Number(v)\<close>: an array of one element converts as the text of that element does.\<close>

fun js_number :: "jsval \<Rightarrow> rat option" where
  "js_number JUndef = None"
| "js_number JNull = Some 0"
| "js_number (JBool b) = Some (if b then 1 else 0)"
| "js_number (JNum n) = Some n"
| "js_number (JStr s) = str_number s"
| "js_number (JArr []) = Some 0"
| "js_number (JArr [JNull]) = Some 0"
| "js_number (JArr [JUndef]) = Some 0"
| "js_number (JArr [JBool b]) = None"
| "js_number (JArr [v]) = js_number v"
| "js_number (JArr (v # w # vs)) = None"
| "js_number (JObj kvs) = None"

text \<open>\<^verbatim>\<open>Number.isFinite(v)\<close>, which does not convert: only a number is finite.\<close>

fun js_finite :: "jsval \<Rightarrow> rat option" where
  "js_finite (JNum n) = Some n"
| "js_finite _ = None"

section \<open>String(v)\<close>

fun frac_digits :: "nat \<Rightarrow> rat \<Rightarrow> string" where
  "frac_digits 0 r = []"
| "frac_digits (Suc f) r = (if r = 0 then []
     else (let d = \<lfloor>10 * r\<rfloor> in char_of (48 + nat d) # frac_digits f (10 * r - of_int d)))"

text \<open>The text of a number: an integer, or a decimal fraction of at most seventeen digits.\<close>

definition show_rat :: "rat \<Rightarrow> string" where
  "show_rat r = (let a = \<bar>r\<bar>; i = \<lfloor>a\<rfloor> in
     (if r < 0 then ''-'' else '''') @ show_nat (nat i)
     @ (if a = of_int i then '''' else ''.'' @ frac_digits 17 (a - of_int i)))"

function js_tostring :: "jsval \<Rightarrow> string" where
  "js_tostring JUndef = ''undefined''"
| "js_tostring JNull = ''null''"
| "js_tostring (JBool b) = (if b then ''true'' else ''false'')"
| "js_tostring (JNum n) = show_rat n"
| "js_tostring (JStr s) = s"
| "js_tostring (JArr vs) = js_join '','' (map (\<lambda>v. if js_nullish v then '''' else js_tostring v) vs)"
| "js_tostring (JObj kvs) = ''[object Object]''"
  by pat_completeness auto
termination
  by (relation "measure size") (auto simp: less_Suc_eq_le dest!: size_list_estimation' [OF _ order_refl, of _ _ size])

section \<open>Small facts\<close>

lemma str_number_examples:
  "str_number ''42'' = Some 42" "str_number '' 1.5e1 '' = Some 15" "str_number ''-.5'' = Some (-1/2)"
  "str_number ''0x1F'' = Some 31" "str_number '''' = Some 0" "str_number ''7d'' = None" "str_number ''.'' = None"
  by code_simp+

lemma show_rat_examples: "show_rat 3 = ''3''" "show_rat (-5/2) = ''-2.5''"
  by code_simp+

end
