(* ===== verification/ApiKeys.thy ===== *)
theory ApiKeys
  imports JsNumber MessagePrivacy
begin

text \<open>
  What a key may do and who sees a play: \<^verbatim>\<open>apps/api/src/lib/apiKeyScope.mjs\<close> (minting,
  expiry and revocation of API keys) and \<^verbatim>\<open>apps/api/src/lib/routineVisibility.mjs\<close>
  (personal and shared RevPlays). Minting returns an error value where the code throws. The
  two tables that revocation updates are lists of rows, and each of its writes may fail.
\<close>

section \<open>Minting (apiKeyScope.mjs)\<close>

record key_grant =
  kg_owner_user_id :: "string option"
  kg_scope :: viewer_scope

datatype mint_error = NoResolvedUser

definition is_admin_role :: "string option \<Rightarrow> bool" where
  "is_admin_role r = (r = Some ''owner'' \<or> r = Some ''admin'')"

definition apiKeyScopeFor :: "request \<Rightarrow> bool \<Rightarrow> mint_error + key_grant" where
  "apiKeyScopeFor rq workspaceKey =
     (let isAdm = is_admin_role (rq_workspaceRole rq) in
      if workspaceKey \<and> isAdm then Inr \<lparr>kg_owner_user_id = None, kg_scope = ScopeAdmin\<rparr>
      else
        (let ownerUserId = opt_or (rq_internalUserId rq) (rq_memberUserId rq) in
         if \<not> nonempty ownerUserId then Inl NoResolvedUser
         else Inr \<lparr>kg_owner_user_id = ownerUserId,
                   kg_scope = (if isAdm then ScopeAdmin else ScopeMember)\<rparr>))"

definition DEFAULT_KEY_DAYS :: rat where "DEFAULT_KEY_DAYS = 90"
definition MAX_KEY_DAYS :: rat where "MAX_KEY_DAYS = 365"

text \<open>The expiry instant; a date drops the fraction of a millisecond.\<close>

definition key_days :: "jsval \<Rightarrow> rat" where
  "key_days v = (case js_number v of
       Some asked \<Rightarrow> if \<not> js_nullish v \<and> 0 < asked then min asked MAX_KEY_DAYS else DEFAULT_KEY_DAYS
     | None \<Rightarrow> DEFAULT_KEY_DAYS)"

definition keyExpiry :: "jsval \<Rightarrow> bool \<Rightarrow> int \<Rightarrow> int option" where
  "keyExpiry body isAdm now =
     (let v = js_prop body ''expires_in_days'' in
      if v = JNum 0 \<and> isAdm then None
      else Some \<lfloor>of_int now + key_days v * of_int day_ms\<rfloor>)"

datatype capability = ReadOnly | ReadWrite

definition grantCapability :: "jsval \<Rightarrow> capability" where
  "grantCapability body = (if js_prop body ''capability'' = JStr ''read_only'' then ReadOnly else ReadWrite)"

section \<open>Revocation\<close>

record api_key =
  ak_id :: string
  ak_owner :: "string option"
  ak_workspace :: string
  ak_revoked_at :: "int option"

record oauth_token =
  ot_api_key_id :: string
  ot_revoked_at :: "int option"

record key_store =
  api_keys :: "api_key list"
  oauth_tokens :: "oauth_token list"

definition revoke_match :: "string \<Rightarrow> string list option \<Rightarrow> api_key \<Rightarrow> bool" where
  "revoke_match u wss k = (ak_owner k = Some u \<and> ak_revoked_at k = None
     \<and> (case wss of None \<Rightarrow> True | Some ws \<Rightarrow> ak_workspace k \<in> set ws))"

text \<open>\<open>keys_fail\<close> and \<open>toks_fail\<close> say which of the two updates the database refuses.\<close>

definition revokeMemberKeys ::
  "bool \<Rightarrow> bool \<Rightarrow> int \<Rightarrow> string option \<Rightarrow> string list option \<Rightarrow> key_store \<Rightarrow> string list \<times> key_store" where
  "revokeMemberKeys keys_fail toks_fail now uid workspaceIds db =
     (if \<not> nonempty uid then ([], db)
      else if workspaceIds = Some [] then ([], db)
      else if keys_fail then ([], db)
      else
        (let u = str_of uid;
             ids = map ak_id (filter (revoke_match u workspaceIds) (api_keys db));
             db1 = db\<lparr>api_keys := map (\<lambda>k. if revoke_match u workspaceIds k
                       then k\<lparr>ak_revoked_at := Some now\<rparr> else k) (api_keys db)\<rparr>
         in if ids = [] then (ids, db1)
            else if toks_fail then ([], db1)
            else (ids, db1\<lparr>oauth_tokens := map (\<lambda>t. if ot_api_key_id t \<in> set ids \<and> ot_revoked_at t = None
                       then t\<lparr>ot_revoked_at := Some now\<rparr> else t) (oauth_tokens db1)\<rparr>)))"

section \<open>Personal and shared plays (routineVisibility.mjs)\<close>

definition PERSONAL :: string where "PERSONAL = ''personal''"
definition SHARED :: string where "SHARED = ''shared''"

record play_row =
  pl_visibility :: "string option"
  pl_user_id :: "string option"

record play_viewer =
  pv_userId :: "string option"
  pv_admin :: bool

definition isPersonal :: "play_row \<Rightarrow> bool" where
  "isPersonal row = (pl_visibility row = Some PERSONAL)"

definition viewerOf :: "request \<Rightarrow> play_viewer" where
  "viewerOf rq =
     \<lparr>pv_userId = (if rq_noContent rq then None else opt_or (rq_memberUserId rq) (rq_internalUserId rq)),
      pv_admin = (rq_viewerScope rq = Some ''admin'')\<rparr>"

definition owns_row :: "play_row \<Rightarrow> play_viewer \<Rightarrow> bool" where
  "owns_row row v = (nonempty (pv_userId v) \<and> pl_user_id row = pv_userId v)"

definition canSeeRoutine :: "play_row \<Rightarrow> play_viewer \<Rightarrow> bool" where
  "canSeeRoutine row v = (\<not> isPersonal row \<or> owns_row row v)"

definition canEditRoutine :: "play_row \<Rightarrow> play_viewer \<Rightarrow> bool" where
  "canEditRoutine row v = (if isPersonal row then canSeeRoutine row v else pv_admin v)"

datatype refusal = AdminRequired | PlayReadOnly | InvalidVisibility | MemberRequired

fun refusal_status :: "refusal \<Rightarrow> nat" where
  "refusal_status AdminRequired = 403"
| "refusal_status PlayReadOnly = 403"
| "refusal_status InvalidVisibility = 400"
| "refusal_status MemberRequired = 400"

definition createVisibility :: "jsval \<Rightarrow> play_viewer \<Rightarrow> refusal + string" where
  "createVisibility requested v =
     (if requested \<noteq> JUndef \<and> requested \<noteq> JStr PERSONAL \<and> requested \<noteq> JStr SHARED then Inl InvalidVisibility
      else if requested = JStr SHARED \<and> \<not> pv_admin v then Inl AdminRequired
      else if requested = JStr PERSONAL \<and> \<not> nonempty (pv_userId v) then Inl MemberRequired
      else Inr (case js_str requested of Some s \<Rightarrow> s
                | None \<Rightarrow> if nonempty (pv_userId v) then PERSONAL else SHARED))"

definition visibilityChange :: "play_row \<Rightarrow> jsval \<Rightarrow> play_viewer \<Rightarrow> refusal option" where
  "visibilityChange row requested v =
     (if requested \<noteq> JStr PERSONAL \<and> requested \<noteq> JStr SHARED then Some InvalidVisibility
      else if \<not> pv_admin v then Some AdminRequired
      else if requested = JStr PERSONAL \<and> pl_user_id row \<noteq> pv_userId v then Some PlayReadOnly
      else None)"

record visibility_fields =
  vf_visibility :: string
  vf_yours :: bool
  vf_can_edit :: bool
  vf_can_share :: bool

definition visibilityFields :: "play_row \<Rightarrow> play_viewer \<Rightarrow> visibility_fields" where
  "visibilityFields row v =
     \<lparr>vf_visibility = (case pl_visibility row of None \<Rightarrow> SHARED | Some s \<Rightarrow> s),
      vf_yours = owns_row row v,
      vf_can_edit = canEditRoutine row v,
      vf_can_share = (pv_admin v \<and> isPersonal row \<and> pl_user_id row = pv_userId v)\<rparr>"

section \<open>One request on a play (routes/api/automations.mjs, routes/v2/workflows.mjs)\<close>

text \<open>A request that changes a play: the id guard answers 404 for a row the viewer may not see, the
  edit guard 403 for a shared row below admin, then the change of visibility is checked.\<close>

datatype play_error = PlayNotFound | PlayRefused refusal

definition patch_play :: "play_viewer \<Rightarrow> jsval \<Rightarrow> play_row \<Rightarrow> play_error + play_row" where
  "patch_play v requested row =
     (if \<not> canSeeRoutine row v then Inl PlayNotFound
      else if \<not> canEditRoutine row v then Inl (PlayRefused PlayReadOnly)
      else if requested = JUndef then Inr row
      else (case visibilityChange row requested v of
              Some r \<Rightarrow> Inl (PlayRefused r)
            | None \<Rightarrow> Inr (row\<lparr>pl_visibility := js_str requested\<rparr>)))"

inductive play_steps :: "string \<Rightarrow> play_row \<Rightarrow> play_row \<Rightarrow> bool" for owner :: string where
  steps_none: "play_steps owner row row"
| steps_more: "play_steps owner row mid \<Longrightarrow> pv_userId v \<noteq> Some owner \<Longrightarrow>
     patch_play v requested mid = Inr row' \<Longrightarrow> play_steps owner row row'"

text \<open>\<open>play_steps owner row row'\<close>: \<open>row\<close> becomes \<open>row'\<close> by requests of people other than \<open>owner\<close>.\<close>

section \<open>Whose runs are seen (lib/routineAccess.mjs)\<close>

text \<open>Access per routine: absent means an ordinary play, \<open>Some None\<close> is the surface's "not
  theirs", \<open>NotYours\<close> someone else's personal play.\<close>

datatype play_access = Role string | NoRole | NotYours

fun access_truthy :: "play_access \<Rightarrow> bool" where
  "access_truthy (Role r) = (r \<noteq> [])"
| "access_truthy NoRole = False"
| "access_truthy NotYours = False"

definition routineAccess ::
  "(string \<times> play_access) list \<Rightarrow> string option \<Rightarrow> (string \<times> string option) list \<Rightarrow> (string \<times> play_access) list" where
  "routineAccess surface uid personal =
     fold (\<lambda>(i, owner) acc. if \<not> nonempty uid \<or> owner \<noteq> uid then jm_set acc i NotYours else acc) personal surface"

definition canSeeRoutineRuns :: "(string \<times> play_access) list \<Rightarrow> string \<Rightarrow> bool" where
  "canSeeRoutineRuns access i = (case jm_get access i of None \<Rightarrow> True | Some a \<Rightarrow> access_truthy a)"

definition hiddenRoutines :: "(string \<times> play_access) list \<Rightarrow> string list" where
  "hiddenRoutines access = map fst (filter (\<lambda>(i, a). \<not> access_truthy a) access)"

record usage_row =
  us_routine_id :: "string option"
  us_name :: string
  us_runs :: "int option"
  us_credits :: rat

definition their_rows :: "(string \<times> play_access) list \<Rightarrow> usage_row \<Rightarrow> bool" where
  "their_rows access r = (case us_routine_id r of None \<Rightarrow> False
     | Some i \<Rightarrow> i \<in> set (map fst (filter (\<lambda>(i, a). a = NotYours) access)))"

definition foldHiddenRoutines ::
  "(usage_row list \<Rightarrow> (string \<times> play_access) list \<Rightarrow> usage_row list) \<Rightarrow> usage_row list
    \<Rightarrow> (string \<times> play_access) list \<Rightarrow> usage_row list" where
  "foldHiddenRoutines surface_fold rows access =
     (let folded = filter (their_rows access) rows;
          shown = filter (\<lambda>r. \<not> their_rows access r) rows;
          out = surface_fold shown (filter (\<lambda>(i, a). a \<noteq> NotYours) access)
      in if folded = [] then out
         else js_sort (desc_by us_credits)
           (out @ [\<lparr>us_routine_id = None, us_name = ''Teammates' personal RevPlays'', us_runs = None,
                    us_credits = sum_list (map us_credits folded)\<rparr>]))"

section \<open>What minting promises\<close>

inductive_cases play_steps_cases: "play_steps owner row row'"

text \<open>Minting never escalates: an admin-scoped key goes only to an owner or admin, a key without
  an owner only to one of them who asked for a workspace key, every other key belongs to the caller,
  and minting fails exactly when no person can be resolved.\<close>

theorem mint_never_escalates:
  "case apiKeyScopeFor rq ws of
     Inr g \<Rightarrow> (kg_scope g = ScopeAdmin \<longleftrightarrow> is_admin_role (rq_workspaceRole rq))
       \<and> (kg_owner_user_id g = None \<longleftrightarrow> ws \<and> is_admin_role (rq_workspaceRole rq))
       \<and> (kg_owner_user_id g \<noteq> None \<longrightarrow>
            kg_owner_user_id g = opt_or (rq_internalUserId rq) (rq_memberUserId rq) \<and> nonempty (kg_owner_user_id g))
   | Inl _ \<Rightarrow> \<not> nonempty (opt_or (rq_internalUserId rq) (rq_memberUserId rq))
       \<and> \<not> (ws \<and> is_admin_role (rq_workspaceRole rq))"
  by (cases "opt_or (rq_internalUserId rq) (rq_memberUserId rq)") (auto simp: apiKeyScopeFor_def Let_def)

definition demo_request :: request where
  "demo_request = \<lparr>rq_workspaceId = Some ''ws'', rq_memberUserId = Some ''u1'', rq_internalUserId = None,
     rq_noContent = False, rq_viewerScope = Some ''member'', rq_openVisibility = None, rq_workspaceRole = Some ''member''\<rparr>"

theorem mint_never_escalates_witness:
  "apiKeyScopeFor demo_request True = Inr \<lparr>kg_owner_user_id = Some ''u1'', kg_scope = ScopeMember\<rparr>
   \<and> \<not> is_admin_role (rq_workspaceRole demo_request)"
proof -
  have g: "apiKeyScopeFor demo_request True = Inr \<lparr>kg_owner_user_id = Some ''u1'', kg_scope = ScopeMember\<rparr>"
    by (simp add: demo_request_def apiKeyScopeFor_def is_admin_role_def)
  then show ?thesis using mint_never_escalates [of demo_request True] by simp
qed

lemma key_days_pos: "0 < key_days v \<and> key_days v \<le> MAX_KEY_DAYS"
  by (auto simp: key_days_def DEFAULT_KEY_DAYS_def MAX_KEY_DAYS_def split: option.splits)

text \<open>A key made by someone who is not an admin always expires, within 365 days and not before
  now, whatever the request body asks for; only an admin asking for exactly 0 gets a key with no expiry.\<close>

theorem member_key_expires:
  "(keyExpiry body adm now = None \<longleftrightarrow> adm \<and> js_prop body ''expires_in_days'' = JNum 0)
   \<and> (\<forall>t. keyExpiry body adm now = Some t \<longrightarrow> now \<le> t \<and> t \<le> now + 365 * day_ms)"
proof -
  have days: "of_int now \<le> of_int now + key_days v * of_int day_ms"
    "of_int now + key_days v * of_int day_ms \<le> of_int (now + 365 * day_ms)" for v
    using key_days_pos [of v] by (simp_all add: MAX_KEY_DAYS_def)
  have "now \<le> \<lfloor>of_int now + key_days v * of_int day_ms\<rfloor>"
    "\<lfloor>of_int now + key_days v * of_int day_ms\<rfloor> \<le> now + 365 * day_ms" for v
    using days [of v] by (simp_all add: le_floor_iff floor_le_iff)
  then show ?thesis by (auto simp: keyExpiry_def Let_def)
qed

theorem member_key_expires_witness:
  "keyExpiry (JObj [(''expires_in_days'', JNum 0)]) False 1000 = Some (1000 + 90 * day_ms)
   \<and> (1000 + 90 * day_ms) \<le> 1000 + 365 * day_ms"
proof -
  have k: "keyExpiry (JObj [(''expires_in_days'', JNum 0)]) False 1000 = Some (1000 + 90 * day_ms)"
    by (simp add: keyExpiry_def key_days_def DEFAULT_KEY_DAYS_def)
  then show ?thesis using member_key_expires [of "JObj [(''expires_in_days'', JNum 0)]" False 1000] by blast
qed

section \<open>Revocation is complete and touches nobody else\<close>

definition in_workspaces :: "string list option \<Rightarrow> string \<Rightarrow> bool" where
  "in_workspaces wss w = (case wss of None \<Rightarrow> True | Some ws \<Rightarrow> w \<in> set ws)"

lemma revoke_match_iff: "revoke_match u wss k \<longleftrightarrow>
    ak_owner k = Some u \<and> ak_revoked_at k = None \<and> in_workspaces wss (ak_workspace k)"
  by (simp add: revoke_match_def in_workspaces_def)

lemma revoked_keys:
  assumes "u \<noteq> []" and "wss \<noteq> Some []"
  shows "api_keys (snd (revokeMemberKeys False toks_fail now (Some u) wss db)) =
    map (\<lambda>k. if revoke_match u wss k then k\<lparr>ak_revoked_at := Some now\<rparr> else k) (api_keys db)"
  using assms by (auto simp: revokeMemberKeys_def Let_def split: if_splits)

lemma no_live_key_left:
  assumes "u \<noteq> []" and "wss \<noteq> Some []"
  shows "\<not> (\<exists>k \<in> set (api_keys (snd (revokeMemberKeys False toks_fail now (Some u) wss db))). revoke_match u wss k)"
  by (auto simp: revoked_keys [OF assms] revoke_match_iff)

text \<open>When both writes succeed, the member is left with no live key in the workspaces they lost, no
  OAuth token minted on a key just revoked stays live, and every key of another person or workspace is
  unchanged.\<close>

theorem revocation_complete:
  assumes u: "u \<noteq> []" and wss: "wss \<noteq> Some []"
    and run: "revokeMemberKeys False False now (Some u) wss db = (ids, db')"
  shows "\<not> (\<exists>k \<in> set (api_keys db'). revoke_match u wss k)
    \<and> \<not> (\<exists>t \<in> set (oauth_tokens db'). ot_api_key_id t \<in> set ids \<and> ot_revoked_at t = None)
    \<and> list_all2 (\<lambda>k k'. ak_owner k \<noteq> Some u \<or> \<not> in_workspaces wss (ak_workspace k) \<longrightarrow> k' = k)
           (api_keys db) (api_keys db')"
proof (intro conjI)
  have keys: "api_keys db' = map (\<lambda>k. if revoke_match u wss k then k\<lparr>ak_revoked_at := Some now\<rparr> else k) (api_keys db)"
    using revoked_keys [OF u wss, of False now db] by (simp add: run)
  show "\<not> (\<exists>k \<in> set (api_keys db'). revoke_match u wss k)"
    using no_live_key_left [OF u wss, of False now db] by (simp add: run)
  show "\<not> (\<exists>t \<in> set (oauth_tokens db'). ot_api_key_id t \<in> set ids \<and> ot_revoked_at t = None)"
    using assms by (auto simp: revokeMemberKeys_def Let_def split: if_splits)
  show "list_all2 (\<lambda>k k'. ak_owner k \<noteq> Some u \<or> \<not> in_workspaces wss (ak_workspace k) \<longrightarrow> k' = k)
           (api_keys db) (api_keys db')"
    unfolding keys by (auto simp: list_all2_map2 list_all2_same revoke_match_iff)
qed

definition demo_store :: key_store where
  "demo_store = \<lparr>api_keys = [\<lparr>ak_id = ''k1'', ak_owner = Some ''u1'', ak_workspace = ''w'', ak_revoked_at = None\<rparr>,
       \<lparr>ak_id = ''k2'', ak_owner = Some ''u2'', ak_workspace = ''w'', ak_revoked_at = None\<rparr>],
     oauth_tokens = [\<lparr>ot_api_key_id = ''k1'', ot_revoked_at = None\<rparr>, \<lparr>ot_api_key_id = ''k2'', ot_revoked_at = None\<rparr>]\<rparr>"

theorem revocation_complete_witness:
  "\<not> (\<exists>k \<in> set (api_keys (snd (revokeMemberKeys False False 7 (Some ''u1'') None demo_store))). revoke_match ''u1'' None k)"
  using revocation_complete [of "''u1''" None 7 demo_store, OF _ _ surjective_pairing] by simp

section \<open>A personal play stays its owner's\<close>

lemma patch_play_foreign:
  assumes "isPersonal row" "pl_user_id row = Some u" "pv_userId v \<noteq> Some u"
  shows "patch_play v requested row = Inl PlayNotFound"
  using assms by (auto simp: patch_play_def canSeeRoutine_def owns_row_def)

text \<open>A personal play is invisible to everyone but its owner, admins included: nobody else can see or
  edit it, and no sequence of other people's requests changes it.\<close>

theorem personal_play_private:
  assumes pers: "isPersonal row" and own: "pl_user_id row = Some u"
  shows "(\<forall>v. pv_userId v \<noteq> Some u \<longrightarrow> \<not> canSeeRoutine row v \<and> \<not> canEditRoutine row v
           \<and> \<not> vf_yours (visibilityFields row v) \<and> \<not> vf_can_share (visibilityFields row v))
    \<and> (\<forall>row'. play_steps u row row' \<longrightarrow> row' = row)"
proof (intro conjI allI impI)
  fix row' assume "play_steps u row row'"
  then show "row' = row"
    using assms by (induction rule: play_steps.induct) (auto simp: patch_play_foreign)
qed (use assms in \<open>auto simp: canSeeRoutine_def canEditRoutine_def visibilityFields_def owns_row_def\<close>)

definition demo_play :: play_row where
  "demo_play = \<lparr>pl_visibility = Some PERSONAL, pl_user_id = Some ''u1''\<rparr>"

theorem personal_play_private_witness:
  "\<not> canSeeRoutine demo_play \<lparr>pv_userId = Some ''boss'', pv_admin = True\<rparr>
   \<and> \<not> canEditRoutine demo_play \<lparr>pv_userId = Some ''boss'', pv_admin = True\<rparr>"
  using personal_play_private [of demo_play "''u1''"] by (auto simp: demo_play_def isPersonal_def)

text \<open>Only an admin's request changes a visibility, and a personal play always has a person.\<close>

lemma patch_play_admin:
  "patch_play v requested row = Inr row' \<Longrightarrow> pl_visibility row' \<noteq> pl_visibility row \<Longrightarrow> pv_admin v"
  by (auto simp: patch_play_def visibilityChange_def split: if_splits option.splits)

lemma patch_play_owner:
  "patch_play v requested row = Inr row' \<Longrightarrow> pl_user_id row' = pl_user_id row"
  by (auto simp: patch_play_def split: if_splits option.splits)

lemma created_personal_has_owner:
  "createVisibility requested v = Inr PERSONAL \<Longrightarrow> nonempty (pv_userId v)"
  by (cases requested) (auto simp: createVisibility_def PERSONAL_def SHARED_def split: if_splits)

section \<open>Runs of someone else's personal play\<close>

lemma routineAccess_get:
  "jm_get (routineAccess surface uid ps) i =
     (if \<exists>ow. (i, ow) \<in> set ps \<and> (\<not> nonempty uid \<or> ow \<noteq> uid) then Some NotYours else jm_get surface i)"
  unfolding routineAccess_def
  by (induction ps arbitrary: surface) (auto simp: jm_get_set)

lemma foreign_runs_hidden:
  "(i, Some u) \<in> set ps \<Longrightarrow> uid \<noteq> Some u \<Longrightarrow> \<not> canSeeRoutineRuns (routineAccess surface uid ps) i"
  by (auto simp: canSeeRoutineRuns_def routineAccess_get)

lemma fold_split_credits:
  "sum_list (map us_credits (filter p rows)) + sum_list (map us_credits (filter (\<lambda>r. \<not> p r) rows))
   = sum_list (map us_credits rows)"
  by (induction rows) (auto simp: algebra_simps)

lemma sum_list_sort: "sum_list (map f (js_sort le xs)) = (sum_list (map f xs) :: rat)"
  by (metis mset_js_sort mset_map sum_mset_sum_list)

text \<open>Folding the plays a viewer may not see into one line keeps the total credits, when the surface's
  own fold does, and no row of another person's personal play is listed.\<close>

theorem fold_hides_and_conserves:
  assumes sums: "\<And>rs acc. sum_list (map us_credits (surface_fold rs acc)) = sum_list (map us_credits rs)"
    and ids: "\<And>rs acc. us_routine_id ` set (surface_fold rs acc) \<subseteq> insert None (us_routine_id ` set rs)"
  shows "sum_list (map us_credits (foldHiddenRoutines surface_fold rows access)) = sum_list (map us_credits rows)
    \<and> (\<forall>i. (i, NotYours) \<in> set access \<longrightarrow> Some i \<notin> us_routine_id ` set (foldHiddenRoutines surface_fold rows access))"
proof (intro conjI allI impI)
  let ?p = "their_rows access"
  show "sum_list (map us_credits (foldHiddenRoutines surface_fold rows access)) = sum_list (map us_credits rows)"
  proof (cases "filter ?p rows = []")
    case True
    then have "filter (\<lambda>r. \<not> ?p r) rows = rows" by (simp add: filter_empty_conv filter_id_conv)
    with True show ?thesis by (simp add: foldHiddenRoutines_def sums)
  next
    case False
    then show ?thesis
      using fold_split_credits [of ?p rows]
      by (simp add: foldHiddenRoutines_def Let_def sums sum_list_sort add.commute)
  qed
  fix i assume m: "(i, NotYours) \<in> set access"
  have "?p r" if "us_routine_id r = Some i" for r
    using m that by (force simp: their_rows_def)
  then have "Some i \<notin> us_routine_id ` set (filter (\<lambda>r. \<not> ?p r) rows)" by auto
  then have "Some i \<notin> us_routine_id ` set (surface_fold (filter (\<lambda>r. \<not> ?p r) rows) acc)" for acc
    using ids [of "filter (\<lambda>r. \<not> ?p r) rows" acc] by blast
  then show "Some i \<notin> us_routine_id ` set (foldHiddenRoutines surface_fold rows access)"
    by (auto simp: foldHiddenRoutines_def Let_def)
qed

theorem fold_hides_and_conserves_witness:
  "sum_list (map us_credits (foldHiddenRoutines (\<lambda>rs acc. rs)
     [\<lparr>us_routine_id = Some ''r1'', us_name = ''A'', us_runs = None, us_credits = 3\<rparr>] [(''r1'', NotYours)])) = 3"
  using fold_hides_and_conserves [of "\<lambda>rs acc. rs"] by (auto simp: subset_insertI)

end
