(* ===== verification/Egress.thy ===== *)
theory Egress
  imports JsNumber "HOL-Library.Word"
begin

text \<open>
  The egress guard \<^verbatim>\<open>apps/api/src/lib/ssrf.mjs\<close>. The runtime's URL parser, its
  \<^verbatim>\<open>net.isIP\<close> test for IPv6 text, name resolution and \<^verbatim>\<open>fetch\<close> are parameters; an
  IPv4 address is read here. Each hop of \<open>safeFetch\<close> resolves names anew, so resolution takes
  the number of the hop; the function also returns the URLs it requested.
\<close>

unbundle bit_operations_syntax

section \<open>URLs as the runtime parses them\<close>

record url =
  u_protocol :: string
  u_hostname :: string
  u_hash :: string
  u_href :: string

section \<open>Private addresses\<close>

definition octet_ok :: "string \<Rightarrow> bool" where
  "octet_ok s = (s \<noteq> [] \<and> length s \<le> 3 \<and> list_all is_digit s \<and> (length s = 1 \<or> hd s \<noteq> CHR ''0'')
     \<and> digits_val 0 s \<le> 255)"

text \<open>\<^verbatim>\<open>net.isIPv4\<close> and \<^verbatim>\<open>ip.split('.').map(Number)\<close>.\<close>

definition is_ipv4 :: "string \<Rightarrow> bool" where
  "is_ipv4 ip = (let ps = split_on CHR ''.'' ip in length ps = 4 \<and> list_all octet_ok ps)"

definition octets :: "string \<Rightarrow> int list" where
  "octets ip = map (digits_val 0) (split_on CHR ''.'' ip)"

definition private_v4 :: "int \<Rightarrow> int \<Rightarrow> bool" where
  "private_v4 a b =
     (if a = 10 then True
      else if a = 127 then True
      else if a = 0 then True
      else if a = 169 \<and> b = 254 then True
      else if a = 172 \<and> 16 \<le> b \<and> b \<le> 31 then True
      else if a = 192 \<and> b = 168 then True
      else if a = 100 \<and> 64 \<le> b \<and> b \<le> 127 then True
      else 224 \<le> a)"

lemma length_to_lower [simp]: "length (to_lower s) = length s"
  by (simp add: to_lower_def)

function isPrivateIp :: "string \<Rightarrow> bool" where
  "isPrivateIp ip =
     (if is_ipv4 ip then private_v4 (octets ip ! 0) (octets ip ! 1)
      else (let low = to_lower ip in
        if low = ''::1'' \<or> low = ''::'' then True
        else if starts_with ''fe80'' low then True
        else if starts_with ''fc'' low \<or> starts_with ''fd'' low then True
        else if starts_with ''::ffff:'' low then isPrivateIp (drop 7 low)
        else False))"
  by pat_completeness auto
termination
proof (relation "measure length")
  fix ip low
  assume "starts_with ''::ffff:'' low" and "low = to_lower ip"
  then have "length ''::ffff:'' \<le> length ip"
    unfolding starts_with_def by (metis length_take length_to_lower min.cobounded1)
  with \<open>low = to_lower ip\<close> show "(drop 7 low, ip) \<in> measure length"
    by simp
qed simp

declare isPrivateIp.simps [simp del]

section \<open>The guard\<close>

datatype url_error = InvalidUrl | BlockedProtocol | BlockedPrivate | BlockedInternalHost | DnsFailed | TooManyRedirects

definition assertPublicUrl ::
  "(string \<Rightarrow> url option) \<Rightarrow> (string \<Rightarrow> bool) \<Rightarrow> (string \<Rightarrow> string list option) \<Rightarrow> string \<Rightarrow> url_error + url" where
  "assertPublicUrl parse is_ipv6 lookup rawUrl =
     (case parse rawUrl of None \<Rightarrow> Inl InvalidUrl
      | Some u \<Rightarrow>
         if u_protocol u \<noteq> ''https:'' \<and> u_protocol u \<noteq> ''http:'' then Inl BlockedProtocol
         else (let host = u_hostname u in
           if is_ipv4 host \<or> is_ipv6 host then
             (if isPrivateIp host then Inl BlockedPrivate else Inr u)
           else if host = ''localhost'' \<or> ends_with ''.internal'' host \<or> ends_with ''.local'' host
             \<or> \<not> js_includes ''.'' host then Inl BlockedInternalHost
           else (case lookup host of None \<Rightarrow> Inl DnsFailed
             | Some results \<Rightarrow>
                 if results = [] then Inl DnsFailed
                 else if list_ex isPrivateIp results then Inl BlockedPrivate
                 else Inr u)))"

definition isPublicUrl ::
  "(string \<Rightarrow> url option) \<Rightarrow> (string \<Rightarrow> bool) \<Rightarrow> (string \<Rightarrow> string list option) \<Rightarrow> string \<Rightarrow> bool" where
  "isPublicUrl parse is_ipv6 lookup rawUrl =
     (case assertPublicUrl parse is_ipv6 lookup rawUrl of Inl _ \<Rightarrow> False | Inr _ \<Rightarrow> True)"

record http_response =
  rs_status :: int
  rs_location :: "string option"

datatype fetch_error = UrlError url_error | FetchFailed

text \<open>\<open>resolve loc current\<close> is \<^verbatim>\<open>new URL(loc, current).toString()\<close>; \<open>guard hop\<close> the guard at that
  moment; \<open>get hop\<close> the transport, which may fail. \<open>n\<close> counts the requests still allowed.\<close>

primrec fetch_hops ::
  "(nat \<Rightarrow> string \<Rightarrow> url_error + url) \<Rightarrow> (nat \<Rightarrow> string \<Rightarrow> http_response option)
    \<Rightarrow> (string \<Rightarrow> string \<Rightarrow> string option) \<Rightarrow> nat \<Rightarrow> nat \<Rightarrow> string \<Rightarrow> (fetch_error + http_response) \<times> string list" where
  "fetch_hops guard get resolve 0 hop current = (Inl (UrlError TooManyRedirects), [])"
| "fetch_hops guard get resolve (Suc n) hop current =
     (case get hop current of None \<Rightarrow> (Inl FetchFailed, [current])
      | Some res \<Rightarrow>
         if rs_status res < 300 \<or> 400 \<le> rs_status res then (Inr res, [current])
         else if \<not> nonempty (rs_location res) then (Inr res, [current])
         else (case resolve (str_of (rs_location res)) current of
             None \<Rightarrow> (Inl (UrlError InvalidUrl), [current])
           | Some next \<Rightarrow> (case guard (Suc hop) next of
               Inl e \<Rightarrow> (Inl (UrlError e), [current])
             | Inr u \<Rightarrow> (let (r, urls) = fetch_hops guard get resolve n (Suc hop) (u_href u)
                        in (r, current # urls)))))"

definition safeFetch ::
  "(nat \<Rightarrow> string \<Rightarrow> url_error + url) \<Rightarrow> (nat \<Rightarrow> string \<Rightarrow> http_response option)
    \<Rightarrow> (string \<Rightarrow> string \<Rightarrow> string option) \<Rightarrow> nat \<Rightarrow> string \<Rightarrow> (fetch_error + http_response) \<times> string list" where
  "safeFetch guard get resolve maxRedirects rawUrl =
     (case guard 0 rawUrl of Inl e \<Rightarrow> (Inl (UrlError e), [])
      | Inr u \<Rightarrow> fetch_hops guard get resolve (Suc maxRedirects) 0 (u_href u))"

section \<open>The private ranges are the published blocks\<close>

definition ip_word :: "int \<Rightarrow> int \<Rightarrow> int \<Rightarrow> int \<Rightarrow> 32 word" where
  "ip_word a b c d = word_of_int (a * 2 ^ 24 + b * 2 ^ 16 + c * 2 ^ 8 + d)"

text \<open>A block is an address and the number of bits after the prefix.\<close>

definition in_block :: "32 word \<Rightarrow> 32 word \<times> nat \<Rightarrow> bool" where
  "in_block w blk = (drop_bit (snd blk) w = drop_bit (snd blk) (fst blk))"

definition private_blocks :: "(32 word \<times> nat) list" where
  "private_blocks =
    [(0x0A000000, 24), (0x7F000000, 24), (0x00000000, 24), (0xA9FE0000, 16), (0xAC100000, 20),
     (0xC0A80000, 16), (0x64400000, 22), (0xE0000000, 29)]"

lemma ip_word_top: 
  assumes "0 \<le> a" "a < 256" "0 \<le> b" "b < 256" "0 \<le> c" "c < 256" "0 \<le> d" "d < 256"
  shows "uint (ip_word a b c d) = a * 2 ^ 24 + b * 2 ^ 16 + c * 2 ^ 8 + d"
  unfolding ip_word_def using assms by (intro word_of_int_inverse [OF refl]) auto

lemma in_block_uint: "in_block w (v, n) \<longleftrightarrow> uint w div 2 ^ n = uint v div 2 ^ n"
proof -
  have "uint (drop_bit n x) = uint x div 2 ^ n" for x :: "32 word"
    using uint_nonnegative [of x] uint_bounded [of x] by (simp only: unsigned_drop_bit_eq) (simp add: drop_bit_eq_div take_bit_int_eq_self)
  then show ?thesis unfolding in_block_def by (simp add: word_uint_eq_iff)
qed

lemma quad_div:
  fixes a b c d :: int
  assumes "0 \<le> b" "b < 256" "0 \<le> c" "c < 256" "0 \<le> d" "d < 256"
  defines "q \<equiv> a * 2 ^ 24 + b * 2 ^ 16 + c * 2 ^ 8 + d"
  shows "q div 2 ^ 24 = a" "q div 2 ^ 16 = a * 256 + b" "q div 2 ^ 20 = a * 16 + b div 16"
    "q div 2 ^ 22 = a * 4 + b div 64" "q div 2 ^ 29 = a div 32"
  using assms unfolding q_def by simp_all

lemma split_digit: "0 \<le> r \<Longrightarrow> r < m \<Longrightarrow> a * m + r = q \<longleftrightarrow> a = q div m \<and> r = q mod (m::int)"
  by (metis add.commute div_mult_mod_eq mod_mult_self1 mod_pos_pos_trivial div_mult_self1 div_pos_pos_trivial
    add_0 less_irrefl order_le_less_trans)

lemma private_v4_blocks:
  assumes "0 \<le> a" "a < 256" "0 \<le> b" "b < 256" "0 \<le> c" "c < 256" "0 \<le> d" "d < 256"
  shows "private_v4 a b \<longleftrightarrow> list_ex (in_block (ip_word a b c d)) private_blocks"
proof -
  note top = in_block_uint ip_word_top [OF assms] quad_div [OF assms(3-8)]
  let ?w = "ip_word a b c d"
  have blocks: "in_block ?w (0x0A000000, 24) \<longleftrightarrow> a = 10" "in_block ?w (0x7F000000, 24) \<longleftrightarrow> a = 127"
    "in_block ?w (0, 24) \<longleftrightarrow> a = 0" "in_block ?w (0xA9FE0000, 16) \<longleftrightarrow> a * 256 + b = 0xA9FE"
    "in_block ?w (0xAC100000, 20) \<longleftrightarrow> a * 16 + b div 16 = 0xAC1"
    "in_block ?w (0xC0A80000, 16) \<longleftrightarrow> a * 256 + b = 0xC0A8"
    "in_block ?w (0x64400000, 22) \<longleftrightarrow> a * 4 + b div 64 = 0x191"
    "in_block ?w (0xE0000000, 29) \<longleftrightarrow> a div 32 = 7"
    by (simp_all only: top) simp_all
  have d16: "0 \<le> b div 16" "b div 16 < 16" and d64: "0 \<le> b div 64" "b div 64 < 4" using assms by simp_all
  have "a * 256 + b = 0xA9FE \<longleftrightarrow> a = 169 \<and> b = 254" "a * 256 + b = 0xC0A8 \<longleftrightarrow> a = 192 \<and> b = 168"
    "a * 16 + b div 16 = 0xAC1 \<longleftrightarrow> a = 172 \<and> b div 16 = 1"
    "a * 4 + b div 64 = 0x191 \<longleftrightarrow> a = 100 \<and> b div 64 = 1"
    using split_digit [of b 256 a "0xA9FE"] split_digit [of b 256 a "0xC0A8"]
      split_digit [of "b div 16" 16 a "0xAC1"] split_digit [of "b div 64" 4 a "0x191"] d16 d64 assms(3,4)
    by simp_all
  moreover have "b div 16 = 1 \<longleftrightarrow> 16 \<le> b \<and> b \<le> 31" "b div 64 = 1 \<longleftrightarrow> 64 \<le> b \<and> b \<le> 127" by auto
  moreover have "a div 32 = 7 \<longleftrightarrow> 224 \<le> a"
    using assms(1,2) by auto
  ultimately show ?thesis
    unfolding private_v4_def private_blocks_def by (simp add: blocks) blast
qed

lemma octet_range: "octet_ok s \<Longrightarrow> 0 \<le> digits_val 0 s \<and> digits_val 0 s < 256"
proof -
  have "0 \<le> acc \<Longrightarrow> list_all is_digit s \<Longrightarrow> 0 \<le> digits_val acc s" for acc s
    by (induction acc s rule: digits_val.induct) (auto simp: is_digit_def)
  then show "octet_ok s \<Longrightarrow> 0 \<le> digits_val 0 s \<and> digits_val 0 s < 256"
    by (auto simp: octet_ok_def)
qed

lemma ipv4_octets:
  assumes "is_ipv4 ip"
  obtains a b c d where "octets ip = [a, b, c, d]" "0 \<le> a" "a < 256" "0 \<le> b" "b < 256"
    "0 \<le> c" "c < 256" "0 \<le> d" "d < 256"
proof -
  from assms obtain p q r s where ps: "split_on CHR ''.'' ip = [p, q, r, s]"
    by (auto simp: is_ipv4_def Let_def eval_nat_numeral length_Suc_conv)
  with assms have "octet_ok p" "octet_ok q" "octet_ok r" "octet_ok s"
    by (simp_all add: is_ipv4_def)
  with that [of "digits_val 0 p" "digits_val 0 q" "digits_val 0 r" "digits_val 0 s"] show thesis
    by (simp add: octets_def ps octet_range)
qed

text \<open>C12: The guard's test on the first two octets is membership in the address blocks its comments
  name: for every IPv4 address, it is private exactly when its 32-bit value lies in 10/8, 127/8, 0/8,
  169.254/16, 172.16/12, 192.168/16, 100.64/10 or the 224/3 of multicast and reserved space.\<close>

theorem private_ranges_exact:
  assumes "is_ipv4 ip" and "octets ip = [a, b, c, d]"
  shows "isPrivateIp ip \<longleftrightarrow> (\<exists>blk \<in> set private_blocks. in_block (ip_word a b c d) blk)"
proof -
  obtain "0 \<le> a" "a < 256" "0 \<le> b" "b < 256" "0 \<le> c" "c < 256" "0 \<le> d" "d < 256"
    using ipv4_octets [OF assms(1)] assms(2) by (metis list.inject)
  from private_v4_blocks [OF this] show ?thesis
    using assms by (simp add: isPrivateIp.simps list_ex_iff)
qed

theorem private_ranges_exact_witness:
  "isPrivateIp ''172.20.1.9'' \<longleftrightarrow> (\<exists>blk \<in> set private_blocks. in_block (ip_word 172 20 1 9) blk)"
  by (rule private_ranges_exact) code_simp+

section \<open>Every request is guarded, on every hop\<close>

text \<open>What the guard has checked of a URL it lets through.\<close>

definition public_url :: "(string \<Rightarrow> bool) \<Rightarrow> (string \<Rightarrow> string list option) \<Rightarrow> url \<Rightarrow> bool" where
  "public_url is_ipv6 lookup u =
     ((u_protocol u = ''https:'' \<or> u_protocol u = ''http:'')
      \<and> (if is_ipv4 (u_hostname u) \<or> is_ipv6 (u_hostname u) then \<not> isPrivateIp (u_hostname u)
         else u_hostname u \<noteq> ''localhost''
           \<and> (\<exists>rs. lookup (u_hostname u) = Some rs \<and> rs \<noteq> [] \<and> (\<forall>r \<in> set rs. \<not> isPrivateIp r))))"

lemma assertPublicUrl_public:
  "assertPublicUrl parse is_ipv6 lookup raw = Inr u \<Longrightarrow> parse raw = Some u \<and> public_url is_ipv6 lookup u"
  by (auto simp: assertPublicUrl_def public_url_def Let_def list_ex_iff split: option.splits if_splits)

lemma fetch_hops_guarded:
  assumes "fetch_hops guard get resolve n hop current = (r, urls)"
    and "k < length urls"
  shows "urls ! k = current \<and> k = 0 \<or> (\<exists>raw u. guard (hop + k) raw = Inr u \<and> urls ! k = u_href u)"
  using assms
proof (induction n arbitrary: hop current r urls k)
  case 0
  then show ?case by auto
next
  case (Suc n)
  show ?case
  proof (cases k)
    case 0
    with Suc.prems show ?thesis
      by (auto simp: Let_def split: option.splits if_splits sum.splits prod.splits)
  next
    case (Suc j)
    with Suc.prems obtain nxt u urls' where g: "guard (Suc hop) nxt = Inr u"
      and rest: "fetch_hops guard get resolve n (Suc hop) (u_href u) = (r, urls')"
      and urls: "urls = current # urls'"
      by (auto simp: Let_def split: option.splits if_splits sum.splits prod.splits)
    have "j < length urls'" using Suc.prems(2) Suc urls by simp
    from Suc.IH [OF rest this] g urls Suc show ?thesis
      by (metis add_Suc_right add_Suc nth_Cons_Suc add.right_neutral)
  qed
qed

lemma fetch_hops_bounded: "fetch_hops guard get resolve n hop current = (r, urls) \<Longrightarrow> length urls \<le> n"
proof (induction n arbitrary: hop current r urls)
  case (Suc n)
  then show ?case
    by (fastforce simp: Let_def split: option.splits if_splits sum.splits prod.splits)
qed simp

text \<open>C11: No redirect escapes the guard: the k-th URL requested is one the guard parsed and let through at
  hop k, so it is http(s), and neither its literal address nor any address its name resolved to at
  that hop is private; and at most \<open>maxRedirects + 1\<close> requests are made.\<close>

theorem safeFetch_guarded:
  assumes run: "safeFetch (\<lambda>hop. assertPublicUrl parse is_ipv6 (dns hop)) get resolve maxRedirects raw = (r, urls)"
  shows "length urls \<le> Suc maxRedirects
    \<and> (\<forall>k < length urls. \<exists>raw' u. parse raw' = Some u \<and> urls ! k = u_href u \<and> public_url is_ipv6 (dns k) u)"
proof (cases "assertPublicUrl parse is_ipv6 (dns 0) raw")
  case (Inl e)
  with run show ?thesis by (simp add: safeFetch_def)
next
  case (Inr u0)
  with run have hops: "fetch_hops (\<lambda>hop. assertPublicUrl parse is_ipv6 (dns hop)) get resolve
      (Suc maxRedirects) 0 (u_href u0) = (r, urls)"
    by (simp add: safeFetch_def)
  have "\<exists>raw' u. parse raw' = Some u \<and> urls ! k = u_href u \<and> public_url is_ipv6 (dns k) u"
    if "k < length urls" for k
    using fetch_hops_guarded [OF hops that] assertPublicUrl_public Inr
    by (metis (no_types, lifting) add_0)
  with fetch_hops_bounded [OF hops] show ?thesis by blast
qed

definition demo_parse :: "string \<Rightarrow> url option" where
  "demo_parse s = (if s = ''https://a.com/'' then Some \<lparr>u_protocol = ''https:'', u_hostname = ''a.com'', u_hash = [], u_href = s\<rparr>
     else if s = ''http://10.0.0.5/'' then Some \<lparr>u_protocol = ''http:'', u_hostname = ''10.0.0.5'', u_hash = [], u_href = s\<rparr>
     else None)"

text \<open>A public page that redirects to a private address: one request, then refused.\<close>

definition demo_fetch :: "(fetch_error + http_response) \<times> string list" where
  "demo_fetch = safeFetch (\<lambda>hop. assertPublicUrl demo_parse (\<lambda>s. False) (\<lambda>h. Some [''93.184.216.34'']))
     (\<lambda>hop u. Some \<lparr>rs_status = 302, rs_location = Some ''http://10.0.0.5/''\<rparr>) (\<lambda>loc cur. Some loc) 4 ''https://a.com/''"

lemma demo_fetch_eval: "demo_fetch = (Inl (UrlError BlockedPrivate), [''https://a.com/''])"
  by code_simp

theorem safeFetch_guarded_witness:
  "\<exists>raw' u. demo_parse raw' = Some u \<and> ''https://a.com/'' = u_href u
     \<and> public_url (\<lambda>s. False) (\<lambda>h. Some [''93.184.216.34'']) u"
  using safeFetch_guarded [OF demo_fetch_eval [unfolded demo_fetch_def]] by simp

text \<open>The comment on the IPv6 test says link-local, which is fe80::/10; an address of that block outside
  fe80::/16 passes.\<close>

lemma link_local_gap: "\<not> isPrivateIp ''fe90::1'' \<and> isPrivateIp ''fe80::1''"
  by code_simp

lemma is_ipv4_head: "is_ipv4 (c # s) \<Longrightarrow> c \<noteq> CHR ''.'' \<Longrightarrow> is_digit c"
  by (cases "split_on CHR ''.'' s") (auto simp: is_ipv4_def octet_ok_def Let_def)

text \<open>An IPv4-mapped IPv6 address is judged by the address it maps.\<close>

lemma mapped_v4: "is_ipv4 (to_lower ip) \<Longrightarrow> isPrivateIp (''::ffff:'' @ to_lower ip) = isPrivateIp (to_lower ip)"
proof -
  assume v4: "is_ipv4 (to_lower ip)"
  have no_colon: "\<not> is_ipv4 (''::ffff:'' @ to_lower ip)"
    using is_ipv4_head [of "CHR '':''" "'':ffff:'' @ to_lower ip"] by (auto simp: is_digit_def)
  have low: "to_lower (''::ffff:'' @ to_lower ip) = ''::ffff:'' @ to_lower ip"
  proof -
    have "to_lower ''::ffff:'' = ''::ffff:''" by code_simp
    then show ?thesis by (metis map_append to_lower_def to_lower_idem)
  qed
  show ?thesis
    by (subst isPrivateIp.simps) (simp only: no_colon low Let_def, simp add: starts_with_def)
qed

end
