(* ===== verification/OAuth.thy ===== *)
theory OAuth
  imports Egress JsArrays
begin

text \<open>
  The OAuth authorization server's pure half, \<^verbatim>\<open>apps/api/src/lib/oauth.mjs\<close>: origins from
  the environment, PKCE, dynamic client registration, the authorization request, and the name the
  consent screen shows. The runtime's URL parser and the SHA-256 digest in base64url are parameters.
\<close>

section \<open>Origins and metadata\<close>

definition ACCESS_TTL_S :: int where "ACCESS_TTL_S = 60 * 60"
definition REFRESH_TTL_S :: int where "REFRESH_TTL_S = 60 * 60 * 24 * 30"
definition CODE_TTL_MS :: int where "CODE_TTL_MS = 60 * 1000"
definition REQUEST_TTL_MS :: int where "REQUEST_TTL_MS = 10 * 60 * 1000"
definition SCOPE :: string where "SCOPE = ''nous''"

record oauth_env =
  e_OAUTH_ISSUER :: "string option"
  e_API_DOMAIN :: "string option"
  e_API_URL :: "string option"
  e_APP_URL :: "string option"
  e_MCP_URL :: "string option"
  e_MCP_DOMAIN :: "string option"

definition stripSlash :: "string \<Rightarrow> string" where
  "stripSlash s = (if s \<noteq> [] \<and> last s = CHR ''/'' then butlast s else s)"

definition issuerUrl :: "oauth_env \<Rightarrow> string" where
  "issuerUrl e = stripSlash
     (if nonempty (e_OAUTH_ISSUER e) then str_of (e_OAUTH_ISSUER e)
      else if nonempty (e_API_DOMAIN e) then ''https://'' @ str_of (e_API_DOMAIN e)
      else if starts_with ''https://'' (str_of (e_API_URL e)) then str_of (e_API_URL e)
      else ''https://api.opennous.cloud'')"

definition appUrl :: "oauth_env \<Rightarrow> string" where
  "appUrl e = stripSlash (if nonempty (e_APP_URL e) then str_of (e_APP_URL e) else ''https://app.opennous.cloud'')"

definition mcpResourceUrl :: "oauth_env \<Rightarrow> string" where
  "mcpResourceUrl e =
     (if nonempty (e_MCP_URL e) then stripSlash (str_of (e_MCP_URL e)) @ ''/mcp''
      else if nonempty (e_MCP_DOMAIN e) then ''https://'' @ str_of (e_MCP_DOMAIN e) @ ''/mcp''
      else ''https://mcp.opennous.cloud/mcp'')"

record as_metadata =
  md_issuer :: string
  md_authorization_endpoint :: string
  md_token_endpoint :: string
  md_registration_endpoint :: string
  md_revocation_endpoint :: string
  md_response_types :: "string list"
  md_grant_types :: "string list"
  md_challenge_methods :: "string list"
  md_token_auth_methods :: "string list"
  md_revocation_auth_methods :: "string list"
  md_scopes :: "string list"

definition authorizationServerMetadata :: "string \<Rightarrow> as_metadata" where
  "authorizationServerMetadata issuer =
     \<lparr>md_issuer = issuer,
      md_authorization_endpoint = issuer @ ''/oauth/authorize'',
      md_token_endpoint = issuer @ ''/oauth/token'',
      md_registration_endpoint = issuer @ ''/oauth/register'',
      md_revocation_endpoint = issuer @ ''/oauth/revoke'',
      md_response_types = [''code''],
      md_grant_types = [''authorization_code'', ''refresh_token''],
      md_challenge_methods = [''S256''],
      md_token_auth_methods = [''none''],
      md_revocation_auth_methods = [''none''],
      md_scopes = [SCOPE]\<rparr>"

section \<open>PKCE\<close>

definition alnum :: "char \<Rightarrow> bool" where
  "alnum c = in_ranges c [(CHR ''A'', CHR ''Z''), (CHR ''a'', CHR ''z''), (CHR ''0'', CHR ''9'')]"

text \<open>The two anchored character-class patterns of the file.\<close>

definition verifier_ok :: "string \<Rightarrow> bool" where
  "verifier_ok s = (43 \<le> length s \<and> length s \<le> 128 \<and> list_all (\<lambda>c. alnum c \<or> c \<in> set ''-._~'') s)"


definition verifyPkce :: "(string \<Rightarrow> string) \<Rightarrow> jsval \<Rightarrow> jsval \<Rightarrow> bool" where
  "verifyPkce sha256_b64url codeVerifier codeChallenge =
     (case (codeVerifier, codeChallenge) of
        (JStr v, JStr ch) \<Rightarrow>
          if \<not> verifier_ok v then False
          else (let computed = sha256_b64url v in length computed = length ch \<and> computed = ch)
      | _ \<Rightarrow> False)"

section \<open>Registration\<close>

definition isAllowedRedirectUri :: "(string \<Rightarrow> url option) \<Rightarrow> string \<Rightarrow> bool" where
  "isAllowedRedirectUri parse uri =
     (case parse uri of None \<Rightarrow> False
      | Some u \<Rightarrow>
         if u_hash u \<noteq> [] then False
         else if u_protocol u = ''https:'' then True
         else if u_protocol u = ''http:'' then u_hostname u \<in> set [''localhost'', ''127.0.0.1'', ''[::1]'']
         else False)"

datatype oauth_error =
    InvalidRedirectUri | InvalidClientMetadata | InvalidClient | UnsupportedResponseType
  | InvalidRequest | InvalidTarget | InvalidScope

record oauth_client =
  oc_client_name :: "string option"
  oc_redirect_uris :: "string list"

fun bad_uri :: "(string \<Rightarrow> url option) \<Rightarrow> jsval \<Rightarrow> bool" where
  "bad_uri parse (JStr uri) = (length uri > 2000 \<or> \<not> isAllowedRedirectUri parse uri)"
| "bad_uri parse _ = True"

definition validateRegistration :: "(string \<Rightarrow> url option) \<Rightarrow> jsval \<Rightarrow> oauth_error + oauth_client" where
  "validateRegistration parse body =
     (let uris = js_prop body ''redirect_uris'';
          us = js_elems uris
      in if \<not> js_is_array uris \<or> us = [] \<or> length us > 10 then Inl InvalidRedirectUri
         else if list_ex (bad_uri parse) us then Inl InvalidRedirectUri
         else
           (let grantTypes = js_coalesce (js_prop body ''grant_types'')
                  (JArr [JStr ''authorization_code'', JStr ''refresh_token'']);
                responseTypes = js_coalesce (js_prop body ''response_types'') (JArr [JStr ''code'']);
                name = (case js_str (js_prop body ''client_name'') of None \<Rightarrow> '''' | Some s \<Rightarrow> take 100 (js_trim s))
            in if \<not> js_is_array grantTypes \<or> JStr ''authorization_code'' \<notin> set (js_elems grantTypes)
                 \<or> list_ex (\<lambda>g. g \<notin> set [JStr ''authorization_code'', JStr ''refresh_token'']) (js_elems grantTypes)
               then Inl InvalidClientMetadata
               else if \<not> js_is_array responseTypes \<or> list_ex (\<lambda>r. r \<noteq> JStr ''code'') (js_elems responseTypes)
               then Inl InvalidClientMetadata
               else Inr \<lparr>oc_client_name = (if name = [] then None else Some name),
                         oc_redirect_uris = js_uniq (List.map_filter js_str us)\<rparr>))"

section \<open>The authorization request\<close>





section \<open>The name on the consent screen\<close>

definition KNOWN_CLIENTS :: "(string \<times> string) list" where
  "KNOWN_CLIENTS = [(''claude.ai'', ''Claude''), (''claude.com'', ''Claude''), (''chatgpt.com'', ''ChatGPT''),
     (''chat.openai.com'', ''ChatGPT''), (''grok.com'', ''Grok''), (''x.ai'', ''Grok'')]"

record shown_client =
  sc_displayName :: string
  sc_verified :: bool

definition displayFor :: "string \<Rightarrow> shown_client" where
  "displayFor host =
     (let h = hd (split_on CHR '':'' (to_lower host)) in
      if h = ''localhost'' \<or> h = ''127.0.0.1'' \<or> h = ''[::1]''
      then \<lparr>sc_displayName = ''An app on this computer'', sc_verified = False\<rparr>
      else (case List.find (\<lambda>(k, _). h = k \<or> ends_with (''.'' @ k) h) KNOWN_CLIENTS of
              Some (k, nm) \<Rightarrow> \<lparr>sc_displayName = nm, sc_verified = True\<rparr>
            | None \<Rightarrow> \<lparr>sc_displayName = h, sc_verified = False\<rparr>))"

section \<open>What registration accepts\<close>

lemma bad_uri_str: "\<not> bad_uri parse v \<longleftrightarrow> (\<exists>u. v = JStr u \<and> length u \<le> 2000 \<and> isAllowedRedirectUri parse u)"
  by (cases v) auto

lemma js_uniq_facts: "distinct (js_uniq xs)" "set (js_uniq xs) = set xs"
  by simp_all

lemma isAllowed_iff: "isAllowedRedirectUri parse uri \<longleftrightarrow> (\<exists>u. parse uri = Some u \<and> u_hash u = []
    \<and> (u_protocol u = ''https:''
       \<or> u_protocol u = ''http:'' \<and> u_hostname u \<in> {''localhost'', ''127.0.0.1'', ''[::1]''}))"
  by (cases "parse uri") (simp_all add: isAllowedRedirectUri_def)

lemma map_filter_strings: "\<forall>v \<in> set vs. \<exists>s. v = JStr s \<Longrightarrow> map JStr (List.map_filter js_str vs) = vs"
  by (induction vs) auto

text \<open>A client is registered only with redirect URIs that are safe to send a code to: one to ten of
  them, each at most 2000 characters, without a fragment, and https or http on a loopback host; the
  list has no duplicates and is exactly the one asked for, and the name kept is at most 100 characters.\<close>

theorem registration_safe:
  assumes reg: "validateRegistration parse body = Inr c"
  shows "(\<forall>uri \<in> set (oc_redirect_uris c). length uri \<le> 2000 \<and> (\<exists>u. parse uri = Some u \<and> u_hash u = []
            \<and> (u_protocol u = ''https:''
               \<or> u_protocol u = ''http:'' \<and> u_hostname u \<in> {''localhost'', ''127.0.0.1'', ''[::1]''})))
    \<and> JStr ` set (oc_redirect_uris c) = set (js_elems (js_prop body ''redirect_uris''))
    \<and> distinct (oc_redirect_uris c) \<and> oc_redirect_uris c \<noteq> [] \<and> length (oc_redirect_uris c) \<le> 10
    \<and> length (str_of (oc_client_name c)) \<le> 100"
proof -
  let ?us = "js_elems (js_prop body ''redirect_uris'')"
  let ?strs = "List.map_filter js_str ?us"
  from reg have ok: "\<forall>v \<in> set ?us. \<not> bad_uri parse v" and ne: "?us \<noteq> []" and len: "length ?us \<le> 10"
    and uris: "oc_redirect_uris c = js_uniq ?strs" and name: "length (str_of (oc_client_name c)) \<le> 100"
    by (auto simp: validateRegistration_def Let_def list_ex_iff split: if_splits option.splits)
  have strs: "map JStr ?strs = ?us"
    using ok by (intro map_filter_strings) (auto simp: bad_uri_str)
  have lens: "length ?strs \<le> 10" using strs len by (metis length_map)
  have inj: "JStr ` set ?strs = set ?us" using strs by (metis list.set_map)
  have "\<forall>uri \<in> set ?strs. length uri \<le> 2000 \<and> isAllowedRedirectUri parse uri"
    using ok inj by (auto simp: bad_uri_str image_iff)
  moreover have "length (js_uniq ?strs) \<le> length ?strs"
    by (metis js_uniq_facts card_length distinct_card)
  moreover have "js_uniq ?strs \<noteq> []"
    using ne inj js_uniq_facts(2) [of ?strs] by (metis image_empty list.set(1) set_empty)
  ultimately show ?thesis
    using name inj lens unfolding uris
    by (simp only: js_uniq_facts isAllowed_iff) simp
qed

definition demo_redirect :: "string \<Rightarrow> url option" where
  "demo_redirect s = (if s = ''https://claude.ai/cb''
     then Some \<lparr>u_protocol = ''https:'', u_hostname = ''claude.ai'', u_hash = [], u_href = s\<rparr> else None)"

lemma demo_registration: "validateRegistration demo_redirect
    (JObj [(''redirect_uris'', JArr [JStr ''https://claude.ai/cb'', JStr ''https://claude.ai/cb''])]) =
  Inr \<lparr>oc_client_name = None, oc_redirect_uris = [''https://claude.ai/cb'']\<rparr>"
  by code_simp

theorem registration_safe_witness: "distinct [''https://claude.ai/cb'']"
  using registration_safe [OF demo_registration] by simp






section \<open>The consent screen is not fooled\<close>

definition host_of :: "string \<Rightarrow> string" where
  "host_of host = hd (split_on CHR '':'' (to_lower host))"

text \<open>The consent screen shows a product name only for a host that is that product's domain or a
  subdomain of it, whatever name the registrant chose; a look-alike such as evilclaude.ai is
  shown as its bare host, unverified.\<close>

theorem verified_name_is_known_host:
  "(sc_verified (displayFor host) \<longleftrightarrow>
       host_of host \<notin> {''localhost'', ''127.0.0.1'', ''[::1]''}
       \<and> (\<exists>k \<in> fst ` set KNOWN_CLIENTS. host_of host = k \<or> ends_with (''.'' @ k) (host_of host)))
   \<and> (sc_verified (displayFor host) \<longrightarrow>
       (\<exists>k. (k, sc_displayName (displayFor host)) \<in> set KNOWN_CLIENTS
          \<and> (host_of host = k \<or> ends_with (''.'' @ k) (host_of host))))"
  unfolding displayFor_def host_of_def [symmetric] Let_def
  by (force simp: find_None_iff split: option.splits dest: find_Some_D)

theorem verified_name_is_known_host_witness:
  "\<not> sc_verified (displayFor ''evilclaude.ai'')
   \<and> (\<exists>k. (k, sc_displayName (displayFor ''www.Claude.ai:443'')) \<in> set KNOWN_CLIENTS
          \<and> (host_of ''www.Claude.ai:443'' = k \<or> ends_with (''.'' @ k) (host_of ''www.Claude.ai:443'')))"
proof
  have "sc_verified (displayFor ''www.Claude.ai:443'')" by code_simp
  then show "\<exists>k. (k, sc_displayName (displayFor ''www.Claude.ai:443'')) \<in> set KNOWN_CLIENTS
          \<and> (host_of ''www.Claude.ai:443'' = k \<or> ends_with (''.'' @ k) (host_of ''www.Claude.ai:443''))"
    using verified_name_is_known_host [of "''www.Claude.ai:443''"] by blast
qed code_simp

text \<open>An IPv6 loopback host is never recognised: the port split cuts it at its first colon.\<close>

lemma displayFor_ipv6_loopback:
  "displayFor ''[::1]:6274'' = \<lparr>sc_displayName = ''['', sc_verified = False\<rparr>
   \<and> displayFor ''[::1]'' = \<lparr>sc_displayName = ''['', sc_verified = False\<rparr>"
  by code_simp

end
