(* ===== verification/Paging.thy ===== *)
theory Paging
  imports JsNumber
begin

text \<open>
  Compound keyset cursors, \<^verbatim>\<open>apps/api/src/lib/keysetCursor.mjs\<close>: parsing, the filter the
  database is given, the next cursor, and a client that follows cursors to the end. The order of the
  log, newest first with the id breaking ties, is a parameter of the walk.
\<close>

section \<open>Cursors\<close>

record cursor =
  cu_at :: "string option"
  cu_id :: "string option"

definition split_last :: "char \<Rightarrow> string \<Rightarrow> (string \<times> string) option" where
  "split_last c s = (let r = rev s; post = takeWhile (\<lambda>x. x \<noteq> c) r; pre = dropWhile (\<lambda>x. x \<noteq> c) r
     in if pre = [] then None else Some (rev (tl pre), rev post))"

definition cursor_unsafe :: "string \<Rightarrow> bool" where
  "cursor_unsafe t = list_ex (\<lambda>c. c \<in> {CHR 0x22, CHR ''('', CHR '','', CHR '')'', CHR 0x5C}) t"

definition parseCursor :: "jsval \<Rightarrow> (string \<Rightarrow> bool) \<Rightarrow> cursor option" where
  "parseCursor raw idPattern =
     (if js_nullish raw \<or> raw = JStr [] then Some \<lparr>cu_at = None, cu_id = None\<rparr>
      else (let s = js_tostring raw in
        case split_last CHR ''|'' s of
          None \<Rightarrow> (case date_parse s of None \<Rightarrow> None
                 | Some t \<Rightarrow> Some \<lparr>cu_at = Some (iso_of t), cu_id = None\<rparr>)
        | Some (a, i) \<Rightarrow>
            if date_parse a = None \<or> cursor_unsafe a \<or> \<not> idPattern i then None
            else Some \<lparr>cu_at = Some a, cu_id = Some i\<rparr>))"

definition quoted :: "string \<Rightarrow> string" where
  "quoted s = [CHR 0x22] @ s @ [CHR 0x22]"

definition afterCursorFilter :: "string \<Rightarrow> string \<Rightarrow> string \<Rightarrow> string" where
  "afterCursorFilter tsCol a i =
     tsCol @ ''.lt.'' @ quoted a @ '',and('' @ tsCol @ ''.eq.'' @ quoted a @ '',id.lt.'' @ quoted i @ '')''"

record log_row =
  lr_ts :: string
  lr_id :: string

definition nextCursor :: "log_row list \<Rightarrow> nat \<Rightarrow> string option" where
  "nextCursor rows limit =
     (if rows = [] \<or> length rows < limit then None
      else Some (lr_ts (last rows) @ ''|'' @ lr_id (last rows)))"

definition BIGINT_ID :: "string \<Rightarrow> bool" where
  "BIGINT_ID s = (1 \<le> length s \<and> length s \<le> 19 \<and> list_all is_digit s)"

definition hex_char :: "char \<Rightarrow> bool" where
  "hex_char c = (radix_digit c < 16)"

definition UUID_ID :: "string \<Rightarrow> bool" where
  "UUID_ID s = (case split_on CHR ''-'' s of
      [a, b, c, d, e] \<Rightarrow> map length [a, b, c, d, e] = [8, 4, 4, 4, 12] \<and> list_all (list_all hex_char) [a, b, c, d, e]
    | _ \<Rightarrow> False)"

section \<open>A page, and a client that follows the cursors\<close>




section \<open>Round trip\<close>

lemma split_last_app: "c \<notin> set b \<Longrightarrow> split_last c (a @ c # b) = Some (a, b)"
proof -
  assume "c \<notin> set b"
  then have "x \<in> set (rev b) \<Longrightarrow> x \<noteq> c" for x by auto
  then have "takeWhile (\<lambda>x. x \<noteq> c) (rev b @ c # rev a) = rev b"
    "dropWhile (\<lambda>x. x \<noteq> c) (rev b @ c # rev a) = c # rev a"
    by (subst takeWhile_append2 dropWhile_append2; simp)+
  then show ?thesis by (simp add: split_last_def)
qed

definition row_ok :: "(string \<Rightarrow> bool) \<Rightarrow> log_row \<Rightarrow> bool" where
  "row_ok idPattern r = (date_parse (lr_ts r) \<noteq> None \<and> \<not> cursor_unsafe (lr_ts r) \<and> idPattern (lr_id r)
     \<and> CHR ''|'' \<notin> set (lr_id r))"

text \<open>A cursor comes back as it was made: parsing the next cursor of a page gives exactly the
  timestamp (to the microsecond, as the database sent it) and the id of the page's last row.\<close>

theorem cursor_round_trip:
  assumes "rows \<noteq> []" and "row_ok idPattern (last rows)" and "limit \<le> length rows"
  shows "\<exists>cur. nextCursor rows limit = Some cur
    \<and> parseCursor (JStr cur) idPattern = Some \<lparr>cu_at = Some (lr_ts (last rows)), cu_id = Some (lr_id (last rows))\<rparr>"
  using assms split_last_app [of "CHR ''|''" "lr_id (last rows)" "lr_ts (last rows)"]
  by (simp add: nextCursor_def parseCursor_def row_ok_def)

lemma demo_row_ok: "row_ok BIGINT_ID \<lparr>lr_ts = ''2026-03-14T08:00:00.123456+00:00'', lr_id = ''42''\<rparr>"
  by code_simp

theorem cursor_round_trip_witness:
  "\<exists>cur. nextCursor [\<lparr>lr_ts = ''2026-03-14T08:00:00.123456+00:00'', lr_id = ''42''\<rparr>] 1 = Some cur
    \<and> parseCursor (JStr cur) BIGINT_ID
      = Some \<lparr>cu_at = Some ''2026-03-14T08:00:00.123456+00:00'', cu_id = Some ''42''\<rparr>"
  using cursor_round_trip [of "[\<lparr>lr_ts = ''2026-03-14T08:00:00.123456+00:00'', lr_id = ''42''\<rparr>]" BIGINT_ID 1]
    demo_row_ok by simp

lemma UUID_no_bar: "UUID_ID s \<Longrightarrow> CHR ''|'' \<notin> set s"
proof -
  assume u: "UUID_ID s"
  then obtain ps where ps: "split_on CHR ''-'' s = ps" and hex: "list_all (list_all hex_char) ps"
    by (auto simp: UUID_ID_def split: list.splits)
  have nohex: "\<not> hex_char CHR ''|''" by code_simp
  have "set (js_join [c] qs) \<subseteq> insert c (\<Union> (set ` set qs))" for c qs
    by (induction "[c]" qs rule: js_join.induct) auto
  then have "set s \<subseteq> insert CHR ''-'' (\<Union> (set ` set ps))"
    using ps js_join_split by metis
  with hex nohex show ?thesis by (auto simp: list_all_iff)
qed

section \<open>Following the cursors visits the whole log\<close>










end
