(* ===== verification/Plans.thy ===== *)
theory Plans
  imports JsNumber JsArrays
begin

text \<open>
  The plan table and what a subscription resolves to: \<^verbatim>\<open>apps/api/src/lib/plans.mjs\<close> (ids,
  limits, prices, liveness, the billing period) and \<^verbatim>\<open>packages/core/src/services/trialGate.mjs\<close>.
  The environment (\<^verbatim>\<open>process.env\<close>) is a parameter, read by name. Plan ids are compared as own
  keys of the code's tables.
\<close>

section \<open>Plan ids, names and limits\<close>

definition PLAN_IDS :: "string list" where
  "PLAN_IDS = [''api'', ''custom'', ''free'']"

definition LEGACY_PLAN_IDS :: "(string \<times> string) list" where
  "LEGACY_PLAN_IDS = [(''starter'', ''api''), (''pro'', ''api''), (''scale'', ''api''),
     (''growth'', ''custom''), (''headless'', ''custom''), (''enterprise'', ''custom''), (''workspace'', ''custom'')]"

definition PLAN_FAMILY :: "(string \<times> string) list" where
  "PLAN_FAMILY =
    [(''api'', ''Self-serve''), (''starter'', ''Self-serve''), (''pro'', ''Self-serve''), (''scale'', ''Self-serve''),
     (''custom'', ''Workspace''), (''headless'', ''Workspace''), (''growth'', ''Workspace''),
     (''enterprise'', ''Workspace''), (''workspace'', ''Workspace''), (''free'', ''Free'')]"

definition planName :: "string option \<Rightarrow> string" where
  "planName planId = (case map_of PLAN_FAMILY (to_lower (str_of planId)) of Some f \<Rightarrow> f | None \<Rightarrow> ''Trial ended'')"

definition AUTOMATION_LIMIT :: "(string \<times> nat option) list" where
  "AUTOMATION_LIMIT = [(''Self-serve'', Some 5), (''Free'', Some 1), (''Workspace'', None), (''Trial ended'', Some 0)]"

definition ARTIFACTS_BY_PLAN :: "(string \<times> string list) list" where
  "ARTIFACTS_BY_PLAN =
    [(''Self-serve'', [''account_summary'', ''call_summary'']),
     (''Free'', [''account_summary'', ''call_summary'']),
     (''Workspace'', [''account_summary'', ''call_summary'', ''call_score'']),
     (''Trial ended'', [])]"

definition automationLimit :: "string option \<Rightarrow> nat option" where
  "automationLimit planId = (case map_of AUTOMATION_LIMIT (planName planId) of Some l \<Rightarrow> l | None \<Rightarrow> Some 0)"

definition canMakeArtifact :: "string option \<Rightarrow> string option \<Rightarrow> bool" where
  "canMakeArtifact planId artifact =
     (if \<not> nonempty artifact then True
      else str_of artifact \<in> set (case map_of ARTIFACTS_BY_PLAN (planName planId) of Some as \<Rightarrow> as | None \<Rightarrow> []))"

definition normalizePlanId :: "string option \<Rightarrow> string" where
  "normalizePlanId input =
     (let s = to_lower (str_of input) in
      if s \<in> set PLAN_IDS then s
      else (case map_of LEGACY_PLAN_IDS s of Some p \<Rightarrow> p | None \<Rightarrow> ''api''))"

definition BACKFILL_WINDOW_DAYS :: "(string \<times> int) list" where
  "BACKFILL_WINDOW_DAYS = [(''api'', 90), (''custom'', 90)]"

definition backfillCutoffMsForPlan :: "int \<Rightarrow> string option \<Rightarrow> int option" where
  "backfillCutoffMsForPlan now planId = (case map_of BACKFILL_WINDOW_DAYS (normalizePlanId planId) of
      None \<Rightarrow> None | Some days \<Rightarrow> if days = 0 then None else Some (now - days * day_ms))"

section \<open>Features and the table\<close>

definition kv_spread :: "(string \<times> bool) list \<Rightarrow> (string \<times> bool) list \<Rightarrow> (string \<times> bool) list" where
  "kv_spread a b = fold (\<lambda>(k, v) m. jm_set m k v) b a"

definition GRAPH :: "(string \<times> bool) list" where
  "GRAPH = map (\<lambda>k. (k, True))
     [''activities'', ''accounts'', ''icp'', ''graph'', ''integrations'', ''install'', ''webhooks'',
      ''foundations'', ''adoption'', ''contextualization'', ''icpScoring'', ''forecasting'',
      ''linkedinEngagement'', ''publicSignalExtraction'', ''leadLists'', ''crmSync'', ''tasks'',
      ''automations'', ''knowledge''] @ [(''revboxes'', False)]"

definition TEAM :: "(string \<times> bool) list" where
  "TEAM = map (\<lambda>k. (k, True)) [''inAppAgent'', ''skills'', ''ownPostgres'', ''slack'']"

definition TEAM_OFF :: "(string \<times> bool) list" where
  "TEAM_OFF = map (\<lambda>(k, _). (k, False)) TEAM"

definition API_TIER_OFF :: "(string \<times> bool) list" where
  "API_TIER_OFF = [(''tasks'', False)]"

record plan =
  p_id :: string
  p_name :: string
  p_monthlyPriceUsd :: "rat option"
  p_aiCreditsPerMonth :: "rat option"
  p_hardCreditCap :: bool
  p_activeAccountsLimit :: "int option"
  p_includedOpsPerMonth :: "int option"
  p_linkedinProfiles :: "int option"
  p_enrichmentsPerMonth :: int
  p_workspaceLimit :: "int option"
  p_stripePriceEnv :: "string option"
  p_features :: "(string \<times> bool) list"
  p_supportTier :: string

definition plan_api :: plan where
  "plan_api = \<lparr>p_id = ''api'', p_name = ''Nous'', p_monthlyPriceUsd = Some 49, p_aiCreditsPerMonth = Some 960,
     p_hardCreditCap = False, p_activeAccountsLimit = Some 10000, p_includedOpsPerMonth = None,
     p_linkedinProfiles = Some 3, p_enrichmentsPerMonth = 0, p_workspaceLimit = Some 5,
     p_stripePriceEnv = Some ''STRIPE_SELF_SERVE_49_PRICE_ID'',
     p_features = kv_spread (kv_spread (kv_spread GRAPH TEAM_OFF) API_TIER_OFF) [(''insights'', True)],
     p_supportTier = ''priority''\<rparr>"

definition plan_free :: plan where
  "plan_free = \<lparr>p_id = ''free'', p_name = ''Free'', p_monthlyPriceUsd = Some 0, p_aiCreditsPerMonth = Some 500,
     p_hardCreditCap = True, p_activeAccountsLimit = Some 10000, p_includedOpsPerMonth = None,
     p_linkedinProfiles = Some 1, p_enrichmentsPerMonth = 0, p_workspaceLimit = Some 1, p_stripePriceEnv = None,
     p_features = kv_spread (kv_spread (kv_spread GRAPH TEAM_OFF) API_TIER_OFF) [(''insights'', True)],
     p_supportTier = ''standard''\<rparr>"

definition plan_custom :: plan where
  "plan_custom = \<lparr>p_id = ''custom'', p_name = ''Custom'', p_monthlyPriceUsd = None, p_aiCreditsPerMonth = None,
     p_hardCreditCap = False, p_activeAccountsLimit = None, p_includedOpsPerMonth = None,
     p_linkedinProfiles = None, p_enrichmentsPerMonth = 0, p_workspaceLimit = None, p_stripePriceEnv = None,
     p_features = kv_spread (kv_spread GRAPH TEAM) [(''insights'', True), (''revboxes'', True)],
     p_supportTier = ''priority''\<rparr>"

definition PLANS :: "(string \<times> plan) list" where
  "PLANS = [(''api'', plan_api), (''free'', plan_free), (''custom'', plan_custom)]"

definition getPlan :: "string option \<Rightarrow> plan" where
  "getPlan planId = the (map_of PLANS (normalizePlanId planId))"

definition TIER_BY_PLAN_ID :: "(string \<times> string) list" where
  "TIER_BY_PLAN_ID = [(''api'', ''api''), (''custom'', ''custom''), (''free'', ''api'')]"

definition planTier :: "string option \<Rightarrow> string" where
  "planTier pid = (case map_of TIER_BY_PLAN_ID (normalizePlanId pid) of Some t \<Rightarrow> t | None \<Rightarrow> ''api'')"

definition isApiTier :: "string option \<Rightarrow> bool" where
  "isApiTier pid = (planTier pid = ''api'')"

definition PAYWALL :: bool where "PAYWALL = False"

definition hasFeature :: "string option \<Rightarrow> string \<Rightarrow> bool" where
  "hasFeature planId feature = (if \<not> PAYWALL then True
     else (case map_of (p_features (getPlan planId)) feature of Some v \<Rightarrow> v | None \<Rightarrow> False))"

section \<open>Sizes and prices\<close>

type_synonym env = "string \<Rightarrow> string option"

record size =
  sz_credits :: rat
  sz_priceUsd :: rat
  sz_priceEnv :: string

definition mk_size :: "rat \<Rightarrow> rat \<Rightarrow> string \<Rightarrow> size" where
  "mk_size c p e = \<lparr>sz_credits = c, sz_priceUsd = p, sz_priceEnv = e\<rparr>"

definition CREDIT_SIZES :: "size list" where
  "CREDIT_SIZES =
    [mk_size 1000 49 ''STRIPE_CREDITS_1000_PRICE_ID'', mk_size 2000 99 ''STRIPE_CREDITS_2000_PRICE_ID'',
     mk_size 4000 199 ''STRIPE_CREDITS_4000_PRICE_ID'', mk_size 10000 499 ''STRIPE_CREDITS_10000_PRICE_ID'']"

definition RETIRED_SIZES :: "size list" where
  "RETIRED_SIZES =
    [mk_size 2000 79 ''STRIPE_STARTER_79_PRICE_ID'', mk_size 4000 149 ''STRIPE_STARTER_149_PRICE_ID'',
     mk_size 8000 249 ''STRIPE_STARTER_249_PRICE_ID'']"

definition SELF_SERVE_TIERS :: "size list" where
  "SELF_SERVE_TIERS =
    [mk_size 960 49 ''STRIPE_SELF_SERVE_49_PRICE_ID'', mk_size 2000 99 ''STRIPE_SELF_SERVE_99_PRICE_ID'',
     mk_size 4000 199 ''STRIPE_SELF_SERVE_199_PRICE_ID'', mk_size 6000 299 ''STRIPE_SELF_SERVE_299_PRICE_ID'',
     mk_size 10000 499 ''STRIPE_SELF_SERVE_499_PRICE_ID'']"

definition offeredSizes :: "env \<Rightarrow> size list" where
  "offeredSizes env = filter (\<lambda>s. nonempty (env (sz_priceEnv s))) CREDIT_SIZES"

definition number_or_0 :: "jsval \<Rightarrow> rat" where
  "number_or_0 v = (case js_number v of Some n \<Rightarrow> n | None \<Rightarrow> 0)"

definition sizeForPurchase :: "env \<Rightarrow> jsval \<Rightarrow> size option" where
  "sizeForPurchase env credits =
     (let offered = offeredSizes env in
      if js_nullish credits \<or> credits = JStr [] then (case offered of [] \<Rightarrow> None | s # _ \<Rightarrow> Some s)
      else List.find (\<lambda>s. js_number credits = Some (sz_credits s)) offered)"

definition nextSizeAfter :: "env \<Rightarrow> rat \<Rightarrow> size option" where
  "nextSizeAfter env n = List.find (\<lambda>s. sz_credits s > n) (offeredSizes env)"

definition PLAN_FIT_HEADROOM :: rat where "PLAN_FIT_HEADROOM = 12 / 10"

datatype recommendation = NothingOnSale | CustomQuote | Recommend rat

definition recommendedSize :: "env \<Rightarrow> jsval \<Rightarrow> recommendation" where
  "recommendedSize env monthlyCredits =
     (let offered = offeredSizes env in
      if offered = [] then NothingOnSale
      else (let need = number_or_0 monthlyCredits * PLAN_FIT_HEADROOM in
        case List.find (\<lambda>s. sz_credits s \<ge> need) offered of Some s \<Rightarrow> Recommend (sz_credits s) | None \<Rightarrow> CustomQuote))"

definition ENTRY_TIER :: size where "ENTRY_TIER = hd SELF_SERVE_TIERS"

definition tierForCredits :: "jsval \<Rightarrow> size" where
  "tierForCredits credits = (case List.find (\<lambda>t. sz_credits t = number_or_0 credits) SELF_SERVE_TIERS of
     Some t \<Rightarrow> t | None \<Rightarrow> ENTRY_TIER)"

definition tierForPriceId :: "env \<Rightarrow> string option \<Rightarrow> size option" where
  "tierForPriceId env priceId =
     (if \<not> nonempty priceId then None
      else List.find (\<lambda>t. env (sz_priceEnv t) = priceId) (CREDIT_SIZES @ RETIRED_SIZES @ SELF_SERVE_TIERS))"

definition planIdFromPriceId :: "env \<Rightarrow> string option \<Rightarrow> string option" where
  "planIdFromPriceId env priceId =
     (if \<not> nonempty priceId then None
      else if tierForPriceId env priceId \<noteq> None then Some ''api''
      else List.find (\<lambda>i. case p_stripePriceEnv (getPlan (Some i)) of None \<Rightarrow> False
             | Some e \<Rightarrow> nonempty (env e) \<and> env e = priceId) PLAN_IDS)"

section \<open>The trial and liveness\<close>

record subscription =
  su_plan_id :: "string option"
  su_plan_name :: "string option"
  su_status :: "string option"
  su_stripe_subscription_id :: "string option"
  su_stripe_price_id :: "string option"
  su_is_comp :: bool
  su_trial_ends_at :: "string option"
  su_past_due_since :: "string option"
  su_current_period_start :: "string option"
  su_current_period_end :: "string option"
  su_cancel_at_period_end :: bool

definition isNoCardTrial :: "subscription option \<Rightarrow> bool" where
  "isNoCardTrial sub = (case sub of None \<Rightarrow> False
     | Some s \<Rightarrow> su_status s = Some ''trialing'' \<and> \<not> nonempty (su_stripe_subscription_id s)
         \<and> \<not> su_is_comp s \<and> nonempty (su_trial_ends_at s))"

definition trialHasLapsed :: "subscription option \<Rightarrow> int \<Rightarrow> bool" where
  "trialHasLapsed sub now =
     (if \<not> isNoCardTrial sub then False
      else (case date_parse (str_of (su_trial_ends_at (the sub))) of None \<Rightarrow> True | Some e \<Rightarrow> e \<le> now))"

definition needsPlan :: "subscription option \<Rightarrow> int \<Rightarrow> bool" where
  "needsPlan sub now = (case sub of None \<Rightarrow> True
     | Some s \<Rightarrow>
         if nonempty (su_stripe_subscription_id s) then False
         else if trialHasLapsed sub now then True
         else su_status s = Some ''unpaid'')"

definition TRIAL_CREDITS :: rat where "TRIAL_CREDITS = 500"
definition PAST_DUE_GRACE_DAYS :: int where "PAST_DUE_GRACE_DAYS = 7"

record trial_view =
  tv_endsAt :: "string option"
  tv_daysLeft :: int
  tv_ended :: bool

text \<open>The days left of an end that does not parse are never shown: the trial counts as ended.\<close>

definition trialState :: "subscription option \<Rightarrow> int \<Rightarrow> trial_view option" where
  "trialState sub now =
     (if \<not> isNoCardTrial sub then None
      else (let e = su_trial_ends_at (the sub);
                ended = trialHasLapsed sub now;
                left = (case date_parse (str_of e) of None \<Rightarrow> 0
                        | Some t \<Rightarrow> \<lceil>(of_int (t - now) / of_int day_ms) :: rat\<rceil>)
            in Some \<lparr>tv_endsAt = e, tv_daysLeft = (if ended then 0 else max 1 left), tv_ended = ended\<rparr>))"

definition pastDueGraceFrom :: "subscription \<Rightarrow> int option" where
  "pastDueGraceFrom s = (case ms_of (su_past_due_since s) of Some t \<Rightarrow> Some t | None \<Rightarrow> ms_of (su_current_period_end s))"

definition planIsLive :: "subscription option \<Rightarrow> int \<Rightarrow> bool" where
  "planIsLive sub now = (case sub of None \<Rightarrow> False
     | Some s \<Rightarrow>
         if su_is_comp s then True
         else if trialHasLapsed sub now then False
         else if su_status s \<in> {Some ''active'', Some ''trialing'', Some ''trial''} then True
         else if su_status s = Some ''past_due'' then
           (case pastDueGraceFrom s of None \<Rightarrow> False | Some from \<Rightarrow> now \<le> from + PAST_DUE_GRACE_DAYS * day_ms)
         else False)"

definition pastDueGraceUntil :: "subscription option \<Rightarrow> int \<Rightarrow> int option" where
  "pastDueGraceUntil sub now = (case sub of None \<Rightarrow> None
     | Some s \<Rightarrow>
         if su_status s \<noteq> Some ''past_due'' \<or> su_is_comp s \<or> \<not> planIsLive sub now then None
         else map_option (\<lambda>from. from + PAST_DUE_GRACE_DAYS * day_ms) (pastDueGraceFrom s))"

record past_due_patch =
  pd_past_due_since :: "string option"
  pd_onlyIfNull :: bool

definition pastDueSincePatch :: "string option \<Rightarrow> int \<Rightarrow> past_due_patch" where
  "pastDueSincePatch status now =
     (if status = Some ''past_due'' then \<lparr>pd_past_due_since = Some (iso_of now), pd_onlyIfNull = True\<rparr>
      else \<lparr>pd_past_due_since = None, pd_onlyIfNull = False\<rparr>)"

text \<open>The webhook's update with that patch and filter.\<close>

definition apply_past_due :: "string option \<Rightarrow> int \<Rightarrow> subscription \<Rightarrow> subscription" where
  "apply_past_due status now s =
     (let p = pastDueSincePatch status now; s' = s\<lparr>su_status := status\<rparr> in
      if pd_onlyIfNull p \<and> su_past_due_since s' \<noteq> None then s'
      else s'\<lparr>su_past_due_since := pd_past_due_since p\<rparr>)"

definition planMayBackfill :: "subscription option \<Rightarrow> int \<Rightarrow> bool" where
  "planMayBackfill sub now =
     (if \<not> planIsLive sub now then False
      else if su_is_comp (the sub) then True
      else if isNoCardTrial sub then False
      else normalizePlanId (su_plan_id (the sub)) \<noteq> ''free'')"

datatype not_live = TrialEnded | NoPlan | PaymentFailed | Canceled

definition notLiveReason :: "subscription option \<Rightarrow> int \<Rightarrow> not_live option" where
  "notLiveReason sub now =
     (if planIsLive sub now then None
      else if trialHasLapsed sub now then Some TrialEnded
      else if needsPlan sub now then Some NoPlan
      else if Option.bind sub su_status = Some ''past_due'' then Some PaymentFailed
      else if Option.bind sub su_status = Some ''canceled''
        \<or> (case sub of None \<Rightarrow> False | Some s \<Rightarrow> su_cancel_at_period_end s) then Some Canceled
      else Some NoPlan)"

definition withTier :: "env \<Rightarrow> plan \<Rightarrow> subscription \<Rightarrow> plan" where
  "withTier env p s =
     (if p_id p \<noteq> ''api'' then p
      else (case tierForPriceId env (su_stripe_price_id s) of None \<Rightarrow> p
        | Some t \<Rightarrow> p\<lparr>p_monthlyPriceUsd := Some (sz_priceUsd t), p_aiCreditsPerMonth := Some (sz_credits t)\<rparr>))"

definition getPlanFromSubscription :: "env \<Rightarrow> subscription option \<Rightarrow> int \<Rightarrow> plan" where
  "getPlanFromSubscription env sub now = (case sub of None \<Rightarrow> plan_api
     | Some s \<Rightarrow>
         if su_status s = Some ''canceled'' \<or> su_status s = Some ''incomplete_expired'' then plan_api
         else if su_status s = Some ''past_due'' \<and> \<not> planIsLive sub now then plan_api
         else if isNoCardTrial sub then
           (if planIsLive sub now
            then plan_api\<lparr>p_monthlyPriceUsd := Some 0, p_aiCreditsPerMonth := Some TRIAL_CREDITS, p_hardCreditCap := True\<rparr>
            else plan_api)
         else withTier env (getPlan (opt_or (su_plan_id s) (su_plan_name s))) s)"

section \<open>The billing period\<close>

definition utc_year_month_day :: "int \<Rightarrow> int \<times> int \<times> int" where
  "utc_year_month_day t = civil_from_days (t div day_ms)"

definition last_day_of_month :: "int \<Rightarrow> int \<Rightarrow> int" where
  "last_day_of_month y m = snd (snd (utc_year_month_day (date_utc y (m + 1) 0 0 0 0)))"

text \<open>The anchor moved on by \<open>n\<close> months, the day clamped to the length of the month.\<close>

definition plus_months :: "int \<Rightarrow> nat \<Rightarrow> int" where
  "plus_months anchor n =
     (let (y, m0, d) = utc_year_month_day anchor; m = m0 + int n
      in date_utc y m (min d (last_day_of_month y m)) 0 0 0 + anchor mod day_ms)"

primrec months_back :: "int \<Rightarrow> int \<Rightarrow> nat \<Rightarrow> nat" where
  "months_back anchor now 0 = 0"
| "months_back anchor now (Suc n) =
     (if plus_months anchor (Suc n) > now then months_back anchor now n else Suc n)"

definition month_diff :: "int \<Rightarrow> int \<Rightarrow> int" where
  "month_diff anchor now =
     (let (ya, ma, _) = utc_year_month_day anchor; (yn, mn, _) = utc_year_month_day now
      in (yn - ya) * 12 + (mn - ma))"

definition periodStartFor :: "subscription option \<Rightarrow> int \<Rightarrow> int" where
  "periodStartFor sub now =
     (case Option.bind sub (\<lambda>s. ms_of (su_current_period_start s)) of
        None \<Rightarrow> (let (y, m, _) = utc_year_month_day now in date_utc y m 1 0 0 0)
      | Some anchor \<Rightarrow>
          if (case Option.bind sub (\<lambda>s. ms_of (su_current_period_end s)) of None \<Rightarrow> False | Some e \<Rightarrow> e > now)
          then anchor
          else if anchor > now then anchor
          else plus_months anchor (months_back anchor now (nat (month_diff anchor now))))"

section \<open>Plan ids resolve to a plan we sell\<close>

lemma normalizePlanId_known: "normalizePlanId pid \<in> set PLAN_IDS"
proof -
  have "map_of LEGACY_PLAN_IDS s = Some v \<Longrightarrow> v \<in> set PLAN_IDS" for s v
    by (auto simp: LEGACY_PLAN_IDS_def PLAN_IDS_def split: if_splits)
  then show ?thesis
    by (auto simp: normalizePlanId_def Let_def PLAN_IDS_def split: option.splits)
qed

lemma normalizePlanId_idem: "normalizePlanId (Some (normalizePlanId pid)) = normalizePlanId pid"
proof -
  have "s \<in> set PLAN_IDS \<Longrightarrow> to_lower s = s" for s
    unfolding PLAN_IDS_def by (auto simp: to_lower_def lower_char_def)
  then show ?thesis
    using normalizePlanId_known [of pid] by (simp add: normalizePlanId_def Let_def)
qed

lemma getPlan_id: "p_id (getPlan pid) = normalizePlanId pid"
  using normalizePlanId_known [of pid]
  by (auto simp: getPlan_def PLANS_def PLAN_IDS_def plan_api_def plan_free_def plan_custom_def)

section \<open>Liveness\<close>

lemma trial_lapse_mono: "trialHasLapsed sub t \<Longrightarrow> t \<le> t' \<Longrightarrow> trialHasLapsed sub t'"
  by (auto simp: trialHasLapsed_def split: option.splits if_splits)

lemma live_antimono: "planIsLive sub t \<Longrightarrow> t' \<le> t \<Longrightarrow> planIsLive sub t'"
  using trial_lapse_mono [of sub t' t]
  by (auto simp: planIsLive_def split: option.splits if_splits)

lemma past_due_not_trial: "su_status s = Some ''past_due'' \<Longrightarrow> \<not> trialHasLapsed (Some s) t"
  by (simp add: trialHasLapsed_def isNoCardTrial_def)

text \<open>A subscription row goes from live to not live once and never back by the clock alone; a failed
  card is live exactly up to the instant the page shows as the end of its grace; a reason for not
  reading is given exactly when the row is not live; and a history backfill needs a live row that
  is comped or on a paid plan.\<close>

theorem liveness_is_one_switch:
  "(\<forall>t t'. planIsLive sub t \<and> t' \<le> t \<longrightarrow> planIsLive sub t')
   \<and> (\<forall>now u. pastDueGraceUntil sub now = Some u \<longrightarrow> now \<le> u \<and> (\<forall>t. planIsLive sub t \<longleftrightarrow> t \<le> u))
   \<and> (\<forall>now. notLiveReason sub now = None \<longleftrightarrow> planIsLive sub now)
   \<and> (\<forall>now. planMayBackfill sub now \<longleftrightarrow> planIsLive sub now \<and> (su_is_comp (the sub)
        \<or> \<not> isNoCardTrial sub \<and> normalizePlanId (su_plan_id (the sub)) \<noteq> ''free''))"
proof (intro conjI allI impI)
  fix now u assume g: "pastDueGraceUntil sub now = Some u"
  then obtain s g where s: "sub = Some s" "su_status s = Some ''past_due''" "\<not> su_is_comp s"
    "pastDueGraceFrom s = Some g" "u = g + PAST_DUE_GRACE_DAYS * day_ms" and live: "planIsLive sub now"
    by (auto simp: pastDueGraceUntil_def split: option.splits if_splits)
  have iff: "planIsLive sub t \<longleftrightarrow> t \<le> u" for t
    using s past_due_not_trial [OF s(2)] by (simp add: planIsLive_def)
  then show "planIsLive sub t \<longleftrightarrow> t \<le> u" for t .
  show "now \<le> u" using live iff by simp
qed (auto simp: live_antimono notLiveReason_def planMayBackfill_def)

definition demo_sub :: subscription where
  "demo_sub = \<lparr>su_plan_id = Some ''api'', su_plan_name = None, su_status = Some ''past_due'',
     su_stripe_subscription_id = Some ''sub_1'', su_stripe_price_id = None, su_is_comp = False,
     su_trial_ends_at = None, su_past_due_since = Some ''2026-03-14T00:00:00Z'',
     su_current_period_start = Some ''2026-01-31T00:00:00Z'', su_current_period_end = None,
     su_cancel_at_period_end = False\<rparr>"

lemma demo_sub_grace: "pastDueGraceUntil (Some demo_sub) 1773446400000 = Some (1773446400000 + 7 * day_ms)"
  by code_simp

theorem liveness_is_one_switch_witness:
  "planIsLive (Some demo_sub) (1773446400000 + 7 * day_ms) \<and> \<not> planIsLive (Some demo_sub) (1773446400001 + 7 * day_ms)"
  using liveness_is_one_switch [of "Some demo_sub"] demo_sub_grace by fastforce

section \<open>The stamp of a failed payment\<close>

text \<open>Status writes arrive in order; \<open>run_statuses\<close> applies them.\<close>

definition run_statuses :: "(string option \<times> int) list \<Rightarrow> subscription \<Rightarrow> subscription" where
  "run_statuses evs s = fold (\<lambda>(st, now). apply_past_due st now) evs s"

lemma apply_past_due_clears: "st \<noteq> Some ''past_due'' \<Longrightarrow> su_past_due_since (apply_past_due st now s) = None"
  by (simp add: apply_past_due_def pastDueSincePatch_def Let_def)

lemma apply_past_due_keeps:
  "su_past_due_since s = Some x \<Longrightarrow> su_past_due_since (apply_past_due (Some ''past_due'') now s) = Some x"
  by (simp add: apply_past_due_def pastDueSincePatch_def Let_def)

lemma streak_keeps:
  "\<forall>(st, _) \<in> set evs. st = Some ''past_due'' \<Longrightarrow> su_past_due_since s = Some x \<Longrightarrow>
   su_past_due_since (run_statuses evs s) = Some x"
  unfolding run_statuses_def
  by (induction evs arbitrary: s) (auto simp: apply_past_due_keeps)

text \<open>The grace runs from the first failure: however often the payment is retried and fails again, the
  stamp stays the time of the first failure of the streak, and any other status clears it.\<close>

theorem grace_from_first_failure:
  assumes before: "fst e \<noteq> Some ''past_due''" and streak: "\<forall>(st, _) \<in> set retries. st = Some ''past_due''"
  shows "su_past_due_since (run_statuses (evs @ [e, (Some ''past_due'', t)] @ retries) s) = Some (iso_of t)"
    (is "?L = _")
proof -
  let ?s1 = "run_statuses (evs @ [e]) s"
  have "su_past_due_since ?s1 = None"
    using before by (cases e) (simp add: run_statuses_def apply_past_due_clears)
  then have "su_past_due_since (apply_past_due (Some ''past_due'') t ?s1) = Some (iso_of t)"
    by (simp add: apply_past_due_def pastDueSincePatch_def Let_def)
  from streak_keeps [OF streak this] show ?thesis
    by (cases e) (simp add: run_statuses_def)
qed

theorem grace_from_first_failure_witness:
  "su_past_due_since (run_statuses ([] @ [(Some ''active'', 0), (Some ''past_due'', 1773446400000)]
      @ [(Some ''past_due'', 1773532800000)]) demo_sub) = Some (iso_of 1773446400000)"
  by (rule grace_from_first_failure) simp_all

section \<open>The billing period\<close>

lemma months_back_spec:
  "months_back a now n \<le> n
   \<and> (months_back a now n = 0 \<or> plus_months a (months_back a now n) \<le> now)
   \<and> (\<forall>k. months_back a now n < k \<and> k \<le> n \<longrightarrow> now < plus_months a k)"
proof (induction n)
  case (Suc n)
  then show ?case by (auto simp: le_Suc_eq)
qed simp

text \<open>A subscription whose paid period has run out rolls its anchor forward by whole months: the period
  starts at the latest monthly anniversary that is not in the future, so an allowance resets every
  month and is never counted from the day the plan was assigned.\<close>

theorem period_is_latest_anniversary:
  assumes anchor: "ms_of (su_current_period_start s) = Some a" and past: "a \<le> now"
    and over: "\<forall>e. ms_of (su_current_period_end s) = Some e \<longrightarrow> e \<le> now"
  shows "\<exists>n. periodStartFor (Some s) now = plus_months a n \<and> int n \<le> max 0 (month_diff a now)
    \<and> (n = 0 \<or> plus_months a n \<le> now)
    \<and> (\<forall>k. n < k \<and> int k \<le> month_diff a now \<longrightarrow> now < plus_months a k)"
proof -
  let ?n = "months_back a now (nat (month_diff a now))"
  have "periodStartFor (Some s) now = plus_months a ?n"
    using assms by (auto simp: periodStartFor_def split: option.splits)
  moreover note months_back_spec [of a now "nat (month_diff a now)"]
  ultimately show ?thesis by (intro exI [of _ ?n]) (auto simp: le_nat_iff)
qed

lemma demo_sub_anchor: "ms_of (su_current_period_start demo_sub) = Some 1769817600000"
  "ms_of (su_current_period_end demo_sub) = None"
  by code_simp+

text \<open>31 January rolls to 28 February and back to 31 March.\<close>

theorem period_is_latest_anniversary_witness:
  "\<exists>n. periodStartFor (Some demo_sub) 1772323200000 = plus_months 1769817600000 n
     \<and> int n \<le> max 0 (month_diff 1769817600000 1772323200000)
     \<and> (n = 0 \<or> plus_months 1769817600000 n \<le> 1772323200000)"
  using period_is_latest_anniversary [of demo_sub 1769817600000 1772323200000] by (simp add: demo_sub_anchor) blast

end
