(* ===== verification/Backfill.thy ===== *)
theory Backfill
  imports Plans
begin

text \<open>
  What a history backfill costs and whether it runs: \<^verbatim>\<open>apps/api/src/lib/backfillBudget.mjs\<close>
  (pricing and the one pool per workspace) and \<^verbatim>\<open>apps/worker/src/utils/credits.mjs\<close> (the
  credit state of a running job). Counts are payload values, converted as the code converts them;
  dollars are exact decimals.
\<close>

section \<open>Prices (backfillBudget.mjs)\<close>

definition CREDIT_SCALE :: rat where "CREDIT_SCALE = 2"

definition CREDITS_PER_UNIT :: "(string \<times> rat) list" where
  "CREDITS_PER_UNIT = [(''meeting'', 3 * CREDIT_SCALE), (''call'', 1 * CREDIT_SCALE),
     (''email_thread'', 1 * CREDIT_SCALE), (''note'', 0)]"

definition UNIT_COST_USD :: "(string \<times> rat) list" where
  "UNIT_COST_USD = [(''meeting'', 61 / 1000), (''call'', 137 / 10000), (''email_thread'', 48 / 10000), (''note'', 0)]"

definition creditsForMeeting :: "jsval \<Rightarrow> rat" where
  "creditsForMeeting minutes = (case js_number minutes of
      None \<Rightarrow> 3 * CREDIT_SCALE
    | Some m \<Rightarrow> if m \<le> 0 then 3 * CREDIT_SCALE else CREDIT_SCALE * of_int (max 1 \<lceil>m / 10\<rceil>))"

definition BACKFILL_CEILING_USD :: "(string \<times> rat option) list" where
  "BACKFILL_CEILING_USD = [(''api'', Some 25), (''custom'', None)]"

definition CREDITS_PER_RECORD_30D :: rat where "CREDITS_PER_RECORD_30D = 19 / 100 * CREDIT_SCALE"

definition BACKFILL_CREDITS :: "(string \<times> rat option) list" where
  "BACKFILL_CREDITS = [(''api'', Some (3000 * CREDIT_SCALE)), (''custom'', None)]"

text \<open>\<^verbatim>\<open>Object.hasOwn(t, id) ? t[id] : t.api\<close>.\<close>

definition own_or_api :: "(string \<times> rat option) list \<Rightarrow> string \<Rightarrow> rat option" where
  "own_or_api t i = (case map_of t i of Some v \<Rightarrow> v | None \<Rightarrow> (case map_of t ''api'' of Some v \<Rightarrow> v | None \<Rightarrow> None))"

definition backfillAllowanceForPlan :: "string option \<Rightarrow> rat option" where
  "backfillAllowanceForPlan planId = own_or_api BACKFILL_CREDITS (normalizePlanId planId)"

definition ceilingUsdForPlan :: "string option \<Rightarrow> rat option" where
  "ceilingUsdForPlan planId = own_or_api BACKFILL_CEILING_USD (normalizePlanId planId)"

definition round4 :: "rat \<Rightarrow> rat" where
  "round4 n = of_int (js_round (n * 10000)) / 10000"

record type_price =
  tp_conversations :: rat
  tp_credits :: rat
  tp_usd :: rat

record estimate =
  es_credits :: rat
  es_usd :: rat
  es_byType :: "(string \<times> type_price) list"

definition count_of :: "jsval \<Rightarrow> string \<Rightarrow> rat" where
  "count_of counts type = (case js_number (js_coalesce (js_prop counts type) (JNum 0)) of
     None \<Rightarrow> 0 | Some n \<Rightarrow> if n \<le> 0 then 0 else n)"

definition estimate_step :: "jsval \<Rightarrow> string \<times> rat \<Rightarrow> estimate \<Rightarrow> estimate" where
  "estimate_step counts tp e =
     (let (type, perUnit) = tp; n = count_of counts type in
      if n = 0 then e
      else (let c = n * perUnit; d = n * (case map_of UNIT_COST_USD type of Some u \<Rightarrow> u | None \<Rightarrow> 0)
        in \<lparr>es_credits = es_credits e + c, es_usd = es_usd e + d,
            es_byType = es_byType e @ [(type, \<lparr>tp_conversations = n, tp_credits = c, tp_usd = round4 d\<rparr>)]\<rparr>))"

definition estimateBackfill :: "jsval \<Rightarrow> estimate" where
  "estimateBackfill counts =
     (let e = fold (estimate_step counts) CREDITS_PER_UNIT \<lparr>es_credits = 0, es_usd = 0, es_byType = []\<rparr>
      in e\<lparr>es_usd := round4 (es_usd e)\<rparr>)"

definition projectCreditsFromRecords :: "jsval \<Rightarrow> rat \<Rightarrow> rat" where
  "projectCreditsFromRecords recordCount windowDays = (case js_number recordCount of
      None \<Rightarrow> 0
    | Some n \<Rightarrow> if n \<le> 0 then 0 else of_int (js_round (n * CREDITS_PER_RECORD_30D * (windowDays / 30))))"

section \<open>The gate\<close>

datatype basis = Counted | Projected

record budget =
  bu_credits :: rat
  bu_estimateUsd :: rat
  bu_ceilingUsd :: "rat option"
  bu_allowance :: "rat option"
  bu_pool :: "rat option"
  bu_poolUsed :: rat
  bu_byType :: "(string \<times> type_price) list"
  bu_basis :: basis
  bu_windowDays :: rat
  bu_planId :: string
  bu_ok :: bool
  bu_needsSupport :: bool

fun js_values :: "jsval \<Rightarrow> jsval list" where
  "js_values (JObj kvs) = map snd kvs"
| "js_values (JArr vs) = vs"
| "js_values _ = []"

definition has_counts :: "jsval \<Rightarrow> bool" where
  "has_counts counts = (js_truthy counts \<and> list_ex (\<lambda>v. case js_number v of None \<Rightarrow> False | Some n \<Rightarrow> 0 < n) (js_values counts))"

definition checkBackfillBudget :: "string option \<Rightarrow> jsval \<Rightarrow> jsval \<Rightarrow> rat \<Rightarrow> jsval \<Rightarrow> budget" where
  "checkBackfillBudget planId counts recordCount windowDays used =
     (let counted = has_counts counts;
          e = estimateBackfill counts;
          credits = (if counted then es_credits e else projectCreditsFromRecords recordCount windowDays);
          usd = (if counted then es_usd e else round4 (credits * (84 / 10000)));
          u = number_or_0 used;
          pool = backfillAllowanceForPlan planId;
          allowance = map_option (\<lambda>p. max 0 (p - u)) pool;
          needs = (case allowance of None \<Rightarrow> False | Some a \<Rightarrow> credits > a)
      in \<lparr>bu_credits = credits, bu_estimateUsd = usd, bu_ceilingUsd = ceilingUsdForPlan planId,
          bu_allowance = allowance, bu_pool = pool, bu_poolUsed = u,
          bu_byType = (if counted then es_byType e else []),
          bu_basis = (if counted then Counted else Projected), bu_windowDays = windowDays,
          bu_planId = normalizePlanId planId, bu_ok = (\<not> needs), bu_needsSupport = needs\<rparr>)"

section \<open>A running job (utils/credits.mjs)\<close>

definition BACKFILL_WINDOW_MAX_DAYS :: int where "BACKFILL_WINDOW_MAX_DAYS = 30"

record window =
  wi_from :: string
  wi_to :: string

definition backfillWindowOf :: "jsval \<Rightarrow> int \<Rightarrow> window option" where
  "backfillWindowOf job now =
     (let from = js_prop (js_prop job ''state'') ''started_at'' in
      case (if js_truthy from then date_parse (js_tostring from) else None) of
        None \<Rightarrow> None
      | Some start \<Rightarrow>
          if now > start + BACKFILL_WINDOW_MAX_DAYS * day_ms then None
          else Some \<lparr>wi_from = iso_of start, wi_to = iso_of now\<rparr>)"

text \<open>\<open>NotPriced\<close> is the code's \<^verbatim>\<open>undefined\<close>, \<open>NoLimit\<close> its null, \<open>Allow None\<close> a NaN.\<close>

datatype job_allowance = NotPriced | NoLimit | Allow "rat option"

definition js_has :: "jsval \<Rightarrow> string \<Rightarrow> bool" where
  "js_has v k = (case v of JObj kvs \<Rightarrow> map_of kvs k \<noteq> None | _ \<Rightarrow> False)"

definition backfillAllowanceOf :: "jsval \<Rightarrow> job_allowance" where
  "backfillAllowanceOf job =
     (let st = js_prop job ''state'';
          win = js_coalesce (js_prop st ''confirmed_window_days'') (js_prop job ''window_days'');
          e = (if win = JNum 30 \<and> js_truthy (js_prop st ''estimate_30'') then js_prop st ''estimate_30''
               else js_prop st ''estimate'')
      in if \<not> js_truthy e \<or> \<not> js_has e ''allowance'' then NotPriced
         else if js_prop e ''allowance'' = JNull then NoLimit
         else Allow (js_number (js_prop e ''allowance'')))"

datatype credit_kind = KNone | KSelfHosted | KBackfill | KMonth

text \<open>An ungated state has no remaining number: the code's is infinite.\<close>

record credit_state =
  cs_gated :: bool
  cs_remaining :: "rat option"
  cs_allowance :: "rat option"
  cs_used :: rat
  cs_kind :: credit_kind

definition cs_open :: "credit_kind \<Rightarrow> credit_state" where
  "cs_open k = \<lparr>cs_gated = False, cs_remaining = None, cs_allowance = None, cs_used = 0, cs_kind = k\<rparr>"

text \<open>\<open>tally\<close> is the backfill credits read inside the window, \<open>gate\<close> the month's answer (may we read,
  and the credits until a stop); \<open>None\<close> is a read that throws.\<close>

definition backfillCreditState ::
  "(window \<Rightarrow> rat option) \<Rightarrow> (bool \<times> rat option) option \<Rightarrow> bool \<Rightarrow> int \<Rightarrow> jsval \<Rightarrow> credit_state" where
  "backfillCreditState tally gate selfHosted now job =
     (if \<not> js_truthy (js_prop job ''workspace_id'') then cs_open KNone
      else if selfHosted then cs_open KSelfHosted
      else (case backfillWindowOf job now of
        Some w \<Rightarrow> (case backfillAllowanceOf job of
            NoLimit \<Rightarrow> cs_open KBackfill
          | NotPriced \<Rightarrow> cs_open KBackfill
          | Allow None \<Rightarrow> cs_open KBackfill
          | Allow (Some a) \<Rightarrow> (case tally w of None \<Rightarrow> cs_open KNone
              | Some used \<Rightarrow> \<lparr>cs_gated = True, cs_remaining = Some (max 0 (a - used)), cs_allowance = Some a,
                  cs_used = used, cs_kind = KBackfill\<rparr>))
      | None \<Rightarrow> (case gate of None \<Rightarrow> cs_open KNone
          | Some (allowed, untilStop) \<Rightarrow>
              if \<not> allowed then \<lparr>cs_gated = True, cs_remaining = Some 0, cs_allowance = None, cs_used = 0, cs_kind = KMonth\<rparr>
              else (case untilStop of
                  Some n \<Rightarrow> \<lparr>cs_gated = True, cs_remaining = Some n, cs_allowance = None, cs_used = 0, cs_kind = KMonth\<rparr>
                | None \<Rightarrow> cs_open KMonth))))"

definition BACKFILL_CREDIT_FLOOR :: rat where "BACKFILL_CREDIT_FLOOR = 5"

section \<open>The estimate\<close>

lemma count_of_ge: "0 \<le> count_of counts type"
  by (auto simp: count_of_def split: option.splits)

text \<open>The estimate is the sum over the priced types of count times price.\<close>

lemma estimate_step_credits:
  "es_credits (estimate_step counts (ty, per) e) = es_credits e + count_of counts ty * per"
  by (simp add: estimate_step_def Let_def)

lemma estimate_credits: "es_credits (estimateBackfill counts) =
    (\<Sum>(ty, per) \<leftarrow> CREDITS_PER_UNIT. count_of counts ty * per)"
  by (simp add: estimateBackfill_def Let_def CREDITS_PER_UNIT_def estimate_step_credits)

lemma estimate_credits_ge: "0 \<le> es_credits (estimateBackfill counts)"
  by (simp add: estimate_credits CREDITS_PER_UNIT_def count_of_ge CREDIT_SCALE_def)

lemma projected_ge: "0 \<le> w \<Longrightarrow> 0 \<le> projectCreditsFromRecords n w"
  by (auto simp: projectCreditsFromRecords_def CREDITS_PER_RECORD_30D_def CREDIT_SCALE_def
      intro!: js_round_ge [of 0, simplified] split: option.splits)

text \<open>A type the table does not price changes nothing.\<close>

lemma unpriced_ignored:
  assumes "type \<notin> fst ` set CREDITS_PER_UNIT"
  shows "estimateBackfill (JObj ((type, v) # kvs)) = estimateBackfill (JObj kvs)"
proof -
  have *: "count_of (JObj ((type, v) # kvs)) ty = count_of (JObj kvs) ty" if "ty \<in> fst ` set CREDITS_PER_UNIT" for ty
    using assms that by (auto simp: count_of_def)
  then have "estimate_step (JObj ((type, v) # kvs)) tp = estimate_step (JObj kvs) tp" if "tp \<in> set CREDITS_PER_UNIT" for tp
  proof -
    have "count_of (JObj ((type, v) # kvs)) (fst tp) = count_of (JObj kvs) (fst tp)" using that * by simp
    then show ?thesis by (intro ext) (simp only: estimate_step_def case_prod_unfold Let_def)
  qed
  then have "fold (estimate_step (JObj ((type, v) # kvs))) CREDITS_PER_UNIT e = fold (estimate_step (JObj kvs)) CREDITS_PER_UNIT e" for e
    by (intro fold_cong refl)
  then show ?thesis unfolding estimateBackfill_def by simp
qed

section \<open>One pool per workspace\<close>






text \<open>The gate is the plan's pool and nothing else: a request on a plan with a pool is refused exactly
  when its credits exceed what is left, a plan without one (Custom) is never refused, and an unknown
  plan id is held to the self-serve pool.\<close>

theorem backfill_gate_exact:
  "(bu_needsSupport (checkBackfillBudget planId counts recs w used) \<longleftrightarrow>
     (\<exists>p. backfillAllowanceForPlan planId = Some p
        \<and> bu_credits (checkBackfillBudget planId counts recs w used) > max 0 (p - number_or_0 used)))
   \<and> (backfillAllowanceForPlan planId = None \<longleftrightarrow> normalizePlanId planId = ''custom'')"
proof -
  have cust: "backfillAllowanceForPlan planId = None \<longleftrightarrow> normalizePlanId planId = ''custom''"
    using normalizePlanId_known [of planId]
    by (auto simp: backfillAllowanceForPlan_def own_or_api_def BACKFILL_CREDITS_def PLAN_IDS_def)
  show ?thesis
    unfolding cust [symmetric]
    by (cases "backfillAllowanceForPlan planId") (simp_all add: checkBackfillBudget_def Let_def)
qed

end
