(* ===== verification/Credits.thy ===== *)
theory Credits
  imports Backfill
begin

text \<open>
  The meters of \<^verbatim>\<open>apps/api/src/lib/plans.mjs\<close>: a team's credits for the period and the gate in
  front of every model call, and the two grace clocks. The database's answers (the enrichment jobs,
  the conversation counts, the team and subscription rows) are parameters, and \<open>None\<close> is a read
  that throws. Of a refusal the model keeps the code and which sentence is shown, not its wording.
\<close>

section \<open>The overage band\<close>

definition AI_CREDITS_WARN_PCT :: int where "AI_CREDITS_WARN_PCT = 90"
definition AI_CREDITS_GRACE_PCT :: int where "AI_CREDITS_GRACE_PCT = 120"

datatype meter_state = MOk | MWarn | MOver | MGrace | MRestricted

definition creditState :: "int \<Rightarrow> bool \<Rightarrow> meter_state" where
  "creditState pct enforced =
     (if enforced \<and> AI_CREDITS_GRACE_PCT \<le> pct then MRestricted
      else if 100 \<le> pct then MOver
      else if AI_CREDITS_WARN_PCT \<le> pct then MWarn
      else MOk)"

section \<open>Backfill windows\<close>

record job_row =
  jr_started_at :: string
  jr_done :: bool
  jr_updated_at :: string

definition job_window :: "int \<Rightarrow> job_row \<Rightarrow> window option" where
  "job_window now j = (case (date_parse (jr_started_at j), if jr_done j then date_parse (jr_updated_at j) else Some now) of
      (Some st, Some en) \<Rightarrow> Some \<lparr>wi_from = jr_started_at j, wi_to = iso_of (min (st + 30 * day_ms) en)\<rparr>
    | _ \<Rightarrow> None)"

fun all_some :: "'a option list \<Rightarrow> 'a list option" where
  "all_some [] = Some []"
| "all_some (x # xs) = (case (x, all_some xs) of (Some a, Some as) \<Rightarrow> Some (a # as) | _ \<Rightarrow> None)"

text \<open>A date that does not parse makes the conversion to text throw.\<close>

definition backfillWindowsFor :: "string list \<Rightarrow> job_row list \<Rightarrow> int \<Rightarrow> window list option" where
  "backfillWindowsFor wsIds jobs now = (if wsIds = [] then Some [] else all_some (map (job_window now) jobs))"

fun earliest_from :: "window list \<Rightarrow> string option" where
  "earliest_from ws = foldl (\<lambda>m w. case m of None \<Rightarrow> Some (wi_from w)
     | Some x \<Rightarrow> if x = [] \<or> wi_from w < x then Some (wi_from w) else Some x) None ws"

section \<open>A team's credits\<close>

record credit_count =
  cc_total :: rat
  cc_backfill :: rat

record meter_env =
  me_env :: env
  me_selfHosted :: bool
  me_billingOff :: bool
  me_workspaces :: "string list"
  me_jobs :: "job_row list"
  me_count :: "bool \<Rightarrow> string \<Rightarrow> window list \<Rightarrow> credit_count option"
  me_quote :: "rat option"

text \<open>\<open>me_count fresh from windows\<close>: the live count when \<open>fresh\<close>, the cached one otherwise.\<close>

record backfill_card =
  bc_used :: rat
  bc_allowance :: "rat option"
  bc_startedAt :: string

definition backfillState :: "plan \<Rightarrow> string option \<Rightarrow> rat \<Rightarrow> backfill_card option" where
  "backfillState p startedAt used =
     (if \<not> nonempty startedAt then None
      else Some \<lparr>bc_used = used, bc_allowance = backfillAllowanceForPlan (Some (p_id p)), bc_startedAt = str_of startedAt\<rparr>)"

record ai_credits =
  ac_plan :: plan
  ac_used :: rat
  ac_included :: "rat option"
  ac_hardCap :: bool
  ac_untilStop :: "rat option"
  ac_meterError :: bool
  ac_remaining :: "rat option"
  ac_unlimited :: bool
  ac_percentUsed :: int
  ac_state :: meter_state
  ac_needsPlan :: bool
  ac_notLiveReason :: "not_live option"
  ac_paymentFailed :: bool
  ac_graceUntil :: "int option"
  ac_free :: bool
  ac_trial :: "trial_view option"
  ac_nextTier :: "size option"
  ac_periodStart :: int
  ac_backfill :: "backfill_card option"

text \<open>The count of the period: (used, backfill used, meter error). A count that throws reads as zero.\<close>

definition meter_read ::
  "meter_env \<Rightarrow> bool \<Rightarrow> string \<Rightarrow> window list \<Rightarrow> rat \<times> rat \<times> bool" where
  "meter_read me hardCap period wins =
     (if me_workspaces me = [] then (0, 0, False)
      else (case me_count me hardCap period wins of
        None \<Rightarrow> (0, 0, True)
      | Some c \<Rightarrow>
          (let started = earliest_from wins in
           if nonempty started \<and> str_of started < period then
             (case me_count me False (str_of started) wins of
                None \<Rightarrow> (0, cc_backfill c, True)
              | Some c2 \<Rightarrow> (cc_total c, cc_backfill c2, False))
           else (cc_total c, cc_backfill c, False))))"

definition percent :: "rat \<Rightarrow> rat \<Rightarrow> int" where
  "percent used cap = (if cap = 0 then 0 else js_round (used / cap * 100))"

definition period_cap :: "plan \<Rightarrow> bool \<Rightarrow> rat option" where
  "period_cap p live = (if live then p_aiCreditsPerMonth p else Some 0)"

definition hard_cap :: "meter_env \<Rightarrow> plan \<Rightarrow> bool \<Rightarrow> bool" where
  "hard_cap me p live = (period_cap p live \<noteq> None \<and> \<not> me_selfHosted me \<and> p_hardCreditCap p)"

definition getTeamAiCredits :: "meter_env \<Rightarrow> subscription option \<Rightarrow> int \<Rightarrow> ai_credits option" where
  "getTeamAiCredits me sub now =
     (let p = getPlanFromSubscription (me_env me) sub now;
          periodStart = periodStartFor sub now;
          live = planIsLive sub now;
          periodCap = period_cap p live;
          hardCap = hard_cap me p live;
          unlimited = (\<not> hardCap \<and> (me_selfHosted me \<or> me_billingOff me \<or> p_aiCreditsPerMonth p = None))
      in case backfillWindowsFor (me_workspaces me) (me_jobs me) now of
        None \<Rightarrow> None
      | Some wins \<Rightarrow>
         let startedAt = earliest_from wins;
             (used, backfillUsed, meterError) = meter_read me hardCap (iso_of periodStart) wins
         in if p_id p = ''api'' \<or> p_id p = ''free'' then
              (let stopped = \<not> live;
                   cap = (case periodCap of None \<Rightarrow> 0 | Some c \<Rightarrow> c);
                   capStop = (p_hardCreditCap p \<and> \<not> stopped \<and> used \<ge> cap);
                   graceUntil = pastDueGraceUntil sub now;
                   pctApi = percent used cap;
                   top = (if hardCap then cap else of_int \<lceil>cap * of_int AI_CREDITS_GRACE_PCT / 100\<rceil>)
               in Some \<lparr>ac_plan = p, ac_used = used, ac_included = Some cap, ac_hardCap = hardCap,
                    ac_untilStop = (if me_selfHosted me then None else Some (max 0 (top - used))),
                    ac_meterError = meterError, ac_remaining = Some (max 0 (cap - used)),
                    ac_unlimited = me_selfHosted me, ac_percentUsed = pctApi,
                    ac_state = (if me_selfHosted me then MOk
                                else if stopped \<or> capStop then MRestricted else creditState pctApi True),
                    ac_needsPlan = stopped, ac_notLiveReason = notLiveReason sub now,
                    ac_paymentFailed = (graceUntil \<noteq> None), ac_graceUntil = graceUntil,
                    ac_free = (p_id p = ''free''), ac_trial = trialState sub now,
                    ac_nextTier = nextSizeAfter (me_env me) (if stopped \<or> p_hardCreditCap p then 0 else cap),
                    ac_periodStart = periodStart, ac_backfill = backfillState p startedAt backfillUsed\<rparr>)
            else
              (let shownCap = (if p_id p = ''custom'' then me_quote me else None);
                   included = (if unlimited then shownCap else periodCap);
                   enforced = \<not> unlimited;
                   pct = (case included of None \<Rightarrow> 0 | Some c \<Rightarrow> percent used c)
               in Some \<lparr>ac_plan = p, ac_used = used, ac_included = included, ac_hardCap = False,
                    ac_untilStop = None, ac_meterError = False,
                    ac_remaining = map_option (\<lambda>c. max 0 (c - used)) included,
                    ac_unlimited = \<not> enforced, ac_percentUsed = pct,
                    ac_state = (if included = None then MOk else creditState pct enforced),
                    ac_needsPlan = False, ac_notLiveReason = None, ac_paymentFailed = False, ac_graceUntil = None,
                    ac_free = False, ac_trial = None, ac_nextTier = None,
                    ac_periodStart = periodStart, ac_backfill = backfillState p startedAt backfillUsed\<rparr>))"

section \<open>The gate in front of every model call\<close>

text \<open>\<open>Inl ()\<close> is a lookup that throws; no team is \<open>None\<close>. Both answer unlimited.\<close>

datatype workspace_credits = Unlimited | Metered ai_credits

definition getWorkspaceAiCredits ::
  "(string \<Rightarrow> meter_env) \<Rightarrow> unit + string option \<Rightarrow> (string \<Rightarrow> unit + subscription option) \<Rightarrow> int \<Rightarrow> workspace_credits" where
  "getWorkspaceAiCredits me_of team subscription_of now =
     (case team of Inl _ \<Rightarrow> Unlimited
      | Inr t \<Rightarrow> if \<not> nonempty t then Unlimited
         else (case subscription_of (str_of t) of Inl _ \<Rightarrow> Unlimited
           | Inr sub \<Rightarrow> (case getTeamAiCredits (me_of (str_of t)) sub now of
               None \<Rightarrow> Unlimited | Some c \<Rightarrow> Metered c)))"

datatype sentence = SayPaymentFailed | SayCanceled | SayTrialEnded | SayChoosePlan
  | SayTrialUsed | SayCardFirst | SayMoveUp | SayTalkToUs

datatype refusal_402 = NotPaying not_live sentence | OverCreditLimit sentence

definition requireAiCredits :: "workspace_credits \<Rightarrow> refusal_402 option" where
  "requireAiCredits wc = (case wc of Unlimited \<Rightarrow> None
     | Metered c \<Rightarrow>
        if ac_unlimited c \<or> ac_state c \<noteq> MRestricted then None
        else if ac_needsPlan c then
          (let reason = (case ac_notLiveReason c of None \<Rightarrow> NoPlan | Some r \<Rightarrow> r)
           in Some (NotPaying reason (case reason of PaymentFailed \<Rightarrow> SayPaymentFailed | Canceled \<Rightarrow> SayCanceled
                | TrialEnded \<Rightarrow> SayTrialEnded | NoPlan \<Rightarrow> SayChoosePlan)))
        else Some (OverCreditLimit
          (if ac_trial c \<noteq> None then SayTrialUsed else if ac_paymentFailed c then SayCardFirst
           else if ac_nextTier c \<noteq> None then SayMoveUp else SayTalkToUs)))"

section \<open>The grace clocks\<close>

definition OPS_GRACE_DAYS :: int where "OPS_GRACE_DAYS = 3"
definition OPS_WARN_PCT :: int where "OPS_WARN_PCT = 80"

record clock_view =
  cv_state :: meter_state
  cv_percentUsed :: int
  cv_graceUntil :: "int option"

text \<open>One reading of a meter: its state and the persisted clock after it.\<close>

definition grace_reading :: "int \<Rightarrow> rat \<Rightarrow> rat \<Rightarrow> int option \<Rightarrow> clock_view \<times> int option" where
  "grace_reading now used included clock =
     (let pct = (if 0 < included then js_round (used / included * 100) else 0);
          over = (0 < included \<and> included \<le> used)
      in if \<not> over then
           (\<lparr>cv_state = (if OPS_WARN_PCT \<le> pct then MWarn else MOk), cv_percentUsed = pct, cv_graceUntil = None\<rparr>, None)
         else
           (let started = (case clock of None \<Rightarrow> now | Some t \<Rightarrow> t);
                graceUntil = started + OPS_GRACE_DAYS * day_ms
            in (\<lparr>cv_state = (if graceUntil \<le> now then MRestricted else MGrace), cv_percentUsed = pct,
                 cv_graceUntil = Some graceUntil\<rparr>, Some started)))"

text \<open>The accounts meter leaves the clock alone on a plan without a cap.\<close>

definition getTeamAccountsState :: "int \<Rightarrow> rat \<Rightarrow> rat option \<Rightarrow> int option \<Rightarrow> clock_view \<times> int option" where
  "getTeamAccountsState now used included clock = (case included of
      None \<Rightarrow> (\<lparr>cv_state = MOk, cv_percentUsed = 0, cv_graceUntil = None\<rparr>, clock)
    | Some i \<Rightarrow> grace_reading now used i clock)"

text \<open>The retrieval meter compares with a null allowance as with zero, and so clears its clock.\<close>

definition getTeamOpsState :: "int \<Rightarrow> rat \<Rightarrow> rat option \<Rightarrow> int option \<Rightarrow> clock_view \<times> int option" where
  "getTeamOpsState now used included clock =
     grace_reading now used (case included of None \<Rightarrow> 0 | Some i \<Rightarrow> i) clock"

definition accounts_included :: "bool \<Rightarrow> plan \<Rightarrow> int option" where
  "accounts_included selfHosted p = (if selfHosted then None else p_activeAccountsLimit p)"

record account_usage =
  au_used :: rat
  au_included :: "int option"
  au_remaining :: "rat option"

definition getTeamActiveAccounts :: "bool \<Rightarrow> plan \<Rightarrow> jsval option \<Rightarrow> account_usage" where
  "getTeamActiveAccounts selfHosted p cached =
     (let used = (case cached of None \<Rightarrow> 0 | Some v \<Rightarrow> number_or_0 v);
          included = accounts_included selfHosted p
      in \<lparr>au_used = used, au_included = included,
          au_remaining = map_option (\<lambda>i. max 0 (of_int i - used)) included\<rparr>)"

section \<open>When reading stops\<close>

lemma creditState_restricted: "creditState pct e = MRestricted \<longleftrightarrow> e \<and> 120 \<le> pct"
  by (simp add: creditState_def AI_CREDITS_GRACE_PCT_def)

lemma js_round_ge_iff: "n \<le> js_round x \<longleftrightarrow> of_int n - 1 / 2 \<le> x"
  unfolding js_round_def by linarith

definition credits_cap :: "meter_env \<Rightarrow> subscription option \<Rightarrow> int \<Rightarrow> rat" where
  "credits_cap me sub now = (case period_cap (getPlanFromSubscription (me_env me) sub now) (planIsLive sub now) of
     None \<Rightarrow> 0 | Some c \<Rightarrow> c)"

definition self_serve :: "meter_env \<Rightarrow> subscription option \<Rightarrow> int \<Rightarrow> bool" where
  "self_serve me sub now = (p_id (getPlanFromSubscription (me_env me) sub now) \<in> {''api'', ''free''})"

lemma team_credits_self_serve:
  assumes "getTeamAiCredits me sub now = Some c" and "self_serve me sub now"
  shows "ac_unlimited c = me_selfHosted me" and "ac_included c = Some (credits_cap me sub now)"
    and "ac_state c = (if me_selfHosted me then MOk
           else if \<not> planIsLive sub now \<or> p_hardCreditCap (ac_plan c) \<and> credits_cap me sub now \<le> ac_used c then MRestricted
           else creditState (percent (ac_used c) (credits_cap me sub now)) True)"
    and "ac_plan c = getPlanFromSubscription (me_env me) sub now"
    and "ac_untilStop c = (if me_selfHosted me then None else Some (max 0
          ((if hard_cap me (ac_plan c) (planIsLive sub now) then credits_cap me sub now
            else of_int \<lceil>credits_cap me sub now * 120 / 100\<rceil>) - ac_used c)))"
    and "ac_needsPlan c = (\<not> planIsLive sub now)" and "ac_notLiveReason c = notLiveReason sub now"
  using assms
  by (auto simp: getTeamAiCredits_def self_serve_def Let_def credits_cap_def AI_CREDITS_GRACE_PCT_def
      split: option.splits prod.splits)

text \<open>Self-serve reading stops in exactly three cases, and never on self-host: the subscription is not
  live, a plan that stops at its allowance has used it, or the rounded use has reached 120% of the
  allowance; between the allowance and that line the work goes on.\<close>

theorem self_serve_stops_exactly:
  assumes c: "getTeamAiCredits me sub now = Some c" and api: "self_serve me sub now"
  shows "requireAiCredits (Metered c) \<noteq> None \<longleftrightarrow>
    \<not> me_selfHosted me \<and> (\<not> planIsLive sub now
      \<or> p_hardCreditCap (ac_plan c) \<and> credits_cap me sub now \<le> ac_used c
      \<or> credits_cap me sub now \<noteq> 0 \<and> 239 / 2 \<le> ac_used c / credits_cap me sub now * 100)"
proof -
  have pct: "120 \<le> percent u k \<longleftrightarrow> k \<noteq> 0 \<and> 239 / 2 \<le> u / k * 100" for u k
    using js_round_ge_iff [of 120 "u / k * 100"] by (simp add: percent_def)
  have "requireAiCredits (Metered c) \<noteq> None \<longleftrightarrow> \<not> ac_unlimited c \<and> ac_state c = MRestricted"
    by (simp add: requireAiCredits_def Let_def)
  then show ?thesis
    unfolding team_credits_self_serve [OF c api] using pct by (simp add: creditState_restricted) blast
qed

definition demo_meter :: "credit_count option \<Rightarrow> meter_env" where
  "demo_meter cc = \<lparr>me_env = (\<lambda>_. None), me_selfHosted = False, me_billingOff = False, me_workspaces = [''w''],
     me_jobs = [], me_count = (\<lambda>_ _ _. cc), me_quote = None\<rparr>"

definition live_sub :: subscription where
  "live_sub = demo_sub\<lparr>su_status := Some ''active''\<rparr>"

definition demo_credits :: "rat \<Rightarrow> ai_credits option" where
  "demo_credits u = getTeamAiCredits (demo_meter (Some \<lparr>cc_total = u, cc_backfill = 0\<rparr>)) (Some live_sub) 1773446400000"

lemma live_sub_facts: "planIsLive (Some live_sub) t" "getPlanFromSubscription (\<lambda>_. None) (Some live_sub) t = plan_api"
  by (simp_all add: planIsLive_def live_sub_def demo_sub_def trialHasLapsed_def isNoCardTrial_def
      getPlanFromSubscription_def withTier_def tierForPriceId_def getPlan_def normalizePlanId_def PLANS_def
      PLAN_IDS_def to_lower_def lower_char_def)

lemma demo_credits_used: "demo_credits u = Some c \<Longrightarrow> ac_used c = u \<and> ac_plan c = plan_api"
  by (auto simp: demo_credits_def getTeamAiCredits_def demo_meter_def backfillWindowsFor_def meter_read_def
      live_sub_facts plan_api_def Let_def)

lemma demo_credits_ex: "\<exists>c. demo_credits u = Some c"
  by (simp add: demo_credits_def getTeamAiCredits_def demo_meter_def backfillWindowsFor_def meter_read_def
      live_sub_facts plan_api_def Let_def)

lemma demo_self_serve: "self_serve (demo_meter cc) (Some live_sub) t" "credits_cap (demo_meter cc) (Some live_sub) t = 960"
  by (simp_all add: self_serve_def credits_cap_def demo_meter_def live_sub_facts period_cap_def plan_api_def)

theorem self_serve_stops_exactly_witness:
  "(\<exists>c. demo_credits 1150 = Some c \<and> requireAiCredits (Metered c) \<noteq> None)
   \<and> (\<exists>c. demo_credits 1100 = Some c \<and> requireAiCredits (Metered c) = None)"
proof -
  obtain c d where c: "demo_credits 1150 = Some c" and d: "demo_credits 1100 = Some d"
    using demo_credits_ex by blast
  have "requireAiCredits (Metered c) \<noteq> None"
    using self_serve_stops_exactly [OF c [unfolded demo_credits_def] demo_self_serve(1)] demo_credits_used [OF c]
    by (simp add: demo_self_serve) (simp add: demo_meter_def)
  moreover have "requireAiCredits (Metered d) = None"
    using self_serve_stops_exactly [OF d [unfolded demo_credits_def] demo_self_serve(1)] demo_credits_used [OF d]
    by (simp add: demo_self_serve live_sub_facts plan_api_def)
  ultimately show ?thesis using c d by blast
qed

text \<open>The gate fails open: when the conversation count cannot be read, a live self-serve workspace with
  an allowance is not stopped; nor is any workspace whose team, subscription or windows cannot be
  read; and a quoted (Custom) plan is never stopped.\<close>

theorem credit_gate_fails_open:
  assumes down: "\<And>fresh from wins. me_count me fresh from wins = None"
    and live: "planIsLive sub now" and cap: "0 < credits_cap me sub now" and api: "self_serve me sub now"
  shows "requireAiCredits (getWorkspaceAiCredits (\<lambda>_. me) (Inr (Some t)) (\<lambda>_. Inr sub) now) = None"
proof (cases "getTeamAiCredits me sub now")
  case None
  then show ?thesis by (simp add: getWorkspaceAiCredits_def requireAiCredits_def)
next
  case (Some c)
  have "ac_used c = 0"
    using Some down by (auto simp: getTeamAiCredits_def meter_read_def Let_def split: option.splits if_splits)
  with self_serve_stops_exactly [OF Some api] live cap have "requireAiCredits (Metered c) = None"
    by auto
  with Some show ?thesis by (simp add: getWorkspaceAiCredits_def requireAiCredits_def)
qed

theorem credit_gate_fails_open_witness:
  "requireAiCredits (getWorkspaceAiCredits (\<lambda>_. demo_meter None) (Inr (Some ''t'')) (\<lambda>_. Inr (Some live_sub)) 0) = None"
  by (rule credit_gate_fails_open) (simp_all add: demo_self_serve live_sub_facts, simp add: demo_meter_def)

lemma custom_never_stopped:
  assumes "getTeamAiCredits me sub now = Some c" and "p_id (getPlanFromSubscription (me_env me) sub now) = ''custom''"
    and "p_aiCreditsPerMonth (getPlanFromSubscription (me_env me) sub now) = None" and "planIsLive sub now"
  shows "requireAiCredits (Metered c) = None"
  using assms
  by (auto simp: getTeamAiCredits_def Let_def requireAiCredits_def hard_cap_def period_cap_def
      split: option.splits prod.splits)

text \<open>A batch reader that stops at \<open>untilStop\<close> never reads past the gate's line: on a live self-serve
  plan with an allowance, no credits left means the gate is shut, and the number left is at most what
  remains of the band.\<close>

theorem until_stop_sound:
  assumes c: "getTeamAiCredits me sub now = Some c" and api: "self_serve me sub now"
    and host: "\<not> me_selfHosted me" and cap: "0 < credits_cap me sub now"
    and stop: "ac_untilStop c = Some n"
  shows "(n = 0 \<longrightarrow> requireAiCredits (Metered c) \<noteq> None) \<and> 0 \<le> n
    \<and> n < max 0 (credits_cap me sub now * 120 / 100 - ac_used c) + 1"
proof -
  let ?k = "credits_cap me sub now"
  let ?top = "if hard_cap me (ac_plan c) (planIsLive sub now) then ?k else of_int \<lceil>?k * 120 / 100\<rceil>"
  have n: "n = max 0 (?top - ac_used c)" using team_credits_self_serve(5) [OF c api] host stop by simp
  have top: "?top < ?k * 120 / 100 + 1" "?k \<le> ?top" using cap by (auto, linarith+)
  have "requireAiCredits (Metered c) \<noteq> None" if "n = 0"
  proof -
    have u: "?top \<le> ac_used c" using n that by simp
    show ?thesis
    proof (cases "hard_cap me (ac_plan c) (planIsLive sub now)")
      case True
      with u show ?thesis using self_serve_stops_exactly [OF c api] host by (simp add: hard_cap_def)
    next
      case False
      with u have "?k * 120 / 100 \<le> ac_used c" by (smt (verit) le_of_int_ceiling order_trans)
      then have "120 \<le> ac_used c / ?k * 100" using cap by (simp add: field_simps)
      then show ?thesis using self_serve_stops_exactly [OF c api] host cap by simp
    qed
  qed
  moreover have "n < max 0 (?k * 120 / 100 - ac_used c) + 1" using n top by auto
  ultimately show ?thesis using n by auto
qed

lemma demo_until_stop: "demo_credits 1152 = Some c \<Longrightarrow> ac_untilStop c = Some 0"
  using team_credits_self_serve(5) [of "demo_meter (Some \<lparr>cc_total = 1152, cc_backfill = 0\<rparr>)" "Some live_sub" 1773446400000 c]
    demo_credits_used [of 1152 c]
  by (simp add: demo_credits_def demo_self_serve hard_cap_def plan_api_def) (simp add: demo_meter_def)

theorem until_stop_sound_witness: "\<exists>c. demo_credits 1152 = Some c \<and> requireAiCredits (Metered c) \<noteq> None"
proof -
  obtain c where c: "demo_credits 1152 = Some c" using demo_credits_ex by blast
  have "\<not> me_selfHosted (demo_meter (Some \<lparr>cc_total = 1152, cc_backfill = 0\<rparr>))" by (simp add: demo_meter_def)
  with until_stop_sound [OF c [unfolded demo_credits_def] demo_self_serve(1) _ _ demo_until_stop [OF c]] c
  show ?thesis by (auto simp: demo_self_serve)
qed

text \<open>The gate rounds the percentage, so it shuts half a percent below the 120% the batch reader is told.\<close>

lemma gate_shuts_before_until_stop:
  assumes c: "demo_credits 1150 = Some c"
  shows "requireAiCredits (Metered c) \<noteq> None \<and> ac_untilStop c = Some 2"
proof
  show "requireAiCredits (Metered c) \<noteq> None"
    using self_serve_stops_exactly_witness c by auto
  show "ac_untilStop c = Some 2"
    using team_credits_self_serve(5) [OF c [unfolded demo_credits_def] demo_self_serve(1)] demo_credits_used [OF c]
    by (simp add: demo_self_serve hard_cap_def plan_api_def) (simp add: demo_meter_def)
qed

section \<open>The grace clocks\<close>

text \<open>Successive readings of one meter: (instant, used, included), and the clock they leave.\<close>

definition reading_over :: "int \<times> rat \<times> rat \<Rightarrow> bool" where
  "reading_over r = (case r of (_, used, included) \<Rightarrow> 0 < included \<and> included \<le> used)"

definition run_clock :: "(int \<times> rat \<times> rat) list \<Rightarrow> int option" where
  "run_clock rs = fold (\<lambda>(now, used, included) clock. snd (grace_reading now used included clock)) rs None"

lemma grace_clock: "snd (grace_reading now used included clock) =
    (if reading_over (now, used, included) then Some (case clock of None \<Rightarrow> now | Some t \<Rightarrow> t) else None)"
  by (simp add: grace_reading_def reading_over_def Let_def)

lemma run_clock_streak:
  "run_clock rs = Some s \<Longrightarrow> \<exists>pre used included suf.
     rs = pre @ (s, used, included) # suf \<and> (\<forall>r \<in> set ((s, used, included) # suf). reading_over r)"
proof (induction rs arbitrary: s rule: rev_induct)
  case Nil
  then show ?case by (simp add: run_clock_def)
next
  case (snoc r rs)
  obtain now used included where r: "r = (now, used, included)" by (cases r) auto
  from snoc.prems have over: "reading_over r"
    and s: "s = (case run_clock rs of None \<Rightarrow> now | Some t \<Rightarrow> t)"
    by (auto simp: run_clock_def r grace_clock split: if_splits)
  show ?case
  proof (cases "run_clock rs")
    case None
    with s over r show ?thesis by (intro exI [of _ rs] exI [of _ used] exI [of _ included] exI [of _ "[]"]) simp
  next
    case (Some t)
    with s snoc.IH [of t] obtain pre u i suf where "rs = pre @ (s, u, i) # suf"
      "\<forall>x \<in> set ((s, u, i) # suf). reading_over x" by auto
    with over show ?thesis by (intro exI [of _ pre] exI [of _ u] exI [of _ i] exI [of _ "suf @ [r]"]) auto
  qed
qed

text \<open>Crossing a cap never blocks at once: a meter turns restricted only when a reading at least three
  days earlier and every reading since were at or over the cap; one reading back under starts the
  grace afresh.\<close>

theorem restricted_needs_three_days:
  assumes st: "cv_state (fst (grace_reading now used included (run_clock rs))) = MRestricted"
  shows "\<exists>pre first u i suf. rs = pre @ (first, u, i) # suf \<and> first + 3 * day_ms \<le> now
    \<and> (\<forall>r \<in> set ((first, u, i) # suf @ [(now, used, included)]). reading_over r)"
proof -
  from st have over: "reading_over (now, used, included)" and "run_clock rs \<noteq> None"
    by (auto simp: grace_reading_def Let_def reading_over_def OPS_GRACE_DAYS_def split: if_splits option.splits)
  then obtain s where s: "run_clock rs = Some s" by blast
  with st have "s + 3 * day_ms \<le> now"
    by (auto simp: grace_reading_def Let_def OPS_GRACE_DAYS_def split: if_splits)
  with run_clock_streak [OF s] over show ?thesis by fastforce
qed

theorem restricted_needs_three_days_witness:
  "\<exists>pre first u i suf. [(0 :: int, 5 :: rat, 10 :: rat), (1000, 12, 10)] = pre @ (first, u, i) # suf \<and> first + 3 * day_ms \<le> 4 * day_ms"
proof -
  have "cv_state (fst (grace_reading (4 * day_ms) 11 10 (run_clock [(0, 5, 10), (1000, 12, 10)]))) = MRestricted"
    by (simp add: run_clock_def grace_reading_def OPS_GRACE_DAYS_def Let_def)
  from restricted_needs_three_days [OF this] show ?thesis by (elim exE conjE) (intro exI conjI; assumption)
qed

end
