(* ===== verification/CreditGate.thy ===== *)
theory CreditGate
  imports JsNumber JsArrays
begin

text \<open>
  The worker's read gate, \<^verbatim>\<open>apps/worker/src/lib/creditGate.mjs\<close>: one cached answer per
  workspace, asked of the api, failing open except where a hard cap has been measured. The process
  state (cache, logged reasons, held backfills) is passed explicitly; the api's answer, when the
  question is asked, is the parameter \<open>reply\<close>.
\<close>

definition TTL_MS :: int where "TTL_MS = 5 * 60000"
definition HARD_CAP_NEAR_CREDITS :: rat where "HARD_CAP_NEAR_CREDITS = 100"

section \<open>State\<close>

record gate_view =
  gv_allowed :: bool
  gv_reason :: jsval
  gv_hardCap :: bool
  gv_untilStop :: "rat option"

record gate_entry = gate_view +
  ge_at :: int

record gate_state =
  gs_cache :: "string \<Rightarrow> gate_entry option"
  gs_logged :: "string \<Rightarrow> jsval option"
  gs_paid :: "string set"

definition GATE_OPEN :: gate_view where
  "GATE_OPEN = \<lparr>gv_allowed = True, gv_reason = JNull, gv_hardCap = False, gv_untilStop = None\<rparr>"

definition gate_view_of :: "gate_entry \<Rightarrow> gate_view" where
  "gate_view_of e = \<lparr>gv_allowed = gv_allowed e, gv_reason = gv_reason e, gv_hardCap = gv_hardCap e,
     gv_untilStop = gv_untilStop e\<rparr>"

definition knownHardCap :: "gate_entry option \<Rightarrow> bool" where
  "knownHardCap hit = (case hit of None \<Rightarrow> False | Some e \<Rightarrow> gv_hardCap e \<and> gv_untilStop e \<noteq> None)"

definition mk_entry :: "int \<Rightarrow> gate_view \<Rightarrow> gate_entry" where
  "mk_entry now v = \<lparr>gv_allowed = gv_allowed v, gv_reason = gv_reason v, gv_hardCap = gv_hardCap v,
     gv_untilStop = gv_untilStop v, ge_at = now\<rparr>"



section \<open>Asking\<close>

text \<open>The answer in a body: \<open>None\<close> when the meter failed (or the request did).\<close>

definition body_answer :: "jsval \<Rightarrow> gate_view option" where
  "body_answer d =
     (let hardCap = (js_prop d ''hardCap'' = JBool True);
          untilStop = map_option (max 0) (js_finite (js_prop d ''untilStop''))
      in if js_truthy d \<and> js_prop d ''meterError'' = JBool True then None
         else if js_truthy d \<and> js_prop d ''allowed'' = JBool False then
           Some \<lparr>gv_allowed = False, gv_reason = js_coalesce (js_prop d ''reason'') (JStr ''over_credit_limit''),
                 gv_hardCap = hardCap, gv_untilStop = untilStop\<rparr>
         else Some \<lparr>gv_allowed = True, gv_reason = JNull, gv_hardCap = hardCap, gv_untilStop = untilStop\<rparr>)"

definition log_answer :: "string \<Rightarrow> gate_view \<Rightarrow> gate_state \<Rightarrow> gate_state" where
  "log_answer w a s = (if gv_allowed a then s\<lparr>gs_logged := (gs_logged s)(w := None)\<rparr>
     else s\<lparr>gs_logged := (gs_logged s)(w := Some (gv_reason a))\<rparr>)"

text \<open>\<open>configured\<close>: the internal secret and the api's address are set. \<open>reply\<close>: the parsed body of an ok
  response, \<open>None\<close> for a refusal, a timeout or an exception.\<close>

definition mayReadWorkspace ::
  "bool \<Rightarrow> bool \<Rightarrow> int \<Rightarrow> jsval option \<Rightarrow> bool \<Rightarrow> string option \<Rightarrow> gate_state \<Rightarrow> gate_view \<times> gate_state" where
  "mayReadWorkspace configured ownModel now reply fresh workspaceId s =
     (if \<not> nonempty workspaceId then (GATE_OPEN, s)
      else (let w = str_of workspaceId; hit = gs_cache s w in
        if w \<in> gs_paid s then (GATE_OPEN, s)
        else if ownModel then (GATE_OPEN, s)
        else
          (let nearCap = (case hit of None \<Rightarrow> False
                 | Some e \<Rightarrow> knownHardCap hit \<and> gv_allowed e \<and> (case gv_untilStop e of None \<Rightarrow> False
                     | Some u \<Rightarrow> u < HARD_CAP_NEAR_CREDITS))
           in case (case hit of None \<Rightarrow> None
                | Some e \<Rightarrow> if \<not> fresh \<and> \<not> nearCap \<and> now - ge_at e < TTL_MS then Some e else None) of
                Some e \<Rightarrow> (gate_view_of e, s)
              | None \<Rightarrow>
                  if \<not> configured then (GATE_OPEN, s)
                  else (case Option.bind reply body_answer of
                      Some a \<Rightarrow> (a, (log_answer w a s)\<lparr>gs_cache := (gs_cache s)(w := Some (mk_entry now a))\<rparr>)
                    | None \<Rightarrow>
                        if knownHardCap hit then (gate_view_of (the hit), s)
                        else (GATE_OPEN, s\<lparr>gs_cache := (gs_cache s)(w := Some (mk_entry now GATE_OPEN))\<rparr>)))))"

definition noteCreditsSpent :: "string \<Rightarrow> jsval \<Rightarrow> gate_state \<Rightarrow> gate_state" where
  "noteCreditsSpent w credits s =
     (let n = (case js_number credits of None \<Rightarrow> 0 | Some x \<Rightarrow> x) in
      case gs_cache s w of None \<Rightarrow> s
      | Some e \<Rightarrow> (case gv_untilStop e of None \<Rightarrow> s
          | Some u \<Rightarrow>
              if n \<le> 0 then s
              else (let left = max 0 (u - n);
                        e1 = e\<lparr>gv_untilStop := Some left\<rparr>;
                        e2 = (if left = 0 \<and> gv_allowed e1
                              then e1\<lparr>gv_allowed := False, gv_reason := JStr ''over_credit_limit''\<rparr> else e1)
                    in s\<lparr>gs_cache := (gs_cache s)(w := Some e2)\<rparr>)))"

definition forgetCreditGate :: "string \<Rightarrow> gate_state \<Rightarrow> gate_state" where
  "forgetCreditGate w s = s\<lparr>gs_cache := (gs_cache s)(w := None), gs_logged := (gs_logged s)(w := None)\<rparr>"

section \<open>Events, and states with an answer that will not reopen\<close>











section \<open>What the gate promises\<close>


definition demo_gate :: gate_state where
  "demo_gate = \<lparr>gs_cache = (\<lambda>_. None)(''w'' := Some (mk_entry 0 \<lparr>gv_allowed = False, gv_reason = JNull,
     gv_hardCap = True, gv_untilStop = Some 0\<rparr>)), gs_logged = (\<lambda>_. None), gs_paid = {}\<rparr>"


text \<open>Without a measured hard cap the gate fails open: an unconfigured deployment, an outage, a failed
  count or a malformed body all answer yes.\<close>

theorem gate_fails_open:
  assumes "\<not> knownHardCap (gs_cache s w)"
    and stale: "\<forall>e. gs_cache s w = Some e \<longrightarrow> fresh \<or> TTL_MS \<le> now - ge_at e"
    and bad: "\<not> configured \<or> Option.bind reply body_answer = None \<or> reply = Some (JStr junk)"
  shows "gv_allowed (fst (mayReadWorkspace configured own now reply fresh (Some w) s))"
  using assms
  by (cases "gs_cache s w")
    (auto simp: mayReadWorkspace_def Let_def GATE_OPEN_def body_answer_def split: option.splits)

theorem gate_fails_open_witness:
  "gv_allowed (fst (mayReadWorkspace True False 5 (Some (JStr ''<html>'')) False (Some ''v'') demo_gate))"
  by (rule gate_fails_open [where junk = "''<html>''"]) (simp_all add: demo_gate_def knownHardCap_def)

fun spend_all :: "string \<Rightarrow> rat list \<Rightarrow> gate_state \<Rightarrow> gate_state" where
  "spend_all w [] s = s"
| "spend_all w (c # cs) s = spend_all w cs (noteCreditsSpent w (JNum c) s)"

text \<open>A batch spends down what it was told: after spending credits one charge at a time, the cached
  allowance is what was left less everything spent (never below zero), and at zero the cached
  answer is no.\<close>

theorem spending_is_counted:
  assumes "gs_cache s w = Some e" and "gv_untilStop e = Some u" and "0 \<le> u" and "\<forall>c \<in> set cs. 0 < c"
    and "u = 0 \<longrightarrow> \<not> gv_allowed e"
  shows "\<exists>e'. gs_cache (spend_all w cs s) w = Some e' \<and> gv_untilStop e' = Some (max 0 (u - sum_list cs))
    \<and> gv_hardCap e' = gv_hardCap e \<and> (max 0 (u - sum_list cs) = 0 \<longrightarrow> \<not> gv_allowed e')"
  using assms
proof (induction cs arbitrary: s e u)
  case Nil
  then show ?case by simp
next
  case (Cons c cs)
  let ?left = "max 0 (u - c)"
  have sum: "0 \<le> sum_list cs" using Cons.prems(4) by (intro sum_list_nonneg) auto
  have e2: "\<exists>e2. gs_cache (noteCreditsSpent w (JNum c) s) w = Some e2 \<and> gv_untilStop e2 = Some ?left
      \<and> gv_hardCap e2 = gv_hardCap e \<and> (?left = 0 \<longrightarrow> \<not> gv_allowed e2)"
    using Cons.prems by (auto simp: noteCreditsSpent_def Let_def)
  then obtain e2 where e2: "gs_cache (noteCreditsSpent w (JNum c) s) w = Some e2" "gv_untilStop e2 = Some ?left"
      "gv_hardCap e2 = gv_hardCap e" "?left = 0 \<longrightarrow> \<not> gv_allowed e2" by blast
  have "max 0 (?left - sum_list cs) = max 0 (u - sum_list (c # cs))" using sum by auto
  with Cons.IH [OF e2(1,2) _ _ e2(4)] e2(3) Cons.prems(4) show ?case by simp
qed

definition demo_gate2 :: gate_state where
  "demo_gate2 = \<lparr>gs_cache = (\<lambda>_. None)(''w'' := Some (mk_entry 0 \<lparr>gv_allowed = True, gv_reason = JNull,
     gv_hardCap = True, gv_untilStop = Some 10\<rparr>)), gs_logged = (\<lambda>_. None), gs_paid = {}\<rparr>"

theorem spending_is_counted_witness:
  "\<exists>e'. gs_cache (spend_all ''w'' [4, 7] demo_gate2) ''w'' = Some e' \<and> gv_untilStop e' = Some 0 \<and> \<not> gv_allowed e'"
  using spending_is_counted [of demo_gate2 "''w''" _ 10 "[4, 7]"] by (auto simp: demo_gate2_def mk_entry_def)

end
