(* ===== verification/Engagement.thy ===== *)
theory Engagement
  imports JsNumber JsArrays
begin

text \<open>
  Engagement, \<^verbatim>\<open>packages/core/src/services/engagement.mjs\<close>: what an activity row is, the
  trend, the buyer's response time and how many people are in conversation. A row is a payload
  (\<open>jsval\<close>), read as the code reads it; ages and gaps are exact fractions of a day.
\<close>

section \<open>Reading rows\<close>

definition js_or :: "jsval \<Rightarrow> jsval \<Rightarrow> jsval" where
  "js_or a b = (if js_truthy a then a else b)"

text \<open>\<^verbatim>\<open>String(v ?? '')\<close>, and \<^verbatim>\<open>new Date(v).getTime()\<close>: null is the epoch, undefined invalid.\<close>

definition text_or_empty :: "jsval \<Rightarrow> string" where
  "text_or_empty v = (if js_nullish v then '''' else js_tostring v)"

fun new_date :: "jsval \<Rightarrow> int option" where
  "new_date JUndef = None"
| "new_date JNull = Some 0"
| "new_date (JBool b) = Some (if b then 1 else 0)"
| "new_date (JNum n) = Some (if 0 \<le> n then \<lfloor>n\<rfloor> else \<lceil>n\<rceil>)"
| "new_date (JStr s) = date_parse s"
| "new_date _ = None"

definition row_time :: "jsval \<Rightarrow> int option" where
  "row_time a = new_date (js_or (js_prop a ''occurred_at'') (js_prop a ''created_at''))"

definition row_type :: "jsval \<Rightarrow> string" where
  "row_type a = to_lower (text_or_empty (js_prop a ''activity_type''))"

section \<open>What an activity row is\<close>

definition EVIDENCE_SNAPSHOT_TYPES :: "string list" where
  "EVIDENCE_SNAPSHOT_TYPES = [''slack_conversation'', ''slack_dm_conversation'']"

definition isEvidenceSnapshot :: "jsval \<Rightarrow> bool" where
  "isEvidenceSnapshot activityType =
     (let t = to_lower (text_or_empty activityType);
          u = (if starts_with ''interaction.'' t then drop 12 t else t)
      in u \<in> set EVIDENCE_SNAPSHOT_TYPES)"

definition activityOutbound :: "jsval \<Rightarrow> bool option" where
  "activityOutbound a =
     (let v = js_coalesce (js_coalesce (js_prop a ''is_outbound'') (js_prop (js_prop a ''raw_data'') ''is_outbound''))
               (js_prop (js_prop a ''raw'') ''is_outbound'')
      in if v = JBool True \<or> v = JStr ''true'' then Some True
         else if v = JBool False \<or> v = JStr ''false'' then Some False
         else None)"

definition isChatMessage :: "jsval \<Rightarrow> bool" where
  "isChatMessage t = (to_lower (text_or_empty t) \<in> {''slack_message'', ''slack_dm''})"

definition has_any :: "string list \<Rightarrow> string \<Rightarrow> bool" where
  "has_any ws s = rx_test (words_rx ws) s"

definition SYSTEM_WORDS :: "string list" where
  "SYSTEM_WORDS = [''enrichment'', ''scored'', ''created'', ''updated'', ''deal_won'', ''import'']"

definition ENGAGEMENT_WORDS :: "string list" where
  "ENGAGEMENT_WORDS = [''meeting'', ''received'', ''reply'', ''sent'', ''linkedin'', ''call'', ''message'', ''email'']"

definition isEngagementEvent :: "jsval \<Rightarrow> bool" where
  "isEngagementEvent activityType =
     (let t = to_lower (if js_truthy activityType then js_tostring activityType else '''') in
      if isEvidenceSnapshot (JStr t) then False
      else if has_any SYSTEM_WORDS t then False
      else has_any ENGAGEMENT_WORDS t)"

definition isInboundType :: "string \<Rightarrow> bool" where
  "isInboundType t = (has_any [''received'', ''reply'', ''inbound''] t \<and> \<not> ends_with ''_sent'' t)"

definition isOutboundType :: "string \<Rightarrow> bool" where
  "isOutboundType t = (ends_with ''_sent'' t \<or> starts_with ''sent'' t)"

definition DIRECTED_WORDS :: "string list" where
  "DIRECTED_WORDS = [''message'', ''linkedin'', ''inmail'', ''email'', ''reply'', ''dm'']"

definition any_type :: "jsval \<Rightarrow> jsval" where
  "any_type a = js_coalesce (js_prop a ''activity_type'') (js_prop a ''type'')"

definition isInboundActivity :: "jsval \<Rightarrow> bool" where
  "isInboundActivity a =
     (let t = to_lower (text_or_empty (any_type a)) in
      if isEvidenceSnapshot (any_type a) then False
      else (case activityOutbound a of
          Some out \<Rightarrow> if has_any DIRECTED_WORDS t then \<not> out else isInboundType t
        | None \<Rightarrow> isInboundType t))"

definition isOutboundActivity :: "jsval \<Rightarrow> bool" where
  "isOutboundActivity a =
     (let t = to_lower (text_or_empty (any_type a)) in
      if isEvidenceSnapshot (any_type a) then False
      else (case activityOutbound a of
          Some out \<Rightarrow> if has_any DIRECTED_WORDS t then out else isOutboundType t
        | None \<Rightarrow> isOutboundType t))"

definition NOT_RESPONSE_WORDS :: "string list" where
  "NOT_RESPONSE_WORDS = [''enrichment'', ''deal_won'', ''scheduled'', ''created'', ''updated'', ''scored'',
     ''product_used'', ''signed_up'']"

definition RESPONSE_WORDS :: "string list" where
  "RESPONSE_WORDS = [''meeting'', ''received'', ''reply'', ''inbound'', ''call'', ''linkedin'', ''message'', ''dm'']"

definition isBuyerResponse :: "jsval \<Rightarrow> bool" where
  "isBuyerResponse a =
     (let t = row_type a in
      if t = '''' \<or> isEvidenceSnapshot (JStr t) then False
      else if ends_with ''_sent'' t \<or> has_any NOT_RESPONSE_WORDS t then False
      else if activityOutbound a = Some True then False
      else has_any RESPONSE_WORDS t)"

definition PASSIVE_WORDS :: "string list" where
  "PASSIVE_WORDS = [''scheduled'', ''booked'', ''cancel'', ''no_show'', ''missed'', ''enrichment'', ''created'',
     ''updated'', ''scored'', ''import'', ''connect'', ''invite'', ''visit'', ''opened'', ''product_used'', ''signed_up'']"

text \<open>\<^verbatim>\<open>(^|_)call(_|$)\<close>.\<close>

definition CALL_RX :: rx where
  "CALL_RX = rseq [RAlt RBeg (lit ''_''), lit ''call'', RAlt (lit ''_'') REnd]"

definition isDirectParticipation :: "jsval \<Rightarrow> bool" where
  "isDirectParticipation a =
     (let t = row_type a in
      if t = '''' \<or> isEvidenceSnapshot (JStr t) then False
      else if has_any PASSIVE_WORDS t then False
      else if has_any [''meeting''] t \<or> rx_test CALL_RX t then True
      else isInboundActivity a)"

section \<open>Trend and response time\<close>

datatype trend = Cold | Cooling | Rising | Steady

definition engagementTrend :: "nat \<Rightarrow> nat \<Rightarrow> trend" where
  "engagementTrend recent prior =
     (if recent = 0 \<and> prior = 0 then Cold
      else if recent = 0 then Cooling
      else if prior = 0 then Rising
      else (let r = of_nat recent / of_nat prior :: rat in
        if 125 / 100 \<le> r then Rising else if r \<le> 6 / 10 then Cooling else Steady))"

record timed_row =
  tr_t :: int
  tr_out :: bool
  tr_in :: bool

definition timed_rows :: "jsval list \<Rightarrow> timed_row list" where
  "timed_rows activities = js_sort (asc_by tr_t)
     (List.map_filter (\<lambda>a. map_option (\<lambda>t. \<lparr>tr_t = t, tr_out = isOutboundActivity a, tr_in = isInboundActivity a\<rparr>)
        (row_time a)) activities)"

definition days :: "int \<Rightarrow> rat" where
  "days ms = of_int ms / of_int day_ms"

fun response_gaps :: "int option \<Rightarrow> timed_row list \<Rightarrow> rat list" where
  "response_gaps lastOut [] = []"
| "response_gaps lastOut (a # as) =
     (if tr_out a then response_gaps (Some (tr_t a)) as
      else (case lastOut of
          Some t0 \<Rightarrow> if tr_in a \<and> t0 \<le> tr_t a then days (tr_t a - t0) # response_gaps None as
                    else response_gaps lastOut as
        | None \<Rightarrow> response_gaps lastOut as))"

definition median_of :: "rat list \<Rightarrow> rat" where
  "median_of gs = (let m = length gs div 2 in
     if odd (length gs) then gs ! m else (gs ! (m - 1) + gs ! m) / 2)"

definition medianBuyerResponseDays :: "jsval list \<Rightarrow> rat option" where
  "medianBuyerResponseDays activities =
     (let gaps = js_sort (asc_by id) (response_gaps None (timed_rows activities)) in
      if gaps = [] then None else Some (to_fixed1 (median_of gaps)))"

section \<open>People in conversation\<close>

record threading =
  th_total :: nat
  th_engaged :: nat
  th_product_users :: nat
  th_identified :: nat
  th_engaged_ids :: "jsval list"
  th_product_user_ids :: "jsval list"
  th_single_threaded :: bool

definition recent_row :: "int \<Rightarrow> jsval \<Rightarrow> bool" where
  "recent_row now a =
     (case date_parse (js_tostring (js_or (js_or (js_prop a ''occurred_at'') (js_prop a ''created_at'')) (JStr []))) of
        None \<Rightarrow> False
      | Some t \<Rightarrow> t \<le> now + 60000 \<and> now - t \<le> 45 * day_ms)"

definition by_person :: "int \<Rightarrow> jsval list \<Rightarrow> (jsval \<times> jsval list) list" where
  "by_person now activity = js_group_by (\<lambda>a. js_prop a ''contact_id'')
     (filter (\<lambda>a. js_truthy (js_prop a ''contact_id'') \<and> recent_row now a) activity)"

definition rows_of :: "(jsval \<times> jsval list) list \<Rightarrow> jsval \<Rightarrow> jsval list" where
  "rows_of m i = (case jm_get m i of None \<Rightarrow> [] | Some rs \<Rightarrow> rs)"

definition is_product_row :: "jsval \<Rightarrow> bool" where
  "is_product_row a = has_any [''product_used'', ''signed_up''] (row_type a)"

definition direct_of :: "(jsval \<times> jsval list) list \<Rightarrow> jsval \<Rightarrow> bool" where
  "direct_of m s = list_ex isDirectParticipation (rows_of m (js_prop s ''id''))"

definition multiThread :: "jsval list \<Rightarrow> int \<Rightarrow> jsval list \<Rightarrow> threading" where
  "multiThread people now activity =
     (let m = by_person now activity;
          direct = map (\<lambda>s. js_prop s ''id'') (filter (direct_of m) people);
          product = map (\<lambda>s. js_prop s ''id'') (filter (\<lambda>s. \<not> direct_of m s
             \<and> list_ex is_product_row (rows_of m (js_prop s ''id''))) people)
      in \<lparr>th_total = length people, th_engaged = length direct, th_product_users = length product,
          th_identified = length people - length direct - length product,
          th_engaged_ids = direct, th_product_user_ids = product,
          th_single_threaded = (length direct \<le> 1)\<rparr>)"

text \<open>Without activity rows: the record's own signals and last touch. Returns (total, engaged, single).\<close>

definition multiThread_records :: "jsval list \<Rightarrow> int \<Rightarrow> nat \<times> nat \<times> bool" where
  "multiThread_records people now =
     (let engaged = length (filter (\<lambda>s.
            (case js_number (js_or (js_prop s ''signal_count'') (JNum 0)) of None \<Rightarrow> False | Some n \<Rightarrow> 0 < n)
            \<or> (js_truthy (js_prop s ''last_activity_at'')
               \<and> (case new_date (js_prop s ''last_activity_at'') of None \<Rightarrow> False | Some t \<Rightarrow> days (now - t) \<le> 45))) people)
      in (length people, engaged, engaged \<le> 1))"

definition count_row :: "int \<Rightarrow> jsval \<Rightarrow> nat \<times> nat \<Rightarrow> nat \<times> nat" where
  "count_row now a rp =
     (let (recent, prior) = rp in
      if \<not> isEngagementEvent (js_prop a ''activity_type'') then rp
      else (case row_time a of None \<Rightarrow> rp
        | Some t \<Rightarrow> if days (now - t) \<le> 30 then (recent + 1, prior)
                   else if days (now - t) \<le> 60 then (recent, prior + 1) else rp))"

definition windowedCounts :: "jsval list \<Rightarrow> int \<Rightarrow> nat \<times> nat" where
  "windowedCounts activities now = fold (count_row now) activities (0, 0)"

section \<open>Evidence snapshots are never activity\<close>

lemma snapshot_never_counts:
  assumes "isEvidenceSnapshot (js_prop a ''activity_type'')"
  shows "\<not> isBuyerResponse a \<and> \<not> isDirectParticipation a
    \<and> (\<not> js_nullish (js_prop a ''activity_type'') \<longrightarrow> \<not> isInboundActivity a \<and> \<not> isOutboundActivity a)"
proof -
  have "isEvidenceSnapshot (JStr (row_type a))"
    using assms by (simp add: isEvidenceSnapshot_def row_type_def text_or_empty_def)
  with assms show ?thesis
    by (auto simp: isBuyerResponse_def isDirectParticipation_def isInboundActivity_def isOutboundActivity_def
        any_type_def js_coalesce_def Let_def)
qed

section \<open>The response time\<close>

lemma days_mono: "days a \<le> days b \<longleftrightarrow> a \<le> b"
  by (simp add: days_def divide_le_cancel)

lemma gaps_nonneg: "g \<in> set (response_gaps l rs) \<Longrightarrow> 0 \<le> g"
  by (induction l rs rule: response_gaps.induct) (auto simp: days_def split: if_splits option.splits)

text \<open>Every gap pairs a message of the buyer with our most recent message before it.\<close>

lemma gaps_paired:
  "g \<in> set (response_gaps l rs) \<Longrightarrow>
   \<exists>t0 a. a \<in> set rs \<and> tr_in a \<and> \<not> tr_out a \<and> t0 \<le> tr_t a \<and> g = days (tr_t a - t0)
     \<and> (l = Some t0 \<or> (\<exists>o' \<in> set rs. tr_out o' \<and> tr_t o' = t0))"
proof (induction l rs rule: response_gaps.induct)
  case (2 l a as)
  show ?case
  proof (cases "tr_out a")
    case True
    with 2 show ?thesis by fastforce
  next
    case False
    with 2 show ?thesis by (fastforce split: option.splits if_splits)
  qed
qed simp

lemma median_bounds:
  assumes srt: "sorted gs" and ne: "gs \<noteq> []"
  shows "2 * length (filter (\<lambda>g. g < median_of gs) gs) \<le> length gs
    \<and> 2 * length (filter (\<lambda>g. median_of gs < g) gs) \<le> length gs"
proof -
  let ?n = "length gs" and ?m = "length gs div 2"
  have mn: "?m < ?n" using ne by (cases gs) auto
  have below: "length (filter (\<lambda>g. g < x) gs) \<le> k" if "k \<le> ?n" "\<forall>i. k \<le> i \<and> i < ?n \<longrightarrow> x \<le> gs ! i" for x k
  proof -
    have "filter (\<lambda>g. g < x) (drop k gs) = []"
      using that by (auto simp: filter_empty_conv in_set_conv_nth) (metis le_add1 less_diff_conv not_le add.commute)
    then have "filter (\<lambda>g. g < x) gs = filter (\<lambda>g. g < x) (take k gs)"
      by (metis append_Nil2 append_take_drop_id filter_append)
    then show ?thesis using that(1) by (metis length_filter_le length_take min.absorb2)
  qed
  have above: "length (filter (\<lambda>g. x < g) gs) \<le> ?n - k" if "k \<le> ?n" "\<forall>i < k. gs ! i \<le> x" for x k
  proof -
    have "filter (\<lambda>g. x < g) (take k gs) = []"
      using that by (auto simp: filter_empty_conv in_set_conv_nth not_less)
    then have "filter (\<lambda>g. x < g) gs = filter (\<lambda>g. x < g) (drop k gs)"
      by (metis append_Nil append_take_drop_id filter_append)
    then show ?thesis by (metis length_filter_le length_drop)
  qed
  have nth: "gs ! i \<le> gs ! j" if "i \<le> j" "j < ?n" for i j
    using srt that by (simp add: sorted_iff_nth_mono)
  show ?thesis
  proof (cases "odd ?n")
    case True
    then have med: "median_of gs = gs ! ?m" by (simp add: median_of_def)
    have "length (filter (\<lambda>g. g < gs ! ?m) gs) \<le> ?m" using mn nth by (intro below) auto
    moreover have "length (filter (\<lambda>g. gs ! ?m < g) gs) \<le> ?n - Suc ?m" using mn nth by (intro above) auto
    ultimately show ?thesis using True unfolding med by presburger
  next
    case False
    let ?x = "(gs ! (?m - 1) + gs ! ?m) / 2"
    have med: "median_of gs = ?x" using False by (simp add: median_of_def Let_def)
    have pos: "0 < ?m" using False ne by (cases gs) auto
    have le: "gs ! (?m - 1) \<le> gs ! ?m" using mn by (intro nth) auto
    have "length (filter (\<lambda>g. g < ?x) gs) \<le> ?m"
    proof (rule below)
      show "\<forall>i. ?m \<le> i \<and> i < ?n \<longrightarrow> ?x \<le> gs ! i"
      proof (intro allI impI)
        fix i assume "?m \<le> i \<and> i < ?n"
        then have "gs ! ?m \<le> gs ! i" using nth by blast
        with le show "?x \<le> gs ! i" by simp
      qed
    qed (use mn in simp)
    moreover have "length (filter (\<lambda>g. ?x < g) gs) \<le> ?n - ?m"
    proof (rule above)
      show "\<forall>i < ?m. gs ! i \<le> ?x"
      proof (intro allI impI)
        fix i assume "i < ?m"
        then have "gs ! i \<le> gs ! (?m - 1)" using mn by (intro nth) auto
        with le show "gs ! i \<le> ?x" by simp
      qed
    qed (use mn in simp)
    ultimately show ?thesis using False unfolding med by presburger
  qed
qed

text \<open>The buyer's response time is the median of real reply gaps, rounded to a tenth of a day: each gap
  is from one of our messages to a later message of theirs, none is negative, and at most half of
  the gaps lie strictly below the median and at most half strictly above.\<close>

theorem response_time_is_median:
  assumes med: "medianBuyerResponseDays acts = Some d"
  shows "\<exists>gs. mset gs = mset (response_gaps None (timed_rows acts)) \<and> gs \<noteq> []
    \<and> d = to_fixed1 (median_of gs)
    \<and> 2 * length (filter (\<lambda>g. g < median_of gs) gs) \<le> length gs
    \<and> 2 * length (filter (\<lambda>g. median_of gs < g) gs) \<le> length gs
    \<and> (\<forall>g \<in> set gs. 0 \<le> g \<and> (\<exists>ours theirs. ours \<in> set (timed_rows acts) \<and> theirs \<in> set (timed_rows acts)
          \<and> tr_out ours \<and> tr_in theirs \<and> \<not> tr_out theirs \<and> tr_t ours \<le> tr_t theirs
          \<and> g = days (tr_t theirs - tr_t ours)))"
proof -
  let ?r = "response_gaps None (timed_rows acts)" and ?gs = "js_sort (asc_by id) (response_gaps None (timed_rows acts))"
  from med have ne: "?gs \<noteq> []" and d: "d = to_fixed1 (median_of ?gs)"
    by (auto simp: medianBuyerResponseDays_def Let_def split: if_splits)
  have "sorted ?gs" using asc.sort_sorted [of id ?r] by simp
  note mb = median_bounds [OF this ne]
  have "0 \<le> g \<and> (\<exists>ours theirs. ours \<in> set (timed_rows acts) \<and> theirs \<in> set (timed_rows acts)
          \<and> tr_out ours \<and> tr_in theirs \<and> \<not> tr_out theirs \<and> tr_t ours \<le> tr_t theirs
          \<and> g = days (tr_t theirs - tr_t ours))" if "g \<in> set ?gs" for g
  proof -
    have "g \<in> set ?r" using that by simp
    from gaps_nonneg [OF this] gaps_paired [OF this] show ?thesis by auto
  qed
  with mb ne d show ?thesis by (intro exI [of _ ?gs]) simp
qed

definition sent_at :: "rat \<Rightarrow> jsval" where
  "sent_at t = JObj [(''activity_type'', JStr ''email_sent''), (''occurred_at'', JNum t)]"

definition got_at :: "rat \<Rightarrow> jsval" where
  "got_at t = JObj [(''activity_type'', JStr ''email_received''), (''occurred_at'', JNum t)]"

lemma demo_median: "medianBuyerResponseDays [sent_at 86400000, got_at 259200000] = Some 2"
  by code_simp

theorem response_time_is_median_witness:
  "\<exists>gs. mset gs = mset (response_gaps None (timed_rows [sent_at 86400000, got_at 259200000])) \<and> gs \<noteq> []
    \<and> 2 = to_fixed1 (median_of gs)"
  using response_time_is_median [OF demo_median] by blast

section \<open>The windows and the people\<close>

definition event_age_within :: "int \<Rightarrow> rat \<Rightarrow> jsval \<Rightarrow> bool" where
  "event_age_within now d a = (isEngagementEvent (js_prop a ''activity_type'')
     \<and> (case row_time a of None \<Rightarrow> False | Some t \<Rightarrow> days (now - t) \<le> d))"

lemma count_row_eq: "count_row now a (r, p) =
    (r + (if event_age_within now 30 a then 1 else 0),
     p + (if event_age_within now 60 a \<and> \<not> event_age_within now 30 a then 1 else 0))"
  by (auto simp: count_row_def event_age_within_def split: option.splits)

text \<open>The trend's two windows are disjoint and together are the last sixty days: the recent count is
  the engagement events at most 30 days old, and recent plus prior the events at most 60 days old;
  the trend is cold exactly when there are none.\<close>

theorem windows_partition:
  assumes w: "windowedCounts acts now = (recent, prior)"
  shows "recent = length (filter (event_age_within now 30) acts)
    \<and> recent + prior = length (filter (event_age_within now 60) acts)
    \<and> (engagementTrend recent prior = Cold \<longleftrightarrow> (\<forall>a \<in> set acts. \<not> event_age_within now 60 a))"
proof -
  have mono: "event_age_within now 30 a \<Longrightarrow> event_age_within now 60 a" for a
    by (auto simp: event_age_within_def split: option.splits)
  let ?P = "\<lambda>a. event_age_within now 60 a \<and> \<not> event_age_within now 30 a"
  have "fold (count_row now) acts (r, p) =
      (r + length (filter (event_age_within now 30) acts), p + length (filter ?P acts))" for r p
    by (induction acts arbitrary: r p) (auto simp: count_row_eq)
  moreover have "length (filter (event_age_within now 30) as) + length (filter ?P as)
      = length (filter (event_age_within now 60) as)" for as
    using mono by (induction as) auto
  ultimately have *: "recent = length (filter (event_age_within now 30) acts)"
    "recent + prior = length (filter (event_age_within now 60) acts)"
    using w by (auto simp: windowedCounts_def)
  have "engagementTrend recent prior = Cold \<longleftrightarrow> recent + prior = 0"
    by (auto simp: engagementTrend_def Let_def)
  with * show ?thesis by (simp add: filter_empty_conv)
qed

theorem windows_partition_witness:
  "(1 :: nat) = length (filter (event_age_within 5184000000 30) [sent_at 5183000000, sent_at 86400000])"
proof -
  have "windowedCounts [sent_at 5183000000, sent_at 86400000] 5184000000 = (1, 1)" by code_simp
  from windows_partition [OF this] show ?thesis by simp
qed

lemma rows_of_by_person:
  "a \<in> set (rows_of (by_person now acts) i) \<longleftrightarrow>
     a \<in> set acts \<and> js_prop a ''contact_id'' = i \<and> js_truthy i \<and> recent_row now a"
  by (auto simp: rows_of_def by_person_def js_group_by_get Let_def filter_empty_conv)

lemma filter_split_le: "length (filter P xs) + length (filter (\<lambda>x. \<not> P x \<and> Q x) xs) \<le> length xs"
  by (induction xs) auto

text \<open>Every stakeholder is in exactly one group (in conversation, product user, identified only), and a
  person counts as engaged only with a conversation of their own in the last 45 days: an activity row
  with their id, dated, not in the future by more than a minute, that is direct participation and
  never a snapshot kept as evidence.\<close>

theorem threading_counts_conversations:
  assumes th: "multiThread people now acts = m"
  shows "th_engaged m + th_product_users m + th_identified m = th_total m
    \<and> th_total m = length people \<and> (th_single_threaded m \<longleftrightarrow> th_engaged m \<le> 1)
    \<and> set (th_engaged_ids m) = {i. \<exists>s \<in> set people. js_prop s ''id'' = i
        \<and> (\<exists>a \<in> set acts. js_prop a ''contact_id'' = i \<and> js_truthy i \<and> recent_row now a \<and> isDirectParticipation a
             \<and> \<not> isEvidenceSnapshot (js_prop a ''activity_type''))}"
proof -
  let ?m = "by_person now acts"
  have eng: "direct_of ?m s \<longleftrightarrow> (\<exists>a \<in> set acts. js_prop a ''contact_id'' = js_prop s ''id'' \<and> js_truthy (js_prop s ''id'')
      \<and> recent_row now a \<and> isDirectParticipation a \<and> \<not> isEvidenceSnapshot (js_prop a ''activity_type''))" for s
    unfolding direct_of_def list_ex_iff Bex_def rows_of_by_person using snapshot_never_counts by auto
  have "set (th_engaged_ids m) = {i. \<exists>s \<in> set people. js_prop s ''id'' = i \<and> direct_of ?m s}"
    using th by (auto simp: multiThread_def Let_def)
  moreover have "th_engaged m + th_product_users m + th_identified m = th_total m"
    using th filter_split_le [of "direct_of ?m" people] by (auto simp: multiThread_def Let_def)
  moreover have "th_total m = length people" "th_single_threaded m \<longleftrightarrow> th_engaged m \<le> 1"
    using th by (auto simp: multiThread_def Let_def)
  moreover have "{i. \<exists>s \<in> S. f s = i \<and> D s} = {i. \<exists>s \<in> S. f s = i \<and> Q i}"
    if "\<And>s. D s \<longleftrightarrow> Q (f s)" for S D Q and f :: "jsval \<Rightarrow> jsval"
    using that by auto
  note this [of "direct_of ?m" _ "\<lambda>s. js_prop s ''id''" "set people", OF eng]
  ultimately show ?thesis by simp
qed

theorem threading_counts_conversations_witness:
  "th_total (multiThread [JObj [(''id'', JStr ''p1'')], JObj [(''id'', JStr ''p2'')]] 0 []) = 2"
  using threading_counts_conversations [of "[JObj [(''id'', JStr ''p1'')], JObj [(''id'', JStr ''p2'')]]" 0 "[]", OF refl]
  by simp

end
