(* ===== verification/Qualification.thy ===== *)
theory Qualification
  imports Engagement
begin

text \<open>
  Deal qualification, \<^verbatim>\<open>packages/core/src/services/qualification.mjs\<close>: MEDDICC read off the
  record, one letter at a time. Notes, people and activity are payload rows. \<^verbatim>\<open>localeCompare\<close> is
  only applied to stored timestamps, where it is the order of their characters.
\<close>

section \<open>Patterns\<close>

definition opt_sep :: "char list \<Rightarrow> rx" where
  "opt_sep cs = ropt (RCls False (map (\<lambda>c. (c, c)) cs @ [(CHR '' '', CHR '' ''), (CHR 0x09, CHR 0x0D), (CHR 0xA0, CHR 0xA0)]))"

definition bword :: "rx \<Rightarrow> rx" where
  "bword r = rseq [RWordB, r, RWordB]"

definition SENIOR :: rx where
  "SENIOR = ralt [rseq [lit ''c'', opt_sep ''_-'', lit ''suite''], rseq [lit ''c'', opt_sep ''_-'', lit ''level''],
     lit ''chief'', bword (lit ''cxo''), lit ''founder'', lit ''owner'', lit ''president'', bword (lit ''ceo''),
     bword (lit ''cfo''), lit ''managing director'']"

definition PAPER_PERSON :: rx where
  "PAPER_PERSON = ralt [lit ''legal'', lit ''counsel'', lit ''procurement'', lit ''purchasing'',
     rseq [lit ''contract'', ropt (lit ''s''), RWordB]]"

definition PAPER_WORDS :: rx where
  "PAPER_WORDS = bword (ralt
     [rseq [lit ''contract'', ropt (lit ''s'')], lit ''msa'', lit ''dpa'', lit ''nda'', rseq [lit ''redline'', ropt (lit ''s'')],
      lit ''procurement'', lit ''legal review'', lit ''security review'', lit ''security questionnaire'',
      rseq [lit ''vendor '', ralt [lit ''form'', lit ''onboarding'', lit ''review'']], lit ''purchase order'', lit ''po'',
      rseq [lit ''sign'', ropt (ralt [lit ''ed'', lit ''ing'']), opt_sep ''-'', lit ''off''],
      rseq [lit ''signature'', ropt (lit ''s'')], rseq [lit ''e'', ropt (lit ''-''), lit ''sign'', ropt (lit ''ature'')],
      lit ''terms and conditions'', lit ''order form''])"

definition PAPER_CATEGORIES :: "string list" where
  "PAPER_CATEGORIES = [''blocker'', ''objection'', ''timeline'', ''buying_signal'']"

definition SIGN_OFF :: rx where
  "SIGN_OFF = bword (ralt
     [rseq [lit ''approv'', ralt [lit ''e'', lit ''es'', lit ''ed'', lit ''al'', lit ''ing'']],
      rseq [lit ''sign'', opt_sep ''-'', lit ''off''],
      rseq [lit ''sign'', ropt (lit ''s''), lit '' '', ralt [lit ''off'', lit ''the contract'']],
      lit ''board'', lit ''committee'', lit ''budget holder'', lit ''final say'',
      rseq [lit ''has to '', ralt [lit ''approve'', lit ''sign'']]])"

definition euro_sign :: char where "euro_sign = CHR 0x80"
definition pound_sign :: char where "pound_sign = CHR 0xA3"

definition unit_rx :: rx where
  "unit_rx = ralt ([lit ''%'', rseq [lit ''x'', RWordB], lit ''percent'']
     @ map (\<lambda>u. rseq [lit u, ropt (lit ''s'')])
        [''hour'', ''hr'', ''minute'', ''min'', ''day'', ''week'', ''month'', ''deal'', ''lead'', ''rep'', ''call'']
     @ [rseq [lit ''k'', RWordB], rseq [lit ''m'', RWordB]])"

definition MEASURABLE :: rx where
  "MEASURABLE = ralt
     [rseq [rplus digit, ropt (rseq [rchars ''.,'', rplus digit]), rstar space, unit_rx],
      rseq [RCls False [(CHR ''$'', CHR ''$''), (euro_sign, euro_sign), (pound_sign, pound_sign)], ropt space, digit],
      rseq [RWordB, ralt [lit ''double'', lit ''halve'', lit ''triple'',
        rseq [lit ''cut '', rrep 0 30 any_char, RWordB, lit ''by'', RWordB],
        rseq [lit ''from '', rrep 0 30 any_char, RWordB, lit ''to'', RWordB]]],
      rseq [RWordB, ralt [lit ''conversion'', lit ''win'', lit ''close'', lit ''response'', lit ''churn''], lit '' rate'', RWordB]]"

section \<open>Helpers\<close>

definition textOf :: "jsval \<Rightarrow> string" where
  "textOf n = js_trim (text_or_empty (js_coalesce (js_prop n ''content'') (js_prop n ''label'')))"

definition clip :: "string \<Rightarrow> nat \<Rightarrow> string" where
  "clip s mx = (if length s > mx then trim_end (take (mx - 1) s) @ [ellipsis] else s)"

definition or_text :: "jsval \<Rightarrow> string" where
  "or_text v = js_tostring (js_or v (JStr []))"

definition byNewest :: "jsval \<Rightarrow> jsval \<Rightarrow> bool" where
  "byNewest = desc_by (\<lambda>n. or_text (js_prop n ''created_at''))"

definition meta :: "jsval \<Rightarrow> string \<Rightarrow> jsval" where
  "meta n k = js_prop (js_prop n ''metadata'') k"

definition roleOf :: "jsval \<Rightarrow> jsval" where
  "roleOf n = js_or (meta n ''role'') (JStr [])"

definition openNote :: "jsval \<Rightarrow> bool" where
  "openNote n = (to_lower (text_or_empty (meta n ''status'')) \<notin> {''resolved'', ''closed'', ''done'', ''dismissed''})"

datatype q_status = Confirmed | Partial | Unknown

record letter =
  lt_key :: string
  lt_letter :: string
  lt_label :: string
  lt_ask :: string

definition mk_letter :: "string \<Rightarrow> string \<Rightarrow> string \<Rightarrow> string \<Rightarrow> letter" where
  "mk_letter k l lab a = \<lparr>lt_key = k, lt_letter = l, lt_label = lab, lt_ask = a\<rparr>"

definition LETTERS :: "letter list" where
  "LETTERS =
    [mk_letter ''metrics'' ''M'' ''Metrics'' ''What result would make this a success for them, in numbers?'',
     mk_letter ''economic_buyer'' ''E'' ''Economic buyer'' ''Who signs off on the budget for this?'',
     mk_letter ''decision_criteria'' ''D'' ''Decision criteria'' ''What does it have to do for them to say yes?'',
     mk_letter ''decision_process'' ''D'' ''Decision process'' ''What are the steps to a decision, and by when?'',
     mk_letter ''paper_process'' ''P'' ''Paper process'' ''What does it take to sign: contract, legal, security, procurement?'',
     mk_letter ''pain'' ''I'' ''Identified pain'' ''What is this costing them today?'',
     mk_letter ''champion'' ''C'' ''Champion'' ''Who on their side is pushing for this internally?'',
     mk_letter ''competition'' ''C'' ''Competition'' ''What else are they looking at, including doing nothing?'']"

record finding =
  fi_status :: q_status
  fi_reason :: string
  fi_evidence :: "jsval list"

definition mk_finding :: "q_status \<Rightarrow> string \<Rightarrow> jsval list \<Rightarrow> finding" where
  "mk_finding st r ns = \<lparr>fi_status = st, fi_reason = r, fi_evidence = filter js_truthy (map (\<lambda>n. js_prop n ''id'') ns)\<rparr>"

record q_input =
  qi_notes :: "jsval list"
  qi_people :: "jsval list"
  qi_engaged :: "jsval list"
  qi_activity :: "jsval list"
  qi_closeDate :: "string option"

section \<open>What the record holds\<close>

definition intel_of :: "q_input \<Rightarrow> jsval list" where
  "intel_of q = filter (\<lambda>n. js_truthy n \<and> js_prop n ''source'' = JStr ''signal_extraction'') (qi_notes q)"

definition category_of :: "jsval \<Rightarrow> string" where
  "category_of n = to_lower (or_text (js_prop n ''category''))"

definition cat :: "q_input \<Rightarrow> string \<Rightarrow> jsval list" where
  "cat q c = js_sort byNewest (filter (\<lambda>n. category_of n = c) (intel_of q))"

definition departed :: "q_input \<Rightarrow> jsval list" where
  "departed q = filter js_truthy (map (\<lambda>n. js_prop n ''entity_id'')
     (filter (\<lambda>n. meta n ''change'' = JStr ''left'') (cat q ''staff_change'')))"

definition holding :: "q_input \<Rightarrow> string \<Rightarrow> jsval list" where
  "holding q role = filter (\<lambda>n. roleOf n = JStr role
     \<and> \<not> (js_truthy (js_prop n ''entity_id'') \<and> js_prop n ''entity_id'' \<in> set (departed q))) (cat q ''authority'')"

definition is_engaged :: "q_input \<Rightarrow> jsval \<Rightarrow> bool" where
  "is_engaged q s = (js_prop s ''id'' \<in> set (qi_engaged q))"

section \<open>The letters\<close>

definition q_metrics :: "q_input \<Rightarrow> finding" where
  "q_metrics q =
     (let goals = js_sort byNewest (cat q ''goal'' @ cat q ''performance'');
          measurable = filter (\<lambda>n. rx_test_i MEASURABLE (textOf n)) goals
      in if measurable \<noteq> [] then mk_finding Confirmed (clip (textOf (hd measurable)) 90) measurable
         else if goals \<noteq> [] then mk_finding Partial (''A goal, but no number on it: '' @ clip (textOf (hd goals)) 70) goals
         else mk_finding Unknown ''No goal or target on record'' [])"

definition q_economic_buyer :: "q_input \<Rightarrow> finding" where
  "q_economic_buyer q =
     (let buyers = holding q ''economic_buyer'';
          deciders = holding q ''decision_maker'';
          seniors = filter (\<lambda>s. is_engaged q s \<and> (rx_test_i SENIOR (or_text (js_prop s ''seniority''))
             \<or> rx_test_i SENIOR (or_text (js_prop s ''title'')))) (qi_people q)
      in if buyers \<noteq> [] then mk_finding Confirmed (clip (textOf (hd buyers)) 90) buyers
         else if deciders \<noteq> [] then mk_finding Partial
           (''A decision maker is named, not who holds the budget: '' @ clip (textOf (hd deciders)) 60) deciders
         else if seniors \<noteq> [] then mk_finding Partial
           ((case filter js_truthy (map (\<lambda>s. js_prop s ''title'') seniors) of [] \<Rightarrow> ''A senior person'' | t # _ \<Rightarrow> js_tostring t)
            @ '' is in conversation, but nobody is named as the one who signs'') []
         else mk_finding Unknown ''Nobody is named as the one who signs'' [])"

text \<open>One statement is quoted, several are counted: the form shared by the criteria and the pain.\<close>

definition q_stated :: "jsval list \<Rightarrow> string \<Rightarrow> string \<Rightarrow> finding" where
  "q_stated ns word missing =
     (if ns \<noteq> [] then mk_finding Confirmed
        (if length ns = 1 then clip (textOf (hd ns)) 90
         else show_nat (length ns) @ word @ clip (textOf (hd ns)) 60) ns
      else mk_finding Unknown missing [])"

definition q_decision_criteria :: "q_input \<Rightarrow> finding" where
  "q_decision_criteria q = q_stated (cat q ''requirement'') '' requirements stated, latest: ''
     ''No requirement for a yes on record''"

definition process_parts :: "q_input \<Rightarrow> jsval list \<Rightarrow> jsval list \<Rightarrow> string list" where
  "process_parts q timelines approvals =
     (if timelines \<noteq> [] then [''a timeline''] else []) @
     (if approvals \<noteq> [] then [''who has to approve''] else []) @
     (if nonempty (qi_closeDate q) then [''a close date''] else [])"

definition q_approvals :: "q_input \<Rightarrow> jsval list" where
  "q_approvals q = filter (\<lambda>n. openNote n \<and> rx_test_i SIGN_OFF (textOf n)) (cat q ''blocker'' @ cat q ''objection'')"

definition q_decision_process :: "q_input \<Rightarrow> finding" where
  "q_decision_process q =
     (let timelines = cat q ''timeline'';
          approvals = q_approvals q;
          process = timelines @ approvals;
          parts = process_parts q timelines approvals
      in if 2 \<le> length parts then mk_finding Confirmed (''Known: '' @ js_join '', '' parts) process
         else if length parts = 1 then mk_finding Partial
           (''Only '' @ hd parts @ '' so far'' @ (if timelines \<noteq> [] then '': '' @ clip (textOf (hd timelines)) 60 else '''')) process
         else mk_finding Unknown ''No timeline, approval steps or close date on record'' [])"

definition q_paper_process :: "q_input \<Rightarrow> finding" where
  "q_paper_process q =
     (let paper = js_sort byNewest (filter (\<lambda>n. category_of n \<in> set PAPER_CATEGORIES \<and> rx_test_i PAPER_WORDS (textOf n)) (intel_of q));
          people = filter (\<lambda>s. rx_test_i PAPER_PERSON (or_text (js_prop s ''title''))) (qi_people q)
      in if paper \<noteq> [] then mk_finding Confirmed (clip (textOf (hd paper)) 90) paper
         else if people \<noteq> [] then mk_finding Partial
           (js_tostring (js_prop (hd people) ''title'') @ '' is on the deal, but the steps to sign have not come up'') []
         else mk_finding Unknown ''Contract, legal and procurement steps have not come up'' [])"

definition q_pain :: "q_input \<Rightarrow> finding" where
  "q_pain q = q_stated (cat q ''pain'') '' pains stated, latest: '' ''No pain on record''"

definition written :: "q_input \<Rightarrow> (jsval \<times> nat) list" where
  "written q = fold (\<lambda>a m. if js_truthy (js_prop a ''contact_id'') \<and> isBuyerResponse a
     then jm_set m (js_prop a ''contact_id'') ((case jm_get m (js_prop a ''contact_id'') of None \<Rightarrow> 0 | Some n \<Rightarrow> n) + 1)
     else m) (qi_activity q) []"

definition written_by :: "q_input \<Rightarrow> jsval \<Rightarrow> nat" where
  "written_by q s = (case jm_get (written q) (js_prop s ''id'') of None \<Rightarrow> 0 | Some n \<Rightarrow> n)"

definition mostActive :: "q_input \<Rightarrow> jsval option" where
  "mostActive q = (case js_sort (desc_by (written_by q)) (filter (is_engaged q) (qi_people q)) of
     [] \<Rightarrow> None | s # _ \<Rightarrow> Some s)"

definition q_champion :: "q_input \<Rightarrow> finding" where
  "q_champion q =
     (let champs = holding q ''champion'' in
      if champs \<noteq> [] then mk_finding Confirmed (clip (textOf (hd champs)) 90) champs
      else (case mostActive q of
          Some s \<Rightarrow> if 3 \<le> written_by q s then mk_finding Partial
              (''Likely '' @ js_tostring (js_or (js_or (js_prop s ''name'') (js_prop s ''title'')) (JStr ''the most active person''))
               @ '', the most active in conversation, but not named as the champion'') []
            else mk_finding Unknown ''Nobody is named as pushing for this on their side'' []
        | None \<Rightarrow> mk_finding Unknown ''Nobody is named as pushing for this on their side'' []))"

definition rival_names :: "jsval list \<Rightarrow> string list" where
  "rival_names rivals = js_uniq (filter (\<lambda>s. s \<noteq> [])
     (map (\<lambda>n. js_trim (text_or_empty (js_coalesce (js_coalesce (meta n ''competitor'') (meta n ''entity'')) (js_prop n ''label'')))) rivals))"

definition q_competition :: "q_input \<Rightarrow> finding" where
  "q_competition q =
     (let rivals = cat q ''competitor''; names = rival_names rivals in
      if rivals \<noteq> [] then mk_finding Confirmed
        (if names \<noteq> [] then ''Named: '' @ js_join '', '' (take 3 names) else clip (textOf (hd rivals)) 90) rivals
      else mk_finding Unknown ''No alternative named, which is not the same as none'' [])"

definition q_out :: "q_input \<Rightarrow> (string \<times> finding) list" where
  "q_out q = [(''metrics'', q_metrics q), (''economic_buyer'', q_economic_buyer q),
     (''decision_criteria'', q_decision_criteria q), (''decision_process'', q_decision_process q),
     (''paper_process'', q_paper_process q), (''pain'', q_pain q), (''champion'', q_champion q),
     (''competition'', q_competition q)]"

record q_item = letter +
  it_status :: q_status
  it_reason :: string
  it_evidence :: "jsval list"
  it_ask :: "string option"

definition mk_item :: "(string \<times> finding) list \<Rightarrow> letter \<Rightarrow> q_item" where
  "mk_item out l = (let f = the (map_of out (lt_key l)) in
     \<lparr>lt_key = lt_key l, lt_letter = lt_letter l, lt_label = lt_label l, lt_ask = lt_ask l,
      it_status = fi_status f, it_reason = fi_reason f, it_evidence = fi_evidence f,
      it_ask = (if fi_status f = Confirmed then None else Some (lt_ask l))\<rparr>)"

record qualification =
  qf_confirmed :: nat
  qf_partial :: nat
  qf_total :: nat
  qf_items :: "q_item list"

definition computeQualification :: "q_input \<Rightarrow> qualification" where
  "computeQualification q =
     (let items = map (mk_item (q_out q)) LETTERS
      in \<lparr>qf_confirmed = length (filter (\<lambda>i. it_status i = Confirmed) items),
          qf_partial = length (filter (\<lambda>i. it_status i = Partial) items),
          qf_total = length items, qf_items = items\<rparr>)"

section \<open>No letter is confirmed by a guess\<close>

lemma cat_mem: "n \<in> set (cat q c) \<longleftrightarrow> n \<in> set (intel_of q) \<and> category_of n = c"
  by (auto simp: cat_def)

lemma holding_mem: "n \<in> set (holding q r) \<longleftrightarrow> n \<in> set (intel_of q) \<and> category_of n = ''authority'' \<and> roleOf n = JStr r
    \<and> \<not> (js_truthy (js_prop n ''entity_id'') \<and> js_prop n ''entity_id'' \<in> set (departed q))"
  by (auto simp: holding_def cat_mem)

text \<open>A finding that rests only on notes of the record.\<close>

definition from_intel :: "q_input \<Rightarrow> finding \<Rightarrow> bool" where
  "from_intel q f = (set (fi_evidence f) \<subseteq> {i. js_truthy i \<and> (\<exists>n \<in> set (intel_of q). js_prop n ''id'' = i)})"

lemma from_intel_mk: "set ns \<subseteq> set (intel_of q) \<Longrightarrow> from_intel q (mk_finding st r ns)"
  by (auto simp: from_intel_def mk_finding_def)

lemma out_from_intel: "(k, f) \<in> set (q_out q) \<Longrightarrow> from_intel q f"
  by (auto simp: q_out_def q_metrics_def q_economic_buyer_def q_decision_criteria_def q_stated_def
      q_decision_process_def q_paper_process_def q_pain_def q_champion_def q_competition_def Let_def
      cat_mem holding_mem q_approvals_def intro!: from_intel_mk split: option.splits)

lemma mk_finding_status [simp]: "fi_status (mk_finding st r ns) = st"
  by (simp add: mk_finding_def)

lemma stated_status: "fi_status (q_stated ns w m) = Confirmed \<longleftrightarrow> ns \<noteq> []"
  by (simp add: q_stated_def)

lemma buyer_status: "fi_status (q_economic_buyer q) = Confirmed \<longleftrightarrow> holding q ''economic_buyer'' \<noteq> []"
  by (simp add: q_economic_buyer_def Let_def)

lemma champion_status: "fi_status (q_champion q) = Confirmed \<longleftrightarrow> holding q ''champion'' \<noteq> []"
  by (simp add: q_champion_def Let_def split: option.splits)

lemma competition_status: "fi_status (q_competition q) = Confirmed \<longleftrightarrow> cat q ''competitor'' \<noteq> []"
  by (simp add: q_competition_def Let_def)

lemma process_status: "fi_status (q_decision_process q) = Confirmed \<longleftrightarrow>
    2 \<le> length (process_parts q (cat q ''timeline'') (q_approvals q))"
  by (simp add: q_decision_process_def Let_def)

lemma metrics_status: "fi_status (q_metrics q) = Confirmed \<longleftrightarrow>
    (\<exists>n \<in> set (intel_of q). category_of n \<in> {''goal'', ''performance''} \<and> rx_test_i MEASURABLE (textOf n))"
proof -
  have "cat q c = [] \<Longrightarrow> n \<in> set (intel_of q) \<Longrightarrow> category_of n \<noteq> c" for n c
    using cat_mem [of n q c] by auto
  then show ?thesis by (auto simp: q_metrics_def Let_def filter_empty_conv cat_mem)
qed

lemma paper_status: "fi_status (q_paper_process q) = Confirmed \<longleftrightarrow>
    (\<exists>n \<in> set (intel_of q). category_of n \<in> set PAPER_CATEGORIES \<and> rx_test_i PAPER_WORDS (textOf n))"
  by (auto simp: q_paper_process_def Let_def filter_empty_conv)

text \<open>When a letter may be confirmed: the fact on the record that answers it.\<close>

definition has_note :: "q_input \<Rightarrow> string \<Rightarrow> bool" where
  "has_note q c = (\<exists>n \<in> set (intel_of q). category_of n = c)"

definition named_role :: "q_input \<Rightarrow> string \<Rightarrow> bool" where
  "named_role q r = (\<exists>n \<in> set (intel_of q). category_of n = ''authority'' \<and> roleOf n = JStr r
     \<and> \<not> (js_truthy (js_prop n ''entity_id'') \<and> js_prop n ''entity_id'' \<in> set (departed q)))"

definition process_known :: "q_input \<Rightarrow> bool" where
  "process_known q = (has_note q ''timeline'' \<and> (q_approvals q \<noteq> [] \<or> nonempty (qi_closeDate q))
     \<or> (q_approvals q \<noteq> [] \<and> nonempty (qi_closeDate q)))"

definition answers :: "q_input \<Rightarrow> (string \<times> bool) list" where
  "answers q =
    [(''metrics'', \<exists>n \<in> set (intel_of q). category_of n \<in> {''goal'', ''performance''} \<and> rx_test_i MEASURABLE (textOf n)),
     (''economic_buyer'', named_role q ''economic_buyer''),
     (''decision_criteria'', has_note q ''requirement''),
     (''decision_process'', process_known q),
     (''paper_process'', \<exists>n \<in> set (intel_of q). category_of n \<in> set PAPER_CATEGORIES \<and> rx_test_i PAPER_WORDS (textOf n)),
     (''pain'', has_note q ''pain''),
     (''champion'', named_role q ''champion''),
     (''competition'', has_note q ''competitor'')]"

definition answered :: "q_input \<Rightarrow> string \<Rightarrow> bool" where
  "answered q k = (map_of (answers q) k = Some True)"

lemma cat_ne: "cat q c \<noteq> [] \<longleftrightarrow> has_note q c"
  unfolding has_note_def by (metis cat_mem empty_iff list.set(1) list.set_intros(1) neq_Nil_conv)

lemma holding_ne: "holding q r \<noteq> [] \<longleftrightarrow> named_role q r"
  unfolding named_role_def by (metis holding_mem empty_iff list.set(1) list.set_intros(1) neq_Nil_conv)

lemma process_parts_two: "2 \<le> length (process_parts q (cat q ''timeline'') (q_approvals q)) \<longleftrightarrow> process_known q"
  using cat_ne [of q "''timeline''"] by (auto simp: process_parts_def process_known_def)

lemma out_answers: "map (\<lambda>(k, f). (k, fi_status f = Confirmed)) (q_out q) = answers q"
  by (simp only: q_out_def answers_def list.map prod.case metrics_status buyer_status champion_status
      competition_status process_status paper_status q_decision_criteria_def q_pain_def stated_status cat_ne
      holding_ne process_parts_two)

lemma out_status: "(k, f) \<in> set (q_out q) \<Longrightarrow> fi_status f = Confirmed \<longleftrightarrow> answered q k"
proof -
  assume kf: "(k, f) \<in> set (q_out q)"
  have "distinct (map fst (q_out q))" by (simp add: q_out_def)
  moreover have "map fst (q_out q) = map fst (answers q)" by (simp add: q_out_def answers_def)
  moreover have "(k, fi_status f = Confirmed) \<in> set (answers q)"
    unfolding out_answers [symmetric] using kf by force
  ultimately show ?thesis by (auto simp: answered_def map_of_eq_Some_iff)
qed

lemma items_of: "i \<in> set (qf_items (computeQualification q)) \<Longrightarrow>
    \<exists>f. (lt_key i, f) \<in> set (q_out q) \<and> it_status i = fi_status f \<and> it_evidence i = fi_evidence f
      \<and> it_ask i = (if fi_status f = Confirmed then None else Some (lt_ask i))"
proof -
  assume "i \<in> set (qf_items (computeQualification q))"
  then obtain l where l: "l \<in> set LETTERS" and i: "i = mk_item (q_out q) l"
    by (auto simp: computeQualification_def Let_def)
  have "map fst (q_out q) = map lt_key LETTERS" by (simp add: q_out_def LETTERS_def mk_letter_def)
  then have "lt_key l \<in> fst ` set (q_out q)" using l by (metis image_set imageI)
  then obtain f where f: "map_of (q_out q) (lt_key l) = Some f" by (metis map_of_eq_None_iff not_None_eq)
  from map_of_SomeD [OF f] show ?thesis
    by (intro exI [of _ f]) (simp add: i mk_item_def Let_def f)
qed

text \<open>C26: No letter is confirmed by a guess. Each of the eight letters is confirmed exactly when the record
  holds the fact that answers it (a named holder of the role who has not left, a measurable goal, two
  of timeline, approvals and close date, ...); its evidence cites only extracted notes of this record;
  and a letter that is not confirmed carries its question.\<close>

theorem no_letter_by_guess:
  assumes i: "i \<in> set (qf_items (computeQualification q))"
  shows "(it_status i = Confirmed \<longleftrightarrow> answered q (lt_key i))
    \<and> (it_ask i = None \<longleftrightarrow> it_status i = Confirmed)
    \<and> set (it_evidence i) \<subseteq> {e. js_truthy e \<and> (\<exists>n \<in> set (qi_notes q). js_prop n ''id'' = e
          \<and> js_prop n ''source'' = JStr ''signal_extraction'')}"
proof -
  obtain f where f: "(lt_key i, f) \<in> set (q_out q)" "it_status i = fi_status f" "it_evidence i = fi_evidence f"
    "it_ask i = (if fi_status f = Confirmed then None else Some (lt_ask i))"
    using items_of [OF i] by blast
  have "set (fi_evidence f) \<subseteq> {e. js_truthy e \<and> (\<exists>n \<in> set (qi_notes q). js_prop n ''id'' = e
          \<and> js_prop n ''source'' = JStr ''signal_extraction'')}"
    using out_from_intel [OF f(1)] by (auto simp: from_intel_def intel_of_def)
  with f out_status [OF f(1)] show ?thesis by simp
qed

definition demo_q :: q_input where
  "demo_q = \<lparr>qi_notes = [JObj [(''id'', JStr ''n1''), (''source'', JStr ''signal_extraction''), (''category'', JStr ''pain''),
      (''content'', JStr ''manual''), (''created_at'', JStr ''2026-01-01'')]],
     qi_people = [], qi_engaged = [], qi_activity = [], qi_closeDate = None\<rparr>"

lemma demo_q_items: "it_status (qf_items (computeQualification demo_q) ! 5) = Confirmed"
  "lt_key (qf_items (computeQualification demo_q) ! 5) = ''pain''" "length (qf_items (computeQualification demo_q)) = 8"
  by code_simp+

theorem no_letter_by_guess_witness: "answered demo_q ''pain''"
  using no_letter_by_guess [of "qf_items (computeQualification demo_q) ! 5" demo_q] demo_q_items
  by (simp add: nth_mem)

end
