(* ===== verification/LivingDoc.thy ===== *)
theory LivingDoc
  imports JsNumber JsArrays
begin

text \<open>
  The document model behind a living file, \<^verbatim>\<open>apps/api/src/lib/livingDoc.mjs\<close>: markdown to
  sections and blocks with persistent ids and back, and the edit operations the writing model sends.
  The first eight hexadecimal digits of SHA-1 are the parameter \<open>sha8\<close>; \<open>used\<close> lists the ids
  taken so far, passed along where the code mutates a set. Reasons for skipping are constructors.
\<close>

section \<open>Lines, headings and fences\<close>

definition CR :: char where "CR = CHR 0x0D"

definition lines_of :: "string \<Rightarrow> string list" where
  "lines_of s = split_on nl s"

definition blank :: "string \<Rightarrow> bool" where
  "blank l = (js_trim l = [])"

text \<open>The match of the heading pattern: its level and its trimmed text. A carriage return inside the text
  is a line end for the pattern, which then does not match.\<close>

definition heading_line :: "string \<Rightarrow> (nat \<times> string) option" where
  "heading_line line =
     (let n = length (takeWhile (\<lambda>c. c = CHR ''#'') line);
          r = dropWhile (\<lambda>c. c = CHR ''#'') line;
          h = js_trim r
      in if 1 \<le> n \<and> n \<le> 6 \<and> r \<noteq> [] \<and> is_ws (hd r) \<and> h \<noteq> [] \<and> CR \<notin> set h then Some (n, h) else None)"

text \<open>The run of three or more backticks or tildes that opens or closes a fence.\<close>

definition fence_mark :: "string \<Rightarrow> string option" where
  "fence_mark line =
     (case dropWhile is_ws line of [] \<Rightarrow> None
      | c # r \<Rightarrow>
         let run = takeWhile (\<lambda>x. x = c) (c # r)
         in if (c = CHR 0x60 \<or> c = CHR ''~'') \<and> 3 \<le> length run then Some run else None)"

definition fenceStep :: "string option \<Rightarrow> string \<Rightarrow> string option" where
  "fenceStep f0 mark = (case f0 of None \<Rightarrow> Some mark
     | Some f \<Rightarrow> if hd mark = hd f \<and> length f \<le> length mark then None else f0)"

definition fence_after :: "string option \<Rightarrow> string \<Rightarrow> string option" where
  "fence_after f line = (case fence_mark line of Some m \<Rightarrow> fenceStep f m | None \<Rightarrow> f)"

definition unclosedFence :: "string \<Rightarrow> bool" where
  "unclosedFence text = (fold (\<lambda>l f. fence_after f l) (lines_of text) None \<noteq> None)"

definition trimBlankLines :: "string \<Rightarrow> string" where
  "trimBlankLines text = js_join [nl] (rev (dropWhile blank (rev (dropWhile blank (lines_of text)))))"

section \<open>Splitting\<close>

record raw_section =
  rs_heading :: string
  rs_level :: nat
  rs_blocks :: "string list"

definition flush_block :: "string list \<Rightarrow> string list" where
  "flush_block buf = (let t = trimBlankLines (js_join [nl] buf) in if js_trim t \<noteq> [] then [t] else [])"

fun blocks_from :: "string list \<Rightarrow> string option \<Rightarrow> string list \<Rightarrow> string list" where
  "blocks_from buf f [] = flush_block buf"
| "blocks_from buf f (line # ls) =
     (case fence_mark line of
        Some m \<Rightarrow> blocks_from (buf @ [line]) (fenceStep f m) ls
      | None \<Rightarrow> if f = None \<and> blank line then flush_block buf @ blocks_from [] f ls
               else blocks_from (buf @ [line]) f ls)"

definition blocksOf :: "string list \<Rightarrow> string list" where
  "blocksOf ls = blocks_from [] None ls"

definition close_section :: "(string \<times> nat) option \<Rightarrow> string list \<Rightarrow> raw_section list" where
  "close_section current pending = (case current of
      Some (h, n) \<Rightarrow> [\<lparr>rs_heading = h, rs_level = n, rs_blocks = blocksOf pending\<rparr>]
    | None \<Rightarrow> if list_ex (\<lambda>l. \<not> blank l) pending
             then [\<lparr>rs_heading = '''', rs_level = 2, rs_blocks = blocksOf pending\<rparr>] else [])"

fun split_from :: "(string \<times> nat) option \<Rightarrow> string list \<Rightarrow> string option \<Rightarrow> string list \<Rightarrow> raw_section list" where
  "split_from current pending fence [] = close_section current pending"
| "split_from current pending fence (line # ls) =
     (case fence_mark line of
        Some m \<Rightarrow> split_from current (pending @ [line]) (fenceStep fence m) ls
      | None \<Rightarrow> (case (if fence = None then heading_line line else None) of
            None \<Rightarrow> split_from current (pending @ [line]) fence ls
          | Some (n, h) \<Rightarrow> close_section current pending @ split_from (Some (h, n)) [] fence ls))"

fun drop_crlf :: "string \<Rightarrow> string" where
  "drop_crlf (a # b # s) = (if a = CR \<and> b = nl then nl # drop_crlf s else a # drop_crlf (b # s))"
| "drop_crlf s = s"

definition splitRaw :: "string \<Rightarrow> raw_section list" where
  "splitRaw markdown = split_from None [] None (lines_of (drop_crlf markdown))"

definition fragments :: "string \<Rightarrow> string list" where
  "fragments text = concat (map rs_blocks (splitRaw text))"

section \<open>Ids\<close>

fun slug_chars :: "bool \<Rightarrow> string \<Rightarrow> string" where
  "slug_chars gap [] = (if gap then ''-'' else '''')"
| "slug_chars gap (c # s) =
     (if in_ranges c [(CHR ''a'', CHR ''z''), (CHR ''0'', CHR ''9'')]
      then (if gap then ''-'' else '''') @ c # slug_chars False s else slug_chars True s)"

definition strip_dashes :: "string \<Rightarrow> string" where
  "strip_dashes s = rev (dropWhile (\<lambda>c. c = CHR ''-'') (rev (dropWhile (\<lambda>c. c = CHR ''-'') s)))"

definition slugify :: "string \<Rightarrow> string" where
  "slugify heading = (let s = strip_dashes (slug_chars False (to_lower (js_trim heading)))
     in if s = [] then ''section'' else s)"

text \<open>The first of base, base-2, base-3, ... that is free. One of the first \<open>length used + 1\<close> is.\<close>

definition numbered :: "string \<Rightarrow> nat \<Rightarrow> string" where
  "numbered base i = base @ ''-'' @ show_nat i"

definition unique_id :: "string \<Rightarrow> string list \<Rightarrow> string" where
  "unique_id base used = (if base \<notin> set used then base
     else (case List.find (\<lambda>i. numbered base i \<notin> set used) [2..<length used + 3] of
             Some i \<Rightarrow> numbered base i | None \<Rightarrow> base))"

definition newBlockId :: "(string \<Rightarrow> string) \<Rightarrow> string \<Rightarrow> string list \<Rightarrow> string" where
  "newBlockId sha8 text used = unique_id (CHR ''b'' # sha8 text) used"

section \<open>Documents\<close>

record block =
  bl_id :: string
  bl_text :: string
  bl_cites :: "string list option"

record doc_section =
  ds_id :: string
  ds_heading :: string
  ds_level :: nat
  ds_blocks :: "block list"

definition render_part :: "string \<Rightarrow> nat \<Rightarrow> string list \<Rightarrow> string" where
  "render_part heading level texts =
     js_join [nl, nl] ((if js_trim heading \<noteq> [] then [replicate level CHR ''#'' @ '' '' @ js_trim heading] else [])
        @ filter (\<lambda>t. js_trim t \<noteq> []) texts)"

definition render_parts :: "string list \<Rightarrow> string" where
  "render_parts ps = (let parts = filter (\<lambda>p. p \<noteq> []) ps in if parts \<noteq> [] then js_join [nl, nl] parts @ [nl] else '''')"

definition renderDoc :: "doc_section list \<Rightarrow> string" where
  "renderDoc doc = render_parts (map (\<lambda>s. render_part (ds_heading s) (ds_level s) (map bl_text (ds_blocks s))) doc)"

section \<open>Operations\<close>

datatype edit_op =
    AppendBlock string string "string list option"
  | InsertBlock string "string option" string "string list option"
  | ReplaceBlock string string string "string list option"
  | RemoveBlock string string
  | AddSection string nat "string list" "string option" "string list option"
  | RemoveSection string
  | ReplaceSectionBlocks string "string list" "string list option"
  | RenameSection string string
  | OtherOp

datatype skip_reason =
    SectionExists string | UnknownAfterSection string | UnknownSection | BlockElsewhere string string
  | UnknownBlock string | NoChange | SectionRequired | HeadingRequired | UnknownOp

record applied_op =
  ap_section :: string
  ap_from :: "string option"
  ap_added :: nat
  ap_updated :: nat
  ap_removed :: nat
  ap_new_section :: bool
  ap_removed_section :: bool
  ap_renamed :: bool

definition mk_applied :: "string \<Rightarrow> nat \<Rightarrow> nat \<Rightarrow> nat \<Rightarrow> applied_op" where
  "mk_applied sec a u r = \<lparr>ap_section = sec, ap_from = None, ap_added = a, ap_updated = u, ap_removed = r,
     ap_new_section = False, ap_removed_section = False, ap_renamed = False\<rparr>"

text \<open>What one operation does: the document and the used ids after it, or a reason for skipping it.\<close>

type_synonym op_result = "skip_reason + doc_section list \<times> string list \<times> applied_op"

definition norm_heading :: "string \<Rightarrow> string" where
  "norm_heading h = to_lower (js_trim h)"

definition isRequired :: "string \<Rightarrow> string list \<Rightarrow> bool" where
  "isRequired heading required = list_ex (\<lambda>r. norm_heading r = norm_heading heading) required"

definition label :: "doc_section \<Rightarrow> string" where
  "label s = (if ds_heading s = [] then ''the intro'' else ds_heading s)"

text \<open>New blocks for the fragments of a text, each with a fresh id.\<close>

fun mint_texts :: "(string \<Rightarrow> string) \<Rightarrow> string list option \<Rightarrow> string list \<Rightarrow> string list \<Rightarrow> block list \<times> string list" where
  "mint_texts sha8 cites [] used = ([], used)"
| "mint_texts sha8 cites (t # ts) used =
     (let i = newBlockId sha8 t used;
          (bs, used') = mint_texts sha8 cites ts (i # used)
      in (\<lparr>bl_id = i, bl_text = t, bl_cites = cites\<rparr> # bs, used'))"

definition mint :: "(string \<Rightarrow> string) \<Rightarrow> string \<Rightarrow> string list option \<Rightarrow> string list \<Rightarrow> block list \<times> string list" where
  "mint sha8 text cites used = mint_texts sha8 cites (fragments text) used"

definition unionCites :: "string list option \<Rightarrow> string list option \<Rightarrow> string list option" where
  "unionCites a b = (let xs = js_uniq ((case a of None \<Rightarrow> [] | Some x \<Rightarrow> x) @ (case b of None \<Rightarrow> [] | Some y \<Rightarrow> y))
     in if xs = [] then None else Some xs)"

definition cites_count :: "string list option \<Rightarrow> nat" where
  "cites_count c = (case c of None \<Rightarrow> 0 | Some xs \<Rightarrow> length xs)"

definition put_section :: "doc_section list \<Rightarrow> nat \<Rightarrow> doc_section \<Rightarrow> doc_section list" where
  "put_section doc i s = doc[i := s]"

definition splice_in :: "'a list \<Rightarrow> nat \<Rightarrow> 'a list \<Rightarrow> 'a list" where
  "splice_in xs i ys = take i xs @ ys @ drop i xs"

definition remove_at :: "'a list \<Rightarrow> nat \<Rightarrow> 'a list" where
  "remove_at xs i = take i xs @ drop (Suc i) xs"

text \<open>\<open>findBlock\<close>: the position in the section, or why there is none.\<close>

definition findBlock :: "doc_section list \<Rightarrow> doc_section \<Rightarrow> string \<Rightarrow> skip_reason + nat" where
  "findBlock doc s bid = (case find_index (\<lambda>b. bl_id b = bid) (ds_blocks s) of
      Some i \<Rightarrow> Inr i
    | None \<Rightarrow> (case List.find (\<lambda>x. list_ex (\<lambda>b. bl_id b = bid) (ds_blocks x)) doc of
          Some e \<Rightarrow> Inl (BlockElsewhere bid (ds_id e)) | None \<Rightarrow> Inl (UnknownBlock bid)))"

text \<open>Blocks re-sent with the same text take the first free old block with that text.\<close>

fun reuse_blocks :: "block list \<Rightarrow> string list \<Rightarrow> block option list \<times> block list" where
  "reuse_blocks free [] = ([], free)"
| "reuse_blocks free (t # ts) =
     (case find_index (\<lambda>b. bl_text b = t) free of
        None \<Rightarrow> (let (r, f) = reuse_blocks free ts in (None # r, f))
      | Some i \<Rightarrow> (let (r, f) = reuse_blocks (remove_at free i) ts in (Some (free ! i) # r, f)))"

fun fill_blocks :: "(string \<Rightarrow> string) \<Rightarrow> string list option \<Rightarrow> (string \<times> block option) list \<Rightarrow> string list \<Rightarrow> block list \<times> string list" where
  "fill_blocks sha8 c [] used = ([], used)"
| "fill_blocks sha8 c ((t, Some b) # r) used = (let (bs, u) = fill_blocks sha8 c r used in (b # bs, u))"
| "fill_blocks sha8 c ((t, None) # r) used =
     (let i = newBlockId sha8 t used; (bs, u) = fill_blocks sha8 c r (i # used)
      in (\<lparr>bl_id = i, bl_text = t, bl_cites = c\<rparr> # bs, u))"

definition op_add_section ::
  "(string \<Rightarrow> string) \<Rightarrow> doc_section list \<Rightarrow> string list \<Rightarrow> string \<Rightarrow> nat \<Rightarrow> string list \<Rightarrow> string option
    \<Rightarrow> string list option \<Rightarrow> op_result" where
  "op_add_section sha8 doc used heading level texts after c =
     (case List.find (\<lambda>s. norm_heading (ds_heading s) = norm_heading heading) doc of
        Some s \<Rightarrow> Inl (SectionExists (ds_id s))
      | None \<Rightarrow>
         (case (case after of None \<Rightarrow> Inr (length doc)
                | Some a \<Rightarrow> (case find_index (\<lambda>s. ds_id s = a) doc of
                     None \<Rightarrow> Inl (UnknownAfterSection a) | Some i \<Rightarrow> Inr (Suc i))) of
            Inl r \<Rightarrow> Inl r
          | Inr at' \<Rightarrow>
              (let (blocks, used1) = mint_texts sha8 c (concat (map fragments texts)) used;
                   sid = unique_id (slugify heading) used1;
                   s = \<lparr>ds_id = sid, ds_heading = js_trim heading, ds_level = level, ds_blocks = blocks\<rparr>
               in Inr (splice_in doc at' [s], sid # used1,
                    (mk_applied (js_trim heading) (length blocks) 0 0)\<lparr>ap_new_section := True\<rparr>))))"

text \<open>An operation inside the section at position \<open>k\<close>.\<close>

fun op_in_section ::
  "(string \<Rightarrow> string) \<Rightarrow> string list \<Rightarrow> doc_section list \<Rightarrow> string list \<Rightarrow> nat \<Rightarrow> edit_op \<Rightarrow> op_result" where
  "op_in_section sha8 required doc used k (AppendBlock sid text c) =
     (let s = doc ! k; (nb, used') = mint sha8 text c used
      in Inr (doc[k := s\<lparr>ds_blocks := ds_blocks s @ nb\<rparr>], used', mk_applied (label s) (length nb) 0 0))"
| "op_in_section sha8 required doc used k (InsertBlock sid after text c) =
     (let s = doc ! k in
      case (case after of None \<Rightarrow> Inr 0 | Some bid \<Rightarrow> map_sum id Suc (findBlock doc s bid)) of
        Inl r \<Rightarrow> Inl r
      | Inr at' \<Rightarrow> (let (nb, used') = mint sha8 text c used
          in Inr (doc[k := s\<lparr>ds_blocks := splice_in (ds_blocks s) at' nb\<rparr>], used', mk_applied (label s) (length nb) 0 0)))"
| "op_in_section sha8 required doc used k (ReplaceBlock sid bid text c) =
     (let s = doc ! k in
      case findBlock doc s bid of
        Inl r \<Rightarrow> Inl r
      | Inr i \<Rightarrow>
         (let fs = fragments text; first = (case fs of [] \<Rightarrow> '''' | f # _ \<Rightarrow> f); rest = tl fs;
              old = ds_blocks s ! i; cites = unionCites (bl_cites old) c;
              grows = (cites_count cites > cites_count (bl_cites old))
          in if first = bl_text old \<and> rest = [] \<and> \<not> grows then Inl NoChange
             else (let (nb, used') = mint_texts sha8 c rest used;
                       b = \<lparr>bl_id = bl_id old, bl_text = first, bl_cites = cites\<rparr>
               in Inr (doc[k := s\<lparr>ds_blocks := splice_in ((ds_blocks s)[i := b]) (Suc i) nb\<rparr>], used',
                    mk_applied (label s) (length nb) 1 0))))"
| "op_in_section sha8 required doc used k (RemoveBlock sid bid) =
     (let s = doc ! k in
      case findBlock doc s bid of
        Inl r \<Rightarrow> Inl r
      | Inr i \<Rightarrow> Inr (doc[k := s\<lparr>ds_blocks := remove_at (ds_blocks s) i\<rparr>], used, mk_applied (label s) 0 0 1))"
| "op_in_section sha8 required doc used k (RemoveSection sid) =
     (let s = doc ! k in
      if isRequired (ds_heading s) required \<or> ds_heading s = [] then Inl SectionRequired
      else Inr (remove_at doc k, used, (mk_applied (label s) 0 0 (length (ds_blocks s)))\<lparr>ap_removed_section := True\<rparr>))"
| "op_in_section sha8 required doc used k (ReplaceSectionBlocks sid texts c) =
     (let s = doc ! k; old = ds_blocks s; ts = concat (map fragments texts);
          blocks = fst (reuse_blocks old ts);
          (fresh, used') = fill_blocks sha8 c (zip ts blocks) used
      in if map bl_id fresh = map bl_id old then Inl NoChange
         else (let kept = length (filter (\<lambda>b. b \<noteq> None) blocks);
                   added = length fresh - kept; removed = length old - kept; updated = min added removed
           in Inr (doc[k := s\<lparr>ds_blocks := fresh\<rparr>], used', mk_applied (label s) (added - updated) updated (removed - updated))))"
| "op_in_section sha8 required doc used k (RenameSection sid new_heading) =
     (let s = doc ! k in
      if to_lower (ds_heading s) = norm_heading new_heading then Inl NoChange
      else if isRequired (ds_heading s) required then Inl HeadingRequired
      else Inr (doc[k := s\<lparr>ds_heading := js_trim new_heading\<rparr>], used,
             (mk_applied (js_trim new_heading) 0 0 0)\<lparr>ap_from := Some (ds_heading s), ap_renamed := True\<rparr>))"
| "op_in_section sha8 required doc used k _ = Inl UnknownOp"

fun op_section_id :: "edit_op \<Rightarrow> string option" where
  "op_section_id (AppendBlock sid _ _) = Some sid"
| "op_section_id (InsertBlock sid _ _ _) = Some sid"
| "op_section_id (ReplaceBlock sid _ _ _) = Some sid"
| "op_section_id (RemoveBlock sid _) = Some sid"
| "op_section_id (RemoveSection sid) = Some sid"
| "op_section_id (ReplaceSectionBlocks sid _ _) = Some sid"
| "op_section_id (RenameSection sid _) = Some sid"
| "op_section_id _ = None"

definition apply_op ::
  "(string \<Rightarrow> string) \<Rightarrow> string list \<Rightarrow> edit_op \<Rightarrow> doc_section list \<Rightarrow> string list \<Rightarrow> op_result" where
  "apply_op sha8 required op doc used = (case op of
      AddSection heading level texts after c \<Rightarrow> op_add_section sha8 doc used heading level texts after c
    | _ \<Rightarrow> (case Option.bind (op_section_id op) (\<lambda>sid. find_index (\<lambda>s. ds_id s = sid) doc) of
          None \<Rightarrow> Inl UnknownSection
        | Some k \<Rightarrow> op_in_section sha8 required doc used k op))"

record edit_state =
  es_doc :: "doc_section list"
  es_used :: "string list"
  es_applied :: "applied_op list"
  es_skipped :: "(nat \<times> edit_op \<times> skip_reason) list"

definition edit_step :: "(string \<Rightarrow> string) \<Rightarrow> string list \<Rightarrow> nat \<times> edit_op \<Rightarrow> edit_state \<Rightarrow> edit_state" where
  "edit_step sha8 required iop st =
     (case apply_op sha8 required (snd iop) (es_doc st) (es_used st) of
        Inl r \<Rightarrow> st\<lparr>es_skipped := es_skipped st @ [(fst iop, snd iop, r)]\<rparr>
      | Inr (doc, used, a) \<Rightarrow> st\<lparr>es_doc := doc, es_used := used, es_applied := es_applied st @ [a]\<rparr>)"

definition block_ids :: "doc_section list \<Rightarrow> string list" where
  "block_ids doc = concat (map (\<lambda>s. map bl_id (ds_blocks s)) doc)"

definition doc_ids :: "doc_section list \<Rightarrow> string list" where
  "doc_ids doc = concat (map (\<lambda>s. ds_id s # map bl_id (ds_blocks s)) doc)"

definition applyOps :: "(string \<Rightarrow> string) \<Rightarrow> string list \<Rightarrow> doc_section list \<Rightarrow> edit_op list \<Rightarrow> edit_state" where
  "applyOps sha8 required doc ops =
     fold (edit_step sha8 required) (enumerate 0 ops)
       \<lparr>es_doc = doc, es_used = doc_ids doc, es_applied = [], es_skipped = []\<rparr>"

section \<open>Fresh ids\<close>

lemma numbered_inj: "numbered b i = numbered b j \<longleftrightarrow> i = j"
  by (simp add: numbered_def show_nat_inj)

text \<open>More candidates than used ids, so one of them is free.\<close>

lemma unique_id_fresh: "unique_id base used \<notin> set used"
proof -
  let ?I = "[2..<length used + 3]"
  have "\<exists>i \<in> set ?I. numbered base i \<notin> set used"
  proof (rule ccontr)
    assume "\<not> ?thesis"
    then have sub: "numbered base ` set ?I \<subseteq> set used" by auto
    have "card (numbered base ` set ?I) = card (set ?I)"
      by (rule card_image) (simp add: inj_on_def numbered_inj)
    then have "Suc (length used) \<le> card (set used)"
      using card_mono [OF _ sub] by simp
    then show False using card_length [of used] by simp
  qed
  then show ?thesis
    by (auto simp: unique_id_def find_None_iff split: option.splits dest: find_Some_D)
qed

lemma newBlockId_fresh: "newBlockId sha8 t used \<notin> set used"
  by (simp add: newBlockId_def unique_id_fresh)

lemma mint_texts_fresh:
  "mint_texts sha8 c ts used = (bs, used') \<Longrightarrow>
   distinct (map bl_id bs) \<and> set (map bl_id bs) \<inter> set used = {} \<and> set used' = set used \<union> set (map bl_id bs)
     \<and> map bl_text bs = ts"
proof (induction ts arbitrary: used bs used')
  case (Cons t ts)
  obtain bs1 u1 where r: "mint_texts sha8 c ts (newBlockId sha8 t used # used) = (bs1, u1)" by force
  with Cons.prems have "bs = \<lparr>bl_id = newBlockId sha8 t used, bl_text = t, bl_cites = c\<rparr> # bs1" "used' = u1"
    by (auto simp: Let_def)
  with Cons.IH [OF r] newBlockId_fresh [of sha8 t used] show ?case by auto
qed simp

section \<open>The invariant of an edit\<close>

lemma block_ids_upd:
  "k < length doc \<Longrightarrow> block_ids (doc[k := s]) =
     block_ids (take k doc) @ map bl_id (ds_blocks s) @ block_ids (drop (Suc k) doc)"
  by (simp add: block_ids_def upd_conv_take_nth_drop)

lemma block_ids_at:
  "k < length doc \<Longrightarrow> block_ids doc =
     block_ids (take k doc) @ map bl_id (ds_blocks (doc ! k)) @ block_ids (drop (Suc k) doc)"
  using block_ids_upd [of k doc "doc ! k"] by simp

lemma set_block_ids: "set (block_ids doc) = (\<Union>s \<in> set doc. bl_id ` set (ds_blocks s))"
  by (auto simp: block_ids_def)

lemma set_doc_ids: "set (doc_ids doc) = ds_id ` set doc \<union> set (block_ids doc)"
  by (auto simp: doc_ids_def block_ids_def)

definition edit_wf :: "doc_section list \<Rightarrow> string list \<Rightarrow> bool" where
  "edit_wf doc used = (distinct (map ds_id doc) \<and> distinct (block_ids doc) \<and> set (doc_ids doc) \<subseteq> set used)"

lemma distinct_middle:
  "distinct (L @ M @ R) \<Longrightarrow> set L \<union> set R \<subseteq> U \<Longrightarrow> distinct N \<Longrightarrow>
   \<forall>x \<in> set N. x \<in> set M \<or> x \<notin> U \<Longrightarrow> distinct (L @ N @ R)"
  by (simp only: distinct_append set_append) blast

text \<open>Rewriting the blocks of one section keeps the invariant when the new ids are old or fresh.\<close>

lemma edit_wf_upd:
  assumes wf: "edit_wf doc used" and k: "k < length doc" and i: "ds_id s = ds_id (doc ! k)"
    and d: "distinct (map bl_id (ds_blocks s))"
    and ids: "\<forall>x \<in> set (map bl_id (ds_blocks s)). x \<in> set (map bl_id (ds_blocks (doc ! k))) \<or> x \<notin> set used"
    and used: "set used \<union> set (map bl_id (ds_blocks s)) \<subseteq> set used'"
  shows "edit_wf (doc[k := s]) used'"
proof -
  let ?L = "block_ids (take k doc)" and ?R = "block_ids (drop (Suc k) doc)"
  from wf have old: "distinct (?L @ map bl_id (ds_blocks (doc ! k)) @ ?R)"
    and sub: "set (doc_ids doc) \<subseteq> set used" and ds: "distinct (map ds_id doc)"
    by (auto simp: edit_wf_def block_ids_at [OF k])
  have LR: "set ?L \<union> set ?R \<subseteq> set used"
    using sub block_ids_at [OF k] by (auto simp: set_doc_ids)
  have "distinct (block_ids (doc[k := s]))"
    unfolding block_ids_upd [OF k] using old LR d ids by (rule distinct_middle)
  moreover have "map ds_id (doc[k := s]) = map ds_id doc"
    using i by (metis list_update_id map_update nth_map k)
  moreover have "set (doc_ids (doc[k := s])) \<subseteq> set used'"
  proof -
    have "ds_id ` set (doc[k := s]) = ds_id ` set doc"
      using \<open>map ds_id (doc[k := s]) = map ds_id doc\<close> by (metis set_map)
    moreover have "set (block_ids (doc[k := s])) \<subseteq> set used'"
      unfolding block_ids_upd [OF k] using LR used by auto
    ultimately show ?thesis using sub used by (auto simp: set_doc_ids)
  qed
  ultimately show ?thesis using ds by (simp add: edit_wf_def)
qed

lemma edit_wf_blocks:
  "edit_wf doc used \<Longrightarrow> k < length doc \<Longrightarrow>
   distinct (map bl_id (ds_blocks (doc ! k))) \<and> set (map bl_id (ds_blocks (doc ! k))) \<subseteq> set used"
  unfolding edit_wf_def block_ids_at set_doc_ids by auto

lemma distinct_splice_in:
  "distinct xs \<Longrightarrow> distinct ys \<Longrightarrow> set xs \<inter> set ys = {} \<Longrightarrow> distinct (splice_in xs i ys)"
proof -
  assume "distinct xs" "distinct ys" "set xs \<inter> set ys = {}"
  moreover from \<open>distinct xs\<close> have "distinct (take i xs @ drop i xs)" by simp
  ultimately show ?thesis unfolding splice_in_def
    using set_take_subset [of i xs] set_drop_subset [of i xs]
    by (simp only: distinct_append set_append) blast
qed

lemma set_splice_in [simp]: "set (splice_in xs i ys) = set xs \<union> set ys"
  unfolding splice_in_def by (metis append_take_drop_id set_append Un_assoc Un_commute Un_left_commute)

lemma map_splice_in [simp]: "map f (splice_in xs i ys) = splice_in (map f xs) i (map f ys)"
  by (simp add: splice_in_def take_map drop_map)

lemma map_remove_at [simp]: "map f (remove_at xs i) = remove_at (map f xs) i"
  by (simp add: remove_at_def take_map drop_map)

lemma mset_remove_at: "i < length xs \<Longrightarrow> mset (remove_at xs i) + {#xs ! i#} = mset xs"
  by (metis add_mset_add_single id_take_nth_drop mset.simps(2) mset_append remove_at_def union_mset_add_mset_right)

lemma distinct_remove_at: "distinct xs \<Longrightarrow> distinct (remove_at xs i)"
  unfolding remove_at_def
  using set_take_disj_set_drop_if_distinct [of xs i "Suc i"] by (simp add: distinct_take distinct_drop)

lemma set_remove_at: "set (remove_at xs i) \<subseteq> set xs"
  unfolding remove_at_def using set_take_subset [of i xs] set_drop_subset [of "Suc i" xs] by auto

lemma reuse_blocks_mset:
  "reuse_blocks free ts = (r, free') \<Longrightarrow> mset (concat (map (\<lambda>b. case b of None \<Rightarrow> [] | Some x \<Rightarrow> [x]) r)) + mset free' = mset free
     \<and> length r = length ts"
proof (induction free ts arbitrary: r free' rule: reuse_blocks.induct)
  case (2 free t ts)
  show ?case
  proof (cases "find_index (\<lambda>b. bl_text b = t) free")
    case None
    with 2 show ?thesis by (auto split: prod.splits)
  next
    case (Some i)
    obtain r1 f1 where rec: "reuse_blocks (remove_at free i) ts = (r1, f1)" by force
    with Some "2.prems" have r: "r = Some (free ! i) # r1" "free' = f1" by auto
    have "i < length free" using find_index_Some [OF Some] by simp
    with "2.IH"(2) [OF Some rec] mset_remove_at [of i free] show ?thesis
      by (simp add: r)
  qed
qed simp

lemma fill_blocks_ids:
  "fill_blocks sha8 c tb used = (bs, used') \<Longrightarrow>
   \<exists>new. mset (map bl_id bs) = mset (map bl_id (concat (map (\<lambda>(t, b). case b of None \<Rightarrow> [] | Some x \<Rightarrow> [x]) tb))) + mset new
     \<and> distinct new \<and> set new \<inter> set used = {} \<and> set used' = set used \<union> set new"
proof (induction sha8 c tb used arbitrary: bs used' rule: fill_blocks.induct)
  case (1 sha8 c used)
  then show ?case by (intro exI [of _ "[]"]) simp
next
  case (2 sha8 c t b r used)
  obtain bs1 u1 where rec: "fill_blocks sha8 c r used = (bs1, u1)" by force
  with "2.IH" [OF rec] "2.prems" show ?case by auto
next
  case (3 sha8 c t r used)
  let ?i = "newBlockId sha8 t used"
  obtain bs1 u1 where rec: "fill_blocks sha8 c r (?i # used) = (bs1, u1)" by force
  from "3.IH" [OF refl rec] obtain new where
    new: "mset (map bl_id bs1) = mset (map bl_id (concat (map (\<lambda>(t, b). case b of None \<Rightarrow> [] | Some x \<Rightarrow> [x]) r))) + mset new"
      "distinct new" "set new \<inter> set (?i # used) = {}" "set u1 = set (?i # used) \<union> set new" by blast
  with rec "3.prems" newBlockId_fresh [of sha8 t used] show ?case
    by (intro exI [of _ "?i # new"]) (auto simp: Let_def)
qed

section \<open>Every operation keeps the invariant\<close>

lemma block_ids_parts: "set (block_ids (take n doc)) \<union> set (block_ids (drop n doc)) \<subseteq> set (block_ids doc)"
  by (auto simp: set_block_ids dest: in_set_takeD in_set_dropD)

lemma wf_add_section:
  assumes wf: "edit_wf doc used" and r: "op_add_section sha8 doc used h n texts after c = Inr (doc', used', a)"
  shows "edit_wf doc' used'"
proof -
  obtain at' blocks used1 sid where m: "mint_texts sha8 c (concat (map fragments texts)) used = (blocks, used1)"
    and sid: "sid = unique_id (slugify h) used1"
    and doc': "doc' = splice_in doc at' [\<lparr>ds_id = sid, ds_heading = js_trim h, ds_level = n, ds_blocks = blocks\<rparr>]"
    and used': "used' = sid # used1"
    using r by (auto simp: op_add_section_def Let_def split: option.splits sum.splits prod.splits)
  note fr = mint_texts_fresh [OF m]
  have sid_new: "sid \<notin> set used1" unfolding sid by (rule unique_id_fresh)
  have bi: "block_ids doc' = block_ids (take at' doc) @ map bl_id blocks @ block_ids (drop at' doc)"
    by (simp add: doc' splice_in_def block_ids_def)
  have "distinct (block_ids (take at' doc) @ [] @ block_ids (drop at' doc))"
    using wf by (simp add: edit_wf_def block_ids_def flip: concat_append map_append)
  then have "distinct (block_ids doc')"
    unfolding bi
  proof (rule distinct_middle [where U = "set used"])
    show "set (block_ids (take at' doc)) \<union> set (block_ids (drop at' doc)) \<subseteq> set used"
      using wf block_ids_parts [of at' doc] by (auto simp: edit_wf_def set_doc_ids)
    show "\<forall>x \<in> set (map bl_id blocks). x \<in> set [] \<or> x \<notin> set used" using fr by blast
  qed (use fr in simp)
  moreover have "distinct (map ds_id doc')"
    using wf sid_new fr unfolding doc' map_splice_in by (intro distinct_splice_in) (auto simp: edit_wf_def set_doc_ids)
  moreover have "set (doc_ids doc') \<subseteq> set used'"
  proof -
    have "set (block_ids doc') \<subseteq> set (block_ids doc) \<union> set (map bl_id blocks)"
      unfolding bi using block_ids_parts [of at' doc] by auto
    moreover have "ds_id ` set doc' = insert sid (ds_id ` set doc)" by (simp add: doc')
    ultimately show ?thesis using wf fr by (auto simp: used' edit_wf_def set_doc_ids)
  qed
  ultimately show ?thesis by (simp add: edit_wf_def)
qed

lemma distinct_upd_same: "distinct (map f xs) \<Longrightarrow> i < length xs \<Longrightarrow> f b = f (xs ! i) \<Longrightarrow> map f (xs[i := b]) = map f xs"
  by (metis list_update_id map_update nth_map)

lemma findBlock_pos: "findBlock doc s bid = Inr i \<Longrightarrow> i < length (ds_blocks s) \<and> bl_id (ds_blocks s ! i) = bid"
  by (auto simp: findBlock_def split: option.splits dest: find_index_Some)

text \<open>Putting minted blocks somewhere among the old ones.\<close>

lemma wf_splice_minted:
  assumes wf: "edit_wf doc used" and k: "k < length doc"
    and m: "mint_texts sha8 c ts used = (nb, used')" and base: "map bl_id bs = map bl_id (ds_blocks (doc ! k))"
  shows "edit_wf (doc[k := (doc ! k)\<lparr>ds_blocks := splice_in bs i nb\<rparr>]) used'"
proof (rule edit_wf_upd [OF wf k])
  note ob = edit_wf_blocks [OF wf k] and fr = mint_texts_fresh [OF m]
  have "set (map bl_id bs) \<inter> set (map bl_id nb) = {}" using ob fr unfolding base by blast
  then have "distinct (splice_in (map bl_id bs) i (map bl_id nb))"
    using ob fr by (intro distinct_splice_in) (simp_all add: base)
  then show "distinct (map bl_id (ds_blocks ((doc ! k)\<lparr>ds_blocks := splice_in bs i nb\<rparr>)))" by simp
  have s: "set (map bl_id (splice_in bs i nb)) = set (map bl_id (ds_blocks (doc ! k))) \<union> set (map bl_id nb)"
    by (simp only: map_splice_in set_splice_in base)
  show "\<forall>x \<in> set (map bl_id (ds_blocks ((doc ! k)\<lparr>ds_blocks := splice_in bs i nb\<rparr>))).
      x \<in> set (map bl_id (ds_blocks (doc ! k))) \<or> x \<notin> set used"
    using s fr by auto
  show "set used \<union> set (map bl_id (ds_blocks ((doc ! k)\<lparr>ds_blocks := splice_in bs i nb\<rparr>))) \<subseteq> set used'"
    using s fr ob by auto
qed simp

lemma splice_in_end: "xs @ ys = splice_in xs (length xs) ys"
  by (simp add: splice_in_def)

lemma wf_in_section:
  assumes wf: "edit_wf doc used" and k: "k < length doc"
    and r: "op_in_section sha8 required doc used k op = Inr (doc', used', a)"
  shows "edit_wf doc' used'"
  using r
proof (cases op)
  case (AppendBlock sid tx c)
  with r obtain nb where m: "mint_texts sha8 c (fragments tx) used = (nb, used')"
    and d: "doc' = doc[k := (doc ! k)\<lparr>ds_blocks := ds_blocks (doc ! k) @ nb\<rparr>]"
    by (auto simp: Let_def mint_def split: prod.splits)
  show ?thesis unfolding d splice_in_end by (rule wf_splice_minted [OF wf k m refl])
next
  case (InsertBlock sid after tx c)
  with r obtain nb at' where m: "mint_texts sha8 c (fragments tx) used = (nb, used')"
    and d: "doc' = doc[k := (doc ! k)\<lparr>ds_blocks := splice_in (ds_blocks (doc ! k)) at' nb\<rparr>]"
    by (auto simp: Let_def mint_def split: prod.splits sum.splits)
  show ?thesis unfolding d by (rule wf_splice_minted [OF wf k m refl])
next
  case (ReplaceBlock sid bid tx c)
  let ?b = "\<lambda>i. \<lparr>bl_id = bl_id (ds_blocks (doc ! k) ! i), bl_text = (case fragments tx of [] \<Rightarrow> '''' | f # _ \<Rightarrow> f),
      bl_cites = unionCites (bl_cites (ds_blocks (doc ! k) ! i)) c\<rparr>"
  from ReplaceBlock r obtain i nb where f: "findBlock doc (doc ! k) bid = Inr i"
    and m: "mint_texts sha8 c (tl (fragments tx)) used = (nb, used')"
    and d: "doc' = doc[k := (doc ! k)\<lparr>ds_blocks := splice_in ((ds_blocks (doc ! k))[i := ?b i]) (Suc i) nb\<rparr>]"
    by (auto simp: Let_def split: prod.splits sum.splits if_splits)
  have "map bl_id ((ds_blocks (doc ! k))[i := ?b i]) = map bl_id (ds_blocks (doc ! k))"
    using findBlock_pos [OF f] edit_wf_blocks [OF wf k] by (intro distinct_upd_same) auto
  then show ?thesis unfolding d by (rule wf_splice_minted [OF wf k m])
next
  case (RemoveBlock sid bid)
  with r obtain i where d: "doc' = doc[k := (doc ! k)\<lparr>ds_blocks := remove_at (ds_blocks (doc ! k)) i\<rparr>]" and "used' = used"
    by (auto simp: Let_def split: sum.splits)
  with edit_wf_blocks [OF wf k] set_remove_at [of "map bl_id (ds_blocks (doc ! k))" i] show ?thesis
    unfolding d by (intro edit_wf_upd [OF wf k]) (auto simp: distinct_remove_at)
next
  case (RemoveSection sid)
  with r have d: "doc' = remove_at doc k" "used' = used" by (auto simp: Let_def split: if_splits)
  have "block_ids (remove_at doc k) = block_ids (take k doc) @ block_ids (drop (Suc k) doc)"
    by (simp add: remove_at_def block_ids_def)
  then have "distinct (block_ids doc')" using wf unfolding d by (auto simp: edit_wf_def block_ids_at [OF k])
  moreover have "distinct (map ds_id doc')" using wf unfolding d by (simp add: edit_wf_def distinct_remove_at)
  moreover have "set (doc_ids doc') \<subseteq> set (doc_ids doc)"
    using set_remove_at [of doc k] unfolding d by (auto simp: set_doc_ids set_block_ids)
  ultimately show ?thesis using wf d by (auto simp: edit_wf_def)
next
  case (ReplaceSectionBlocks sid texts c)
  let ?ts = "concat (map fragments texts)" and ?old = "ds_blocks (doc ! k)"
  obtain bl fr where re: "reuse_blocks ?old ?ts = (bl, fr)" by force
  with ReplaceSectionBlocks r obtain fresh where fi: "fill_blocks sha8 c (zip ?ts bl) used = (fresh, used')"
    and d: "doc' = doc[k := (doc ! k)\<lparr>ds_blocks := fresh\<rparr>]"
    by (auto simp: Let_def split: prod.splits if_splits)
  note ru = reuse_blocks_mset [OF re]
  let ?kept = "concat (map (\<lambda>b. case b of None \<Rightarrow> [] | Some x \<Rightarrow> [x]) bl)"
  have "map (\<lambda>(t, b). case b of None \<Rightarrow> [] | Some x \<Rightarrow> [x]) (zip ?ts bl) = map (\<lambda>b. case b of None \<Rightarrow> [] | Some x \<Rightarrow> [x]) bl"
    using ru by (simp add: case_prod_unfold map_snd_zip flip: map_map [of _ snd, unfolded comp_def])
  with fill_blocks_ids [OF fi] obtain new where
    n: "mset (map bl_id fresh) = mset (map bl_id ?kept) + mset new" "distinct new"
       "set new \<inter> set used = {}" "set used' = set used \<union> set new" by auto
  note ob = edit_wf_blocks [OF wf k]
  have "mset (map bl_id ?kept @ map bl_id fr) = mset (map bl_id ?old)"
    using ru by (metis image_mset_union mset_append mset_map)
  then have "distinct (map bl_id ?kept @ map bl_id fr)" and "set (map bl_id ?kept @ map bl_id fr) = set (map bl_id ?old)"
    using ob mset_eq_imp_distinct_iff mset_eq_setD by blast+
  then have dk: "distinct (map bl_id ?kept)" and sk: "set (map bl_id ?kept) \<subseteq> set (map bl_id ?old)"
    by auto
  have "mset (map bl_id fresh) = mset (map bl_id ?kept @ new)" using n(1) by simp
  then have df: "distinct (map bl_id fresh) \<longleftrightarrow> distinct (map bl_id ?kept @ new)"
    and sf: "set (map bl_id fresh) = set (map bl_id ?kept @ new)"
    using mset_eq_imp_distinct_iff mset_eq_setD by blast+
  have dis: "distinct (map bl_id ?kept @ new)" using dk n(2,3) sk ob by (simp only: distinct_append) blast
  show ?thesis unfolding d
  proof (rule edit_wf_upd [OF wf k])
    show "distinct (map bl_id (ds_blocks ((doc ! k)\<lparr>ds_blocks := fresh\<rparr>)))" using df dis by simp
    show "\<forall>x \<in> set (map bl_id (ds_blocks ((doc ! k)\<lparr>ds_blocks := fresh\<rparr>))).
        x \<in> set (map bl_id (ds_blocks (doc ! k))) \<or> x \<notin> set used"
      using sf sk n(3) by auto
    show "set used \<union> set (map bl_id (ds_blocks ((doc ! k)\<lparr>ds_blocks := fresh\<rparr>))) \<subseteq> set used'"
    proof -
      have "set (map bl_id fresh) = set (map bl_id ?kept) \<union> set new" unfolding sf set_append ..
      also have "\<dots> \<subseteq> set used \<union> set new" by (rule Un_mono [OF order_trans [OF sk conjunct2 [OF ob]] order_refl])
      finally have "set (map bl_id fresh) \<subseteq> set used'" unfolding n(4) .
      moreover have "set used \<subseteq> set used'" unfolding n(4) by (rule Un_upper1)
      ultimately show ?thesis by simp
    qed
  qed simp
next
  case (RenameSection sid h)
  with r have "doc' = doc[k := (doc ! k)\<lparr>ds_heading := js_trim h\<rparr>]" "used' = used"
    by (auto simp: Let_def split: if_splits)
  with edit_wf_blocks [OF wf k] show ?thesis by (auto intro!: edit_wf_upd [OF wf k])
qed simp_all

lemma apply_op_cases:
  assumes "apply_op sha8 required op doc used = Inr (doc', used', a)"
  obtains (add) h n texts after c where "op = AddSection h n texts after c"
      "op_add_section sha8 doc used h n texts after c = Inr (doc', used', a)"
  | (inside) sid k where "op_section_id op = Some sid" "k < length doc" "ds_id (doc ! k) = sid"
      "op_in_section sha8 required doc used k op = Inr (doc', used', a)"
  using assms by (cases op) (auto simp: apply_op_def split: option.splits dest: find_index_Some)

lemma wf_apply_op: "edit_wf doc used \<Longrightarrow> apply_op sha8 required op doc used = Inr (doc', used', a) \<Longrightarrow> edit_wf doc' used'"
  by (erule apply_op_cases) (auto intro: wf_add_section wf_in_section)

section \<open>Running a reply\<close>

lemma edit_step_wf: "edit_wf (es_doc st) (es_used st) \<Longrightarrow>
    edit_wf (es_doc (edit_step sha8 required iop st)) (es_used (edit_step sha8 required iop st))"
  by (auto simp: edit_step_def wf_apply_op split: sum.splits)

lemma edit_steps_wf: "edit_wf (es_doc st) (es_used st) \<Longrightarrow>
    edit_wf (es_doc (fold (edit_step sha8 required) iops st)) (es_used (fold (edit_step sha8 required) iops st))"
  by (induction iops arbitrary: st) (simp_all add: edit_step_wf)

text \<open>A property that every applied operation keeps is kept by a whole reply.\<close>

lemma edit_steps_keep:
  assumes step: "\<And>op doc used doc' used' a. op \<in> snd ` set iops \<Longrightarrow> P doc \<Longrightarrow>
      apply_op sha8 required op doc used = Inr (doc', used', a) \<Longrightarrow> P doc'"
  shows "P (es_doc st) \<Longrightarrow> P (es_doc (fold (edit_step sha8 required) iops st))"
  using step
proof (induction iops arbitrary: st)
  case (Cons iop iops)
  have "P (es_doc (edit_step sha8 required iop st))"
  proof (cases "apply_op sha8 required (snd iop) (es_doc st) (es_used st)")
    case (Inr r)
    obtain d u a where "r = (d, u, a)" by (cases r) auto
    with Inr Cons.prems(1) Cons.prems(2) [of "snd iop" "es_doc st" "es_used st" d u a] show ?thesis
      by (simp add: edit_step_def)
  qed (simp add: edit_step_def Cons.prems(1))
  then have "P (es_doc (fold (edit_step sha8 required) iops (edit_step sha8 required iop st)))"
    by (rule Cons.IH) (rule Cons.prems(2); simp)
  then show ?case by simp
qed simp

text \<open>C7: Ids never collide: after any reply, applied or partly skipped, the sections have distinct ids, the
  blocks of the whole document have distinct ids, and each operation was either applied or skipped.\<close>

theorem edits_keep_ids_distinct:
  assumes "distinct (map ds_id doc)" and "distinct (block_ids doc)"
    and run: "applyOps sha8 required doc ops = st"
  shows "distinct (map ds_id (es_doc st)) \<and> distinct (block_ids (es_doc st))
    \<and> length (es_applied st) + length (es_skipped st) = length ops"
proof -
  have "edit_wf doc (doc_ids doc)" using assms by (simp add: edit_wf_def)
  from edit_steps_wf [of "\<lparr>es_doc = doc, es_used = doc_ids doc, es_applied = [], es_skipped = []\<rparr>" sha8 required "enumerate 0 ops"] this
  have "edit_wf (es_doc st) (es_used st)" using run by (simp add: applyOps_def)
  moreover have "length (es_applied (fold (edit_step sha8 required) iops s)) + length (es_skipped (fold (edit_step sha8 required) iops s))
      = length (es_applied s) + length (es_skipped s) + length iops" for iops s
    by (induction iops arbitrary: s) (auto simp: edit_step_def split: sum.splits)
  ultimately show ?thesis using run by (auto simp: applyOps_def edit_wf_def)
qed

definition demo_doc :: "doc_section list" where
  "demo_doc = [\<lparr>ds_id = ''why'', ds_heading = ''Why'', ds_level = 2,
      ds_blocks = [\<lparr>bl_id = ''b1'', bl_text = ''one'', bl_cites = None\<rparr>, \<lparr>bl_id = ''b2'', bl_text = ''two'', bl_cites = None\<rparr>]\<rparr>]"

definition demo_ops :: "edit_op list" where
  "demo_ops = [AppendBlock ''why'' ''three'' None, RemoveSection ''why'', ReplaceBlock ''why'' ''b2'' ''2'' None]"

theorem edits_keep_ids_distinct_witness:
  "distinct (map ds_id (es_doc (applyOps (\<lambda>_. ''0'') [''Why''] demo_doc demo_ops)))
   \<and> length (es_skipped (applyOps (\<lambda>_. ''0'') [''Why''] demo_doc demo_ops)) = 1"
  using edits_keep_ids_distinct [of demo_doc "\<lambda>_. ''0''" "[''Why'']" demo_ops, OF _ _ refl]
  by (simp add: demo_doc_def block_ids_def) code_simp

section \<open>What is not named is not touched\<close>

definition has_block :: "string \<Rightarrow> block \<Rightarrow> doc_section list \<Rightarrow> bool" where
  "has_block sid b doc = (\<exists>s \<in> set doc. ds_id s = sid \<and> b \<in> set (ds_blocks s))"

fun touches :: "string \<Rightarrow> string \<Rightarrow> edit_op \<Rightarrow> bool" where
  "touches sid bid (ReplaceBlock _ b _ _) = (b = bid)"
| "touches sid bid (RemoveBlock _ b) = (b = bid)"
| "touches sid bid (RemoveSection s) = (s = sid)"
| "touches sid bid (ReplaceSectionBlocks s _ _) = (s = sid)"
| "touches sid bid _ = False"

lemma has_block_upd:
  assumes "has_block sid b doc" and "k < length doc" and "ds_id s = ds_id (doc ! k)"
    and "ds_id (doc ! k) = sid \<longrightarrow> b \<in> set (ds_blocks (doc ! k)) \<longrightarrow> b \<in> set (ds_blocks s)"
  shows "has_block sid b (doc[k := s])"
proof -
  from assms(1) obtain j where j: "j < length doc" "ds_id (doc ! j) = sid" "b \<in> set (ds_blocks (doc ! j))"
    unfolding has_block_def by (metis in_set_conv_nth)
  have "doc[k := s] ! j \<in> set (doc[k := s])" using j(1) by (metis length_list_update nth_mem)
  moreover have "ds_id (doc[k := s] ! j) = sid \<and> b \<in> set (ds_blocks (doc[k := s] ! j))"
    using j assms(2-4) by (cases "j = k") auto
  ultimately show ?thesis unfolding has_block_def by blast
qed

lemma remove_at_keeps: "x \<in> set xs \<Longrightarrow> x \<noteq> xs ! i \<Longrightarrow> x \<in> set (remove_at xs i)"
proof (cases "i < length xs")
  case True
  assume x: "x \<in> set xs" "x \<noteq> xs ! i"
  have "set xs = set (take i xs @ xs ! i # drop (Suc i) xs)" using True by (metis id_take_nth_drop)
  with x show ?thesis by (auto simp: remove_at_def)
qed (simp add: remove_at_def)

lemma update_keeps: "x \<in> set xs \<Longrightarrow> i < length xs \<Longrightarrow> x \<noteq> xs ! i \<Longrightarrow> x \<in> set (xs[i := y])"
  by (auto simp: in_set_conv_nth) (metis nth_list_update_neq)

lemma untouched_step:
  assumes h: "has_block sid b doc" and t: "\<not> touches sid (bl_id b) op"
    and r: "apply_op sha8 required op doc used = Inr (doc', used', a)"
  shows "has_block sid b doc'"
  using r
proof (cases rule: apply_op_cases)
  case (add hd n txs after c)
  then have "set doc \<subseteq> set doc'"
    by (auto simp: op_add_section_def Let_def split: option.splits sum.splits prod.splits)
  with h show ?thesis by (auto simp: has_block_def)
next
  case (inside s k)
  note k = inside(2)
  show ?thesis
  proof (cases op)
    case (RemoveSection s')
    with inside t have "doc' = remove_at doc k" "ds_id (doc ! k) \<noteq> sid" by (auto simp: Let_def split: if_splits)
    with h remove_at_keeps [of _ doc k] show ?thesis unfolding has_block_def by metis
  next
    case (RemoveBlock s' bid)
    with inside obtain i where f: "findBlock doc (doc ! k) bid = Inr i"
      and d: "doc' = doc[k := (doc ! k)\<lparr>ds_blocks := remove_at (ds_blocks (doc ! k)) i\<rparr>]"
      by (auto simp: Let_def split: sum.splits)
    from findBlock_pos [OF f] t RemoveBlock have "b \<noteq> ds_blocks (doc ! k) ! i" by auto
    then show ?thesis unfolding d by (intro has_block_upd [OF h k]) (auto intro: remove_at_keeps)
  next
    case (ReplaceBlock s' bid tx c)
    with inside obtain i y nb where f: "findBlock doc (doc ! k) bid = Inr i"
      and d: "doc' = doc[k := (doc ! k)\<lparr>ds_blocks := splice_in ((ds_blocks (doc ! k))[i := y]) (Suc i) nb\<rparr>]"
      by (auto simp: Let_def split: prod.splits sum.splits if_splits)
    from findBlock_pos [OF f] t ReplaceBlock have "i < length (ds_blocks (doc ! k))" "b \<noteq> ds_blocks (doc ! k) ! i" by auto
    then show ?thesis unfolding d by (intro has_block_upd [OF h k]) (auto intro: update_keeps)
  next
    case (ReplaceSectionBlocks s' txs c)
    with inside t have "ds_id (doc ! k) \<noteq> sid" by auto
    with ReplaceSectionBlocks inside show ?thesis
      by (auto simp: Let_def split: prod.splits if_splits intro!: has_block_upd [OF h k])
  qed (use inside h k in \<open>auto simp: Let_def split: prod.splits sum.splits if_splits intro!: has_block_upd\<close>)
qed

text \<open>C8: Anything no operation names stays as it was: a block whose id no replace or remove names, in a
  section that no operation removes or replaces whole, is in that section after the reply with the
  same text and citations, byte for byte.\<close>

theorem untouched_blocks_survive:
  assumes "has_block sid b doc" and quiet: "\<forall>op \<in> set ops. \<not> touches sid (bl_id b) op"
  shows "has_block sid b (es_doc (applyOps sha8 required doc ops))"
proof -
  have ops: "snd ` set (enumerate 0 ops) = set ops" by (metis image_set map_snd_enumerate)
  show ?thesis unfolding applyOps_def
  proof (rule edit_steps_keep)
    fix op d used d' used' a
    assume "op \<in> snd ` set (enumerate 0 ops)" and h: "has_block sid b d"
      and r: "apply_op sha8 required op d used = Inr (d', used', a)"
    with ops quiet have "\<not> touches sid (bl_id b) op" by auto
    from untouched_step [OF h this r] show "has_block sid b d'" .
  qed (use assms(1) in simp)
qed

theorem untouched_blocks_survive_witness:
  "has_block ''why'' \<lparr>bl_id = ''b1'', bl_text = ''one'', bl_cites = None\<rparr>
     (es_doc (applyOps (\<lambda>_. ''0'') [] demo_doc [AppendBlock ''why'' ''three'' None, ReplaceBlock ''why'' ''b2'' ''2'' None]))"
  by (rule untouched_blocks_survive) (simp_all add: has_block_def demo_doc_def)

definition has_heading :: "string \<Rightarrow> doc_section list \<Rightarrow> bool" where
  "has_heading r doc = (\<exists>s \<in> set doc. norm_heading (ds_heading s) = norm_heading r)"

lemma required_step:
  assumes h: "has_heading q doc" and req: "q \<in> set required"
    and r: "apply_op sha8 required op doc used = Inr (doc', used', a)"
  shows "has_heading q doc'"
proof -
  have same: "has_heading q (doc[k := s])" if "k < length doc" "ds_heading s = ds_heading (doc ! k)" for k s
  proof -
    from h obtain j where j: "j < length doc" "norm_heading (ds_heading (doc ! j)) = norm_heading q"
      unfolding has_heading_def by (metis in_set_conv_nth)
    have "doc[k := s] ! j \<in> set (doc[k := s])" using j(1) by (metis length_list_update nth_mem)
    moreover have "ds_heading (doc[k := s] ! j) = ds_heading (doc ! j)" using that by (cases "j = k") auto
    ultimately show ?thesis unfolding has_heading_def using j(2) by (metis (no_types))
  qed
  have isr: "isRequired hd required" if "norm_heading hd = norm_heading q" for hd
    using req that by (auto simp: isRequired_def list_ex_iff)
  show ?thesis
    using r
  proof (cases rule: apply_op_cases)
    case (add hd n txs after c)
    then have "set doc \<subseteq> set doc'"
      by (auto simp: op_add_section_def Let_def split: option.splits sum.splits prod.splits)
    with h show ?thesis by (auto simp: has_heading_def)
  next
    case (inside sid k)
    note k = inside(2)
    show ?thesis
    proof (cases op)
      case (RemoveSection s')
      with inside have "doc' = remove_at doc k" "\<not> isRequired (ds_heading (doc ! k)) required"
        by (auto simp: Let_def split: if_splits)
      with h isr remove_at_keeps [of _ doc k] show ?thesis unfolding has_heading_def by metis
    next
      case (RenameSection s' nh)
      with inside have d: "doc' = doc[k := (doc ! k)\<lparr>ds_heading := js_trim nh\<rparr>]"
        and nr: "\<not> isRequired (ds_heading (doc ! k)) required"
        by (auto simp: Let_def split: if_splits)
      from h obtain j where "j < length doc" "norm_heading (ds_heading (doc ! j)) = norm_heading q"
        unfolding has_heading_def by (metis in_set_conv_nth)
      moreover from this nr isr have jk: "j \<noteq> k" by blast
      ultimately have "doc' ! j = doc ! j" "j < length doc'" "norm_heading (ds_heading (doc ! j)) = norm_heading q"
        by (simp_all add: d)
      then show ?thesis unfolding has_heading_def
        by (metis nth_mem)
    qed (use inside same k in \<open>auto simp: Let_def split: prod.splits sum.splits if_splits\<close>)
  qed
qed

text \<open>A required section is never lost: whatever the model replies, every required heading the file has
  is still there afterwards (compared as the code compares headings, ignoring case and outer space).\<close>

theorem required_sections_kept:
  assumes "q \<in> set required" and "has_heading q doc"
  shows "has_heading q (es_doc (applyOps sha8 required doc ops))"
  unfolding applyOps_def
  by (rule edit_steps_keep [where P = "has_heading q"]) (use assms required_step in \<open>auto\<close>)

theorem required_sections_kept_witness:
  "has_heading ''Why'' (es_doc (applyOps (\<lambda>_. ''0'') [''Why''] demo_doc [RemoveSection ''why'', RenameSection ''why'' ''How'']))"
  by (rule required_sections_kept) (simp_all add: has_heading_def demo_doc_def)

end
