(* ===== verification/LivingParse.thy ===== *)
theory LivingParse
  imports LivingDoc
begin

text \<open>
  The parser of \<^verbatim>\<open>apps/api/src/lib/livingDoc.mjs\<close> (\<^verbatim>\<open>parseDoc\<close>), which keeps the ids of
  the document as it was last written, and what the renderer and it promise each other. Each of its
  passes walks the blocks with the set of ids already taken; ids are non-empty.
\<close>

section \<open>parseDoc\<close>

record pblock =
  pb_id :: "string option"
  pb_text :: string

record psection =
  ps_match :: "doc_section option"
  ps_id :: "string option"
  ps_heading :: string
  ps_level :: nat
  ps_blocks :: "pblock list"

definition PREAMBLE_ID :: string where "PREAMBLE_ID = ''preamble''"

fun match_sections :: "(string \<times> doc_section list) list \<Rightarrow> raw_section list \<Rightarrow> doc_section option list" where
  "match_sections freeSec [] = []"
| "match_sections freeSec (s # ss) =
     (let k = norm_heading (rs_heading s) in
      case jm_get freeSec k of
        Some (p # q) \<Rightarrow> Some p # match_sections (jm_set freeSec k q) ss
      | _ \<Rightarrow> None # match_sections freeSec ss)"

definition start_section :: "raw_section \<times> doc_section option \<Rightarrow> psection" where
  "start_section sm = (let (s, m) = sm in
     \<lparr>ps_match = m, ps_id = map_option ds_id m, ps_heading = rs_heading s, ps_level = rs_level s,
      ps_blocks = map (\<lambda>t. \<lparr>pb_id = None, pb_text = t\<rparr>) (rs_blocks s)\<rparr>)"

fun name_sections :: "psection list \<Rightarrow> string list \<Rightarrow> psection list \<times> string list" where
  "name_sections [] used = ([], used)"
| "name_sections (s # ss) used =
     (case ps_id s of
        Some i \<Rightarrow> (let (r, u) = name_sections ss used in (s # r, u))
      | None \<Rightarrow>
         (let i = unique_id (if ps_heading s \<noteq> [] then slugify (ps_heading s) else PREAMBLE_ID) used;
              (r, u) = name_sections ss (i # used)
          in (s\<lparr>ps_id := Some i\<rparr> # r, u)))"

text \<open>One pass: a block without an id takes the prior block that \<open>pick\<close> finds for it.\<close>

fun pass_blocks :: "(nat \<Rightarrow> string \<Rightarrow> string list \<Rightarrow> block option) \<Rightarrow> nat \<Rightarrow> pblock list \<Rightarrow> string list
    \<Rightarrow> pblock list \<times> string list" where
  "pass_blocks pick j [] taken = ([], taken)"
| "pass_blocks pick j (b # bs) taken =
     (case (if pb_id b = None then pick j (pb_text b) taken else None) of
        Some p \<Rightarrow> (let (r, t) = pass_blocks pick (Suc j) bs (bl_id p # taken) in (b\<lparr>pb_id := Some (bl_id p)\<rparr> # r, t))
      | None \<Rightarrow> (let (r, t) = pass_blocks pick (Suc j) bs taken in (b # r, t)))"

fun pass_sections :: "(psection \<Rightarrow> nat \<Rightarrow> string \<Rightarrow> string list \<Rightarrow> block option) \<Rightarrow> psection list \<Rightarrow> string list
    \<Rightarrow> psection list \<times> string list" where
  "pass_sections pick [] taken = ([], taken)"
| "pass_sections pick (s # ss) taken =
     (let (bs, t1) = pass_blocks (pick s) 0 (ps_blocks s) taken;
          (r, t2) = pass_sections pick ss t1
      in (s\<lparr>ps_blocks := bs\<rparr> # r, t2))"

definition same_text :: "block list \<Rightarrow> string \<Rightarrow> string list \<Rightarrow> block option" where
  "same_text pbs tx taken = List.find (\<lambda>p. bl_id p \<notin> set taken \<and> bl_text p = tx) pbs"

definition pick_matched :: "psection \<Rightarrow> nat \<Rightarrow> string \<Rightarrow> string list \<Rightarrow> block option" where
  "pick_matched s j tx taken = (case ps_match s of None \<Rightarrow> None | Some p \<Rightarrow> same_text (ds_blocks p) tx taken)"

definition pick_anywhere :: "doc_section list \<Rightarrow> psection \<Rightarrow> nat \<Rightarrow> string \<Rightarrow> string list \<Rightarrow> block option" where
  "pick_anywhere prior s j tx taken = same_text (concat (map ds_blocks prior)) tx taken"

definition pick_in_place :: "string list \<Rightarrow> psection \<Rightarrow> nat \<Rightarrow> string \<Rightarrow> string list \<Rightarrow> block option" where
  "pick_in_place stillThere s j tx taken = (case ps_match s of None \<Rightarrow> None
     | Some p \<Rightarrow> if j < length (ds_blocks p) \<and> bl_id (ds_blocks p ! j) \<notin> set taken
          \<and> bl_text (ds_blocks p ! j) \<notin> set stillThere then Some (ds_blocks p ! j) else None)"

fun finish_blocks :: "(string \<Rightarrow> string) \<Rightarrow> pblock list \<Rightarrow> string list \<Rightarrow> block list \<times> string list" where
  "finish_blocks sha8 [] used = ([], used)"
| "finish_blocks sha8 (b # bs) used =
     (let i = (case pb_id b of Some x \<Rightarrow> x | None \<Rightarrow> newBlockId sha8 (pb_text b) used);
          (r, u) = finish_blocks sha8 bs (i # used)
      in (\<lparr>bl_id = i, bl_text = pb_text b, bl_cites = None\<rparr> # r, u))"

fun finish_sections :: "(string \<Rightarrow> string) \<Rightarrow> psection list \<Rightarrow> string list \<Rightarrow> doc_section list" where
  "finish_sections sha8 [] used = []"
| "finish_sections sha8 (s # ss) used =
     (let (bs, u) = finish_blocks sha8 (ps_blocks s) used
      in \<lparr>ds_id = str_of (ps_id s), ds_heading = ps_heading s, ds_level = ps_level s, ds_blocks = bs\<rparr>
         # finish_sections sha8 ss u)"

definition passes :: "doc_section list \<Rightarrow> psection list \<Rightarrow> psection list \<times> string list" where
  "passes prior ss =
     (let stillThere = concat (map (\<lambda>s. map pb_text (ps_blocks s)) ss);
          (s1, t1) = pass_sections pick_matched ss [];
          (s2, t2) = pass_sections (pick_anywhere prior) s1 t1
      in pass_sections (pick_in_place stillThere) s2 t2)"

definition matched_sections :: "string \<Rightarrow> doc_section list \<Rightarrow> psection list" where
  "matched_sections markdown prior =
     (let raw = splitRaw markdown;
          freeSec = js_group_by (\<lambda>s. norm_heading (ds_heading s)) prior
      in map start_section (zip raw (match_sections freeSec raw)))"

definition parseDoc :: "(string \<Rightarrow> string) \<Rightarrow> string \<Rightarrow> doc_section list \<Rightarrow> doc_section list" where
  "parseDoc sha8 markdown prior =
     (let ss = matched_sections markdown prior;
          (named, used) = name_sections ss (List.map_filter ps_id ss);
          (done_ss, taken) = passes prior named
      in finish_sections sha8 done_ss (taken @ used))"

section \<open>The content is the split\<close>

definition raw_of :: "doc_section \<Rightarrow> raw_section" where
  "raw_of s = \<lparr>rs_heading = ds_heading s, rs_level = ds_level s, rs_blocks = map bl_text (ds_blocks s)\<rparr>"

definition raw_of_p :: "psection \<Rightarrow> raw_section" where
  "raw_of_p s = \<lparr>rs_heading = ps_heading s, rs_level = ps_level s, rs_blocks = map pb_text (ps_blocks s)\<rparr>"

lemma length_match [simp]: "length (match_sections m raw) = length raw"
  by (induction m raw rule: match_sections.induct) (auto simp: Let_def split: option.splits list.splits)

lemma start_raw: "map raw_of_p (matched_sections md prior) = splitRaw md"
proof -
  have "raw_of_p (start_section (s, m)) = s" for s m
    by (simp add: raw_of_p_def start_section_def comp_def)
  then have "length ms = length raw \<Longrightarrow> map raw_of_p (map start_section (zip raw ms)) = raw" for ms raw
    by (induction raw ms rule: list_induct2') auto
  then show ?thesis by (simp add: matched_sections_def Let_def)
qed

lemma name_raw: "name_sections ss u = (r, u') \<Longrightarrow> map raw_of_p r = map raw_of_p ss"
  by (induction ss u arbitrary: r u' rule: name_sections.induct)
    (auto simp: Let_def raw_of_p_def split: option.splits prod.splits)

lemma pass_blocks_text: "pass_blocks c j bs t = (r, t') \<Longrightarrow> map pb_text r = map pb_text bs"
  by (induction c j bs t arbitrary: r t' rule: pass_blocks.induct) (auto simp: Let_def split: option.splits prod.splits)

lemma pass_raw: "pass_sections c ss t = (r, t') \<Longrightarrow> map raw_of_p r = map raw_of_p ss"
  by (induction c ss t arbitrary: r t' rule: pass_sections.induct)
    (auto simp: Let_def raw_of_p_def dest: pass_blocks_text split: prod.splits)

lemma finish_blocks_text: "finish_blocks sha8 bs u = (r, u') \<Longrightarrow> map bl_text r = map pb_text bs"
  by (induction sha8 bs u arbitrary: r u' rule: finish_blocks.induct) (auto simp: Let_def split: prod.splits)

lemma finish_raw: "map raw_of (finish_sections sha8 ss u) = map raw_of_p ss"
  by (induction sha8 ss u rule: finish_sections.induct)
    (auto simp: Let_def raw_of_def raw_of_p_def dest: finish_blocks_text split: prod.splits)

lemma parseDoc_raw: "map raw_of (parseDoc sha8 md prior) = splitRaw md"
  using start_raw [of md prior]
  by (auto simp: parseDoc_def passes_def Let_def finish_raw split: prod.splits dest!: name_raw pass_raw)

lemma render_raw: "renderDoc d = render_parts (map (\<lambda>r. render_part (rs_heading r) (rs_level r) (rs_blocks r)) (map raw_of d))"
  by (simp add: renderDoc_def raw_of_def comp_def)

section \<open>Ids after a parse\<close>

definition pids :: "psection list \<Rightarrow> string list" where
  "pids ss = concat (map (\<lambda>s. List.map_filter pb_id (ps_blocks s)) ss)"

text \<open>What a pass may take: something not taken yet.\<close>

definition picks_free :: "(nat \<Rightarrow> string \<Rightarrow> string list \<Rightarrow> block option) \<Rightarrow> bool" where
  "picks_free c = (\<forall>j tx taken p. c j tx taken = Some p \<longrightarrow> bl_id p \<notin> set taken)"

lemma pass_blocks_ids:
  assumes c: "picks_free c"
  shows "pass_blocks c j bs t = (r, t') \<Longrightarrow>
    \<exists>new. mset (List.map_filter pb_id r) = mset (List.map_filter pb_id bs) + mset new
      \<and> distinct new \<and> set new \<inter> set t = {} \<and> set t' = set t \<union> set new"
proof (induction bs arbitrary: j t r t')
  case Nil
  then show ?case by (intro exI [of _ "[]"]) simp
next
  case (Cons b bs)
  show ?case
  proof (cases "if pb_id b = None then c j (pb_text b) t else None")
    case None
    obtain r1 t1 where rec: "pass_blocks c (Suc j) bs t = (r1, t1)" by force
    with None Cons.prems have "r = b # r1" "t' = t1" by auto
    with Cons.IH [OF rec] show ?thesis by (cases "pb_id b") (auto simp: List.map_filter_simps)
  next
    case (Some p)
    then have pn: "pb_id b = None" and free: "bl_id p \<notin> set t"
      using c by (auto simp: picks_free_def split: if_splits)
    obtain r1 t1 where rec: "pass_blocks c (Suc j) bs (bl_id p # t) = (r1, t1)" by force
    with Some Cons.prems have r: "r = b\<lparr>pb_id := Some (bl_id p)\<rparr> # r1" "t' = t1" by auto
    from Cons.IH [OF rec] obtain new where "mset (List.map_filter pb_id r1) = mset (List.map_filter pb_id bs) + mset new"
      "distinct new" "set new \<inter> set (bl_id p # t) = {}" "set t1 = set (bl_id p # t) \<union> set new" by blast
    with r pn free show ?thesis
      by (intro exI [of _ "bl_id p # new"]) (auto simp: List.map_filter_simps)
  qed
qed

lemma pass_sections_ids:
  assumes c: "\<And>s. picks_free (c s)"
  shows "pass_sections c ss t = (r, t') \<Longrightarrow>
    \<exists>new. mset (pids r) = mset (pids ss) + mset new
      \<and> distinct new \<and> set new \<inter> set t = {} \<and> set t' = set t \<union> set new"
proof (induction ss arbitrary: t r t')
  case Nil
  then show ?case by (intro exI [of _ "[]"]) (simp add: pids_def)
next
  case (Cons s ss)
  obtain bs t1 where b: "pass_blocks (c s) 0 (ps_blocks s) t = (bs, t1)" by force
  obtain r1 t2 where rec: "pass_sections c ss t1 = (r1, t2)" by force
  with b Cons.prems have r: "r = s\<lparr>ps_blocks := bs\<rparr> # r1" "t' = t2" by auto
  from pass_blocks_ids [OF c b] obtain n1 where
    n1: "mset (List.map_filter pb_id bs) = mset (List.map_filter pb_id (ps_blocks s)) + mset n1"
      "distinct n1" "set n1 \<inter> set t = {}" "set t1 = set t \<union> set n1" by blast
  from Cons.IH [OF rec] obtain n2 where n2: "mset (pids r1) = mset (pids ss) + mset n2"
      "distinct n2" "set n2 \<inter> set t1 = {}" "set t2 = set t1 \<union> set n2" by blast
  from n1 n2 r show ?case
    by (intro exI [of _ "n1 @ n2"]) (auto simp: pids_def)
qed

lemma same_text_free: "same_text pbs tx t = Some p \<Longrightarrow> bl_id p \<notin> set t"
  by (auto simp: same_text_def dest: find_Some_D)

lemma pickers_free: "picks_free (pick_matched s)" "picks_free (pick_anywhere prior s)"
  "picks_free (pick_in_place st s)"
  by (auto simp: picks_free_def pick_matched_def pick_anywhere_def pick_in_place_def same_text_free
      split: option.splits if_splits)

text \<open>Distinct ids so far, all of them taken.\<close>

lemma taken_grows:
  "distinct ids \<Longrightarrow> set ids \<subseteq> set t \<Longrightarrow> mset ids' = mset ids + mset new \<Longrightarrow> distinct new \<Longrightarrow> set new \<inter> set t = {} \<Longrightarrow>
   set t' = set t \<union> set new \<Longrightarrow> distinct ids' \<and> set ids' \<subseteq> set t'"
proof -
  assume a: "distinct ids" "set ids \<subseteq> set t" "mset ids' = mset ids + mset new" "distinct new" "set new \<inter> set t = {}"
    "set t' = set t \<union> set new"
  have "mset ids' = mset (ids @ new)" using a(3) by simp
  then have "distinct ids' \<longleftrightarrow> distinct (ids @ new)" "set ids' = set (ids @ new)"
    using mset_eq_imp_distinct_iff mset_eq_setD by blast+
  with a show ?thesis by auto
qed

lemma passes_ids:
  assumes "passes prior ss = (r, t)" and "pids ss = []"
  shows "distinct (pids r) \<and> set (pids r) \<subseteq> set t"
proof -
  obtain s1 t1 s2 t2 st where p1: "pass_sections pick_matched ss [] = (s1, t1)"
    and p2: "pass_sections (pick_anywhere prior) s1 t1 = (s2, t2)"
    and p3: "pass_sections (pick_in_place st) s2 t2 = (r, t)"
    using assms(1) by (auto simp: passes_def Let_def split: prod.splits)
  have "distinct (pids s1) \<and> set (pids s1) \<subseteq> set t1"
    using pass_sections_ids [OF pickers_free(1) p1] assms(2) taken_grows [of "[]" "[]"] by auto
  then have "distinct (pids s2) \<and> set (pids s2) \<subseteq> set t2"
    using pass_sections_ids [OF pickers_free(2) p2] taken_grows [of "pids s1" t1] by blast
  then show ?thesis
    using pass_sections_ids [OF pickers_free(3) p3] taken_grows [of "pids s2" t2] by blast
qed

lemma finish_blocks_ids:
  "finish_blocks sha8 bs u = (r, u') \<Longrightarrow> set (List.map_filter pb_id bs) \<subseteq> set u \<Longrightarrow>
   \<exists>new. mset (map bl_id r) = mset (List.map_filter pb_id bs) + mset new
     \<and> distinct new \<and> set new \<inter> set u = {} \<and> set u' = set u \<union> set new"
proof (induction bs arbitrary: u r u')
  case Nil
  then show ?case by (intro exI [of _ "[]"]) simp
next
  case (Cons b bs)
  let ?i = "case pb_id b of Some x \<Rightarrow> x | None \<Rightarrow> newBlockId sha8 (pb_text b) u"
  obtain r1 u1 where rec: "finish_blocks sha8 bs (?i # u) = (r1, u1)" by force
  with Cons.prems have r: "map bl_id r = ?i # map bl_id r1" "u' = u1" by (auto simp: Let_def)
  have "set (List.map_filter pb_id bs) \<subseteq> set (?i # u)"
    using Cons.prems(2) by (cases "pb_id b") (auto simp: List.map_filter_simps)
  from Cons.IH [OF rec this] obtain new where n: "mset (map bl_id r1) = mset (List.map_filter pb_id bs) + mset new"
    "distinct new" "set new \<inter> set (?i # u) = {}" "set u1 = set (?i # u) \<union> set new" by blast
  show ?case
  proof (cases "pb_id b")
    case None
    with r n newBlockId_fresh [of sha8 "pb_text b" u] show ?thesis
      by (intro exI [of _ "?i # new"]) (auto simp: List.map_filter_simps)
  next
    case (Some x)
    with Cons.prems(2) have "x \<in> set u" by (simp add: List.map_filter_simps)
    with Some r n show ?thesis by (intro exI [of _ new]) (auto simp: List.map_filter_simps)
  qed
qed

lemma finish_sections_ids:
  "set (pids ss) \<subseteq> set u \<Longrightarrow>
   \<exists>new. mset (block_ids (finish_sections sha8 ss u)) = mset (pids ss) + mset new \<and> distinct new \<and> set new \<inter> set u = {}"
proof (induction ss arbitrary: u)
  case Nil
  then show ?case by (intro exI [of _ "[]"]) (simp add: pids_def block_ids_def)
next
  case (Cons s ss)
  obtain bs u1 where b: "finish_blocks sha8 (ps_blocks s) u = (bs, u1)" by force
  have "set (List.map_filter pb_id (ps_blocks s)) \<subseteq> set u" using Cons.prems by (simp add: pids_def)
  from finish_blocks_ids [OF b this] obtain n1 where
    n1: "mset (map bl_id bs) = mset (List.map_filter pb_id (ps_blocks s)) + mset n1" "distinct n1"
      "set n1 \<inter> set u = {}" "set u1 = set u \<union> set n1" by blast
  have "set (pids ss) \<subseteq> set u1" using Cons.prems n1 by (auto simp: pids_def)
  from Cons.IH [OF this] obtain n2 where n2: "mset (block_ids (finish_sections sha8 ss u1)) = mset (pids ss) + mset n2"
    "distinct n2" "set n2 \<inter> set u1 = {}" by blast
  from n1 n2 b show ?case
    by (intro exI [of _ "n1 @ n2"]) (auto simp: pids_def block_ids_def)
qed

text \<open>Section ids: the matched ones are prior sections used once, the others are fresh.\<close>

definition queue_ids :: "(string \<times> doc_section list) list \<Rightarrow> string list" where
  "queue_ids m = concat (map (\<lambda>(k, q). map ds_id q) m)"

lemma queue_ids_pop:
  "jm_get m k = Some (p # q) \<Longrightarrow> distinct (map fst m) \<Longrightarrow>
   mset (queue_ids m) = {#ds_id p#} + mset (queue_ids (jm_set m k q))"
  by (induction m k q rule: jm_set.induct) (auto simp: queue_ids_def jm_get_def split: if_splits)

lemma matched_ids_once:
  "distinct (map fst m) \<Longrightarrow> mset (List.map_filter (map_option ds_id) (match_sections m raw)) \<subseteq># mset (queue_ids m)"
proof (induction m raw rule: match_sections.induct)
  case (2 m s ss)
  show ?case
  proof (cases "jm_get m (norm_heading (rs_heading s))")
    case None
    with 2 show ?thesis by (simp add: List.map_filter_simps)
  next
    case (Some q)
    show ?thesis
    proof (cases q)
      case Nil
      with Some 2 show ?thesis by (simp add: List.map_filter_simps)
    next
      case (Cons p q')
      have "distinct (map fst (jm_set m (norm_heading (rs_heading s)) q'))"
        using jm_distinct_set "2.prems" by (metis jm_keys_def)
      with Some Cons 2 queue_ids_pop [of m _ p q'] show ?thesis
        by (simp add: List.map_filter_simps)
    qed
  qed
qed simp

lemma queue_ids_push:
  "mset (queue_ids (jm_set m k ((case jm_get m k of None \<Rightarrow> [] | Some g \<Rightarrow> g) @ [p]))) = add_mset (ds_id p) (mset (queue_ids m))"
  by (induction m k "(case jm_get m k of None \<Rightarrow> [] | Some g \<Rightarrow> g) @ [p]" rule: jm_set.induct)
    (auto simp: queue_ids_def jm_get_def split: option.splits)

lemma group_queue_ids: "mset (queue_ids (js_group_by f prior)) = mset (map ds_id prior)"
proof -
  have "mset (queue_ids (group_rows jm_get jm_set f m rs)) = mset (queue_ids m) + mset (map ds_id rs)" for m rs
  proof (induction rs arbitrary: m)
    case (Cons r rs)
    show ?case using queue_ids_push [of m "f r" r] Cons.IH by (cases "jm_get m (f r)") auto
  qed simp
  then show ?thesis by (simp add: js_group_by_def queue_ids_def)
qed

lemma distinct_sub_mset: "mset xs \<subseteq># mset ys \<Longrightarrow> distinct ys \<Longrightarrow> distinct xs"
  by (metis (no_types) distinct_append ex_mset mset_append mset_eq_imp_distinct_iff subset_mset.add_diff_inverse)

lemma name_sections_ids:
  "name_sections ss used = (r, u) \<Longrightarrow> set (List.map_filter ps_id ss) \<subseteq> set used \<Longrightarrow>
   \<exists>new. mset (map ps_id r) = image_mset Some (mset (List.map_filter ps_id ss) + mset new)
     \<and> distinct new \<and> set new \<inter> set used = {}"
proof (induction ss arbitrary: used r u)
  case Nil
  then show ?case by (intro exI [of _ "[]"]) simp
next
  case (Cons s ss)
  show ?case
  proof (cases "ps_id s")
    case (Some i)
    obtain r1 u1 where rec: "name_sections ss used = (r1, u1)" by force
    with Some Cons.prems have r: "r = s # r1" and sub: "set (List.map_filter ps_id ss) \<subseteq> set used"
      by (auto simp: List.map_filter_simps)
    from Cons.IH [OF rec sub] obtain new where "mset (map ps_id r1) = image_mset Some (mset (List.map_filter ps_id ss) + mset new)"
      "distinct new" "set new \<inter> set used = {}" by blast
    with r Some show ?thesis by (intro exI [of _ new]) (auto simp: List.map_filter_simps)
  next
    case None
    let ?i = "unique_id (if ps_heading s \<noteq> [] then slugify (ps_heading s) else PREAMBLE_ID) used"
    obtain r1 u1 where rec: "name_sections ss (?i # used) = (r1, u1)" by force
    with None Cons.prems have r: "r = s\<lparr>ps_id := Some ?i\<rparr> # r1"
      and sub: "set (List.map_filter ps_id ss) \<subseteq> set (?i # used)"
      by (auto simp: List.map_filter_simps Let_def)
    from Cons.IH [OF rec sub] obtain new where "mset (map ps_id r1) = image_mset Some (mset (List.map_filter ps_id ss) + mset new)"
      "distinct new" "set new \<inter> set (?i # used) = {}" by blast
    with r None unique_id_fresh [of _ used] show ?thesis
      by (intro exI [of _ "?i # new"]) (auto simp: List.map_filter_simps)
  qed
qed

lemma name_sections_pids: "name_sections ss used = (r, u) \<Longrightarrow> pids r = pids ss"
  by (induction ss used arbitrary: r u rule: name_sections.induct)
    (auto simp: Let_def pids_def split: option.splits prod.splits)

lemma pass_sections_ps_id: "pass_sections c ss t = (r, t') \<Longrightarrow> map ps_id r = map ps_id ss"
  by (induction c ss t arbitrary: r t' rule: pass_sections.induct) (auto simp: Let_def split: prod.splits)

lemma passes_ps_id: "passes prior ss = (r, t) \<Longrightarrow> map ps_id r = map ps_id ss"
  by (auto simp: passes_def Let_def split: prod.splits dest!: pass_sections_ps_id)

lemma finish_sections_ds_id: "map ds_id (finish_sections sha8 ss u) = map (\<lambda>s. str_of (ps_id s)) ss"
  by (induction sha8 ss u rule: finish_sections.induct) (auto simp: Let_def split: prod.splits)

lemma matched_starts:
  "length ms = length raw \<Longrightarrow> List.map_filter ps_id (map start_section (zip raw ms)) = List.map_filter (map_option ds_id) ms
    \<and> pids (map start_section (zip raw ms)) = []"
proof (induction raw ms rule: list_induct2')
  case (4 s raw m ms)
  have "List.map_filter pb_id (map (\<lambda>t. \<lparr>pb_id = None, pb_text = t\<rparr>) ts) = []" for ts
    by (induction ts) (simp_all add: List.map_filter_simps)
  with 4 show ?case
    by (cases m) (auto simp: start_section_def List.map_filter_simps pids_def)
qed (simp_all add: List.map_filter_simps pids_def)

lemma parse_ids_distinct:
  assumes d: "distinct (map ds_id prior)"
  shows "distinct (map ds_id (parseDoc sha8 md prior)) \<and> distinct (block_ids (parseDoc sha8 md prior))"
proof -
  let ?ss = "matched_sections md prior"
  let ?m = "js_group_by (\<lambda>s. norm_heading (ds_heading s)) prior"
  let ?M = "List.map_filter ps_id ?ss"
  have M: "?M = List.map_filter (map_option ds_id) (match_sections ?m (splitRaw md))" and np: "pids ?ss = []"
    using matched_starts [of "match_sections ?m (splitRaw md)" "splitRaw md"] by (simp_all add: matched_sections_def Let_def)
  have "distinct (map fst ?m)" using js_group_by_distinct [of "\<lambda>s. norm_heading (ds_heading s)" prior] by (simp add: jm_keys_def)
  then have "mset ?M \<subseteq># mset (map ds_id prior)" using matched_ids_once [of ?m] group_queue_ids M by metis
  then have dM: "distinct ?M" using d distinct_sub_mset by blast
  obtain named used where n: "name_sections ?ss ?M = (named, used)" by force
  obtain r t where p: "passes prior named = (r, t)" by force
  have doc: "parseDoc sha8 md prior = finish_sections sha8 r (t @ used)"
    using n p by (simp add: parseDoc_def)
  from name_sections_ids [OF n] obtain new where
    "mset (map ps_id named) = image_mset Some (mset (?M @ new))" "distinct (?M @ new)"
    using dM by auto
  then have "mset (map str_of (map ps_id named)) = image_mset str_of (image_mset Some (mset (?M @ new)))"
    by (metis mset_map)
  then have "mset (map str_of (map ps_id named)) = mset (?M @ new)" by (simp add: image_mset.compositionality comp_def)
  then have "distinct (map str_of (map ps_id r))"
    using \<open>distinct (?M @ new)\<close> passes_ps_id [OF p] mset_eq_imp_distinct_iff by metis
  then have sec: "distinct (map ds_id (parseDoc sha8 md prior))"
    by (simp add: doc finish_sections_ds_id comp_def)
  have "pids named = []" using name_sections_pids [OF n] np by simp
  from passes_ids [OF p this] have pd: "distinct (pids r)" "set (pids r) \<subseteq> set (t @ used)" by auto
  from finish_sections_ids [OF pd(2)] obtain nw where
    "mset (block_ids (finish_sections sha8 r (t @ used))) = mset (pids r @ nw)" "distinct nw" "set nw \<inter> set (t @ used) = {}" 
    by fastforce
  then have "distinct (block_ids (finish_sections sha8 r (t @ used)))"
    using pd mset_eq_imp_distinct_iff [of _ "pids r @ nw"] by auto
  with sec show ?thesis by (simp add: doc [symmetric])
qed

text \<open>Parsing keeps ids apart: whatever the person wrote in the markdown, and whatever the stored document
  was, the parsed sections have distinct ids and its blocks have distinct ids (the stored sections
  having distinct ones), and its headings, levels and block texts are exactly those of the markdown.\<close>

theorem parse_keeps_ids_distinct:
  assumes d: "distinct (map ds_id prior)"
  shows "distinct (map ds_id (parseDoc sha8 md prior)) \<and> distinct (block_ids (parseDoc sha8 md prior))
    \<and> map raw_of (parseDoc sha8 md prior) = splitRaw md"
  using parse_ids_distinct [OF d] by (simp add: parseDoc_raw)

theorem parse_keeps_ids_distinct_witness:
  "distinct (map ds_id (parseDoc (\<lambda>_. ''0'') ''## Why'' demo_doc))"
  using parse_keeps_ids_distinct [of demo_doc "\<lambda>_. ''0''" "''## Why''"] by (simp add: demo_doc_def)

end
