(* ===== verification/LivingRoundTrip.thy ===== *)
theory LivingRoundTrip
  imports LivingParse
begin

text \<open>
  Parsing and rendering a living file, \<^verbatim>\<open>apps/api/src/lib/livingDoc.mjs\<close>: the renderer is byte-stable on
  what the parser read, and taking in a file nobody edited changes nothing, ids included. The proof
  describes the lines of one block (\<open>frag\<close>), of one section's blocks and of a whole document, and
  follows the two line machines (\<open>blocks_from\<close>, \<open>split_from\<close>) over them.
\<close>

section \<open>Lines of a block\<close>

definition fence_end :: "string option \<Rightarrow> string list \<Rightarrow> string option" where
  "fence_end f ls = fold (\<lambda>l f. fence_after f l) ls f"

text \<open>Outside a fence, no blank line (when \<open>tight\<close>) and no heading line.\<close>

fun frag :: "bool \<Rightarrow> string option \<Rightarrow> string list \<Rightarrow> bool" where
  "frag tight f [] = True"
| "frag tight f (l # ls) =
     (case fence_mark l of
        Some m \<Rightarrow> frag tight (fenceStep f m) ls
      | None \<Rightarrow> (f \<noteq> None \<or> ((tight \<longrightarrow> \<not> blank l) \<and> heading_line l = None)) \<and> frag tight f ls)"

lemma fence_end_simps [simp]:
  "fence_end f [] = f" "fence_end f (l # ls) = fence_end (fence_after f l) ls"
  "fence_end f (xs @ ys) = fence_end (fence_end f xs) ys"
  by (simp_all add: fence_end_def)

lemma frag_append [simp]: "frag b f (xs @ ys) = (frag b f xs \<and> frag b (fence_end f xs) ys)"
  by (induction b f xs rule: frag.induct) (auto simp: fence_after_def split: option.splits)

lemma trim_empty: "js_trim s = [] \<longleftrightarrow> (\<forall>c \<in> set s. is_ws c)"
  unfolding js_trim_def trim_start_def trim_end_def
  by (metis dropWhile_eq_Nil_conv hd_dropWhile hd_in_set rev_is_Nil_conv set_dropWhileD set_rev)

lemma blank_all_ws: "blank l \<longleftrightarrow> (\<forall>c \<in> set l. is_ws c)"
  by (simp add: blank_def trim_empty)

lemma blank_no_mark: "blank l \<Longrightarrow> fence_mark l = None"
proof -
  assume "blank l"
  then have d: "dropWhile is_ws l = []" by (simp only: blank_all_ws dropWhile_eq_Nil_conv)
  show ?thesis unfolding fence_mark_def d by simp
qed

lemma blank_no_heading: "blank l \<Longrightarrow> heading_line l = None"
proof -
  assume "blank l"
  then have "takeWhile (\<lambda>c. c = CHR ''#'') l = []" by (cases l) (auto simp: blank_all_ws is_ws_def)
  then show ?thesis by (simp add: heading_line_def Let_def)
qed

lemma blank_Nil [simp]: "blank []" by (simp add: blank_def js_trim_def trim_start_def trim_end_def)

lemma mark_Nil [simp]: "fence_mark [] = None" by (simp add: blank_no_mark)

lemma heading_Nil [simp]: "heading_line [] = None" by (simp add: blank_no_heading)

lemma blocks_from_frag: "frag True f ls \<Longrightarrow> blocks_from buf f (ls @ rest) = blocks_from (buf @ ls) (fence_end f ls) rest"
  by (induction ls arbitrary: buf f) (auto simp: fence_after_def split: option.splits)

lemma split_from_frag: "frag b f ls \<Longrightarrow> split_from c p f (ls @ rest) = split_from c (p @ ls) (fence_end f ls) rest"
  by (induction ls arbitrary: p f) (auto simp: fence_after_def split: option.splits)

section \<open>Block texts\<close>

text \<open>A block as the splitter produces it: nonblank ends, no blank or heading line outside a fence.\<close>

definition good_text :: "string \<Rightarrow> bool" where
  "good_text t = (frag True None (lines_of t) \<and> \<not> blank (hd (lines_of t)) \<and> \<not> blank (last (lines_of t)) \<and> CR \<notin> set t)"

definition closed :: "string \<Rightarrow> bool" where
  "closed t = (fence_end None (lines_of t) = None)"

fun good_blocks :: "bool \<Rightarrow> string list \<Rightarrow> bool" where
  "good_blocks lst [] = True"
| "good_blocks lst (t # ts) = (good_text t \<and> (closed t \<or> (lst \<and> ts = [])) \<and> good_blocks lst ts)"

definition block_lines :: "string list \<Rightarrow> string list" where
  "block_lines ts = concat (map (\<lambda>t. lines_of t @ [[]]) ts)"

lemma lines_of_ne [simp]: "lines_of t \<noteq> []"
  by (simp add: lines_of_def)

lemma join_lines [simp]: "js_join [nl] (lines_of t) = t"
  by (simp add: lines_of_def js_join_split)

lemma lines_of_join: "ls \<noteq> [] \<Longrightarrow> \<forall>l \<in> set ls. nl \<notin> set l \<Longrightarrow> lines_of (js_join [nl] ls) = ls"
  by (simp add: lines_of_def split_on_join)

lemma lines_no_nl: "l \<in> set (lines_of t) \<Longrightarrow> nl \<notin> set l"
  by (simp add: lines_of_def split_on_parts)

definition trim_lines :: "string list \<Rightarrow> string list" where
  "trim_lines ls = rev (dropWhile blank (rev (dropWhile blank ls)))"

lemma trimBlankLines_alt: "ls \<noteq> [] \<Longrightarrow> \<forall>l \<in> set ls. nl \<notin> set l \<Longrightarrow>
    trimBlankLines (js_join [nl] ls) = js_join [nl] (trim_lines ls)"
  by (simp add: trimBlankLines_def lines_of_join trim_lines_def)

lemma join_set: "c \<in> set l \<Longrightarrow> l \<in> set ls \<Longrightarrow> c \<in> set (js_join sep ls)"
  by (induction sep ls rule: js_join.induct) auto

lemma nonblank_join: "l \<in> set ls \<Longrightarrow> \<not> blank l \<Longrightarrow> js_trim (js_join [nl] ls) \<noteq> []"
  unfolding blank_def trim_empty using join_set by metis

lemma flush_good:
  assumes g: "good_text t" and e: "set e \<subseteq> {[]}"
  shows "flush_block (lines_of t @ e) = [t]"
proof -
  obtain l ls where l: "lines_of t = l # ls" by (cases "lines_of t") auto
  have hd: "\<not> blank l" and lst: "\<not> blank (last (lines_of t))" using g l by (auto simp: good_text_def)
  have de: "dropWhile blank (rev e @ xs) = dropWhile blank xs" for xs using e by (induction e rule: rev_induct) auto
  have "dropWhile blank (lines_of t @ e) = lines_of t @ e" using l hd by simp
  moreover have "dropWhile blank (rev (lines_of t)) = rev (lines_of t)"
    using lst by (cases "lines_of t" rule: rev_cases) auto
  ultimately have "trim_lines (lines_of t @ e) = lines_of t" by (simp add: trim_lines_def de)
  moreover have "\<forall>x \<in> set (lines_of t @ e). nl \<notin> set x" using e lines_no_nl [of _ t] by fastforce
  ultimately have "trimBlankLines (js_join [nl] (lines_of t @ e)) = t" by (simp add: trimBlankLines_alt)
  moreover have "js_trim t \<noteq> []" using nonblank_join [of l "lines_of t"] hd l join_lines [of t] by simp
  ultimately show ?thesis by (simp add: flush_block_def)
qed

lemma flush_Nil [simp]: "flush_block [] = []"
  by (simp add: flush_block_def trimBlankLines_def lines_of_def js_trim_def trim_start_def trim_end_def)

lemma blocks_of_good: "good_blocks lst ts \<Longrightarrow> blocks_from [] None (block_lines ts) = ts"
proof (induction ts)
  case Nil
  then show ?case by (simp add: block_lines_def)
next
  case (Cons t ts)
  then have g: "good_text t" by simp
  then have f: "frag True None (lines_of t)" by (simp add: good_text_def)
  have eq: "blocks_from [] None (block_lines (t # ts)) = blocks_from (lines_of t) (fence_end None (lines_of t)) ([] # block_lines ts)"
    using blocks_from_frag [OF f, of "[]"] by (simp add: block_lines_def)
  show ?case
  proof (cases "closed t")
    case True
    with eq Cons flush_good [OF g, of "[]"] show ?thesis by (simp add: closed_def)
  next
    case False
    then obtain m where "fence_end None (lines_of t) = Some m" by (auto simp: closed_def)
    with eq Cons False flush_good [OF g, of "[[]]"] show ?thesis by (simp add: block_lines_def)
  qed
qed

section \<open>Whole documents\<close>

definition heading_text :: "raw_section \<Rightarrow> string" where
  "heading_text s = replicate (rs_level s) CHR ''#'' @ '' '' @ rs_heading s"

definition good_heading :: "raw_section \<Rightarrow> bool" where
  "good_heading s = (rs_heading s \<noteq> [] \<and> js_trim (rs_heading s) = rs_heading s \<and> nl \<notin> set (rs_heading s)
     \<and> CR \<notin> set (rs_heading s) \<and> 1 \<le> rs_level s \<and> rs_level s \<le> 6)"

fun good_secs :: "raw_section list \<Rightarrow> bool" where
  "good_secs [] = True"
| "good_secs (s # ss) = (good_heading s \<and> good_blocks (ss = []) (rs_blocks s) \<and> good_secs ss)"

fun good_doc :: "raw_section list \<Rightarrow> bool" where
  "good_doc [] = True"
| "good_doc (s # ss) = (if rs_heading s = []
     then rs_level s = 2 \<and> rs_blocks s \<noteq> [] \<and> good_blocks (ss = []) (rs_blocks s) \<and> good_secs ss
     else good_secs (s # ss))"

definition sec_lines :: "raw_section \<Rightarrow> string list" where
  "sec_lines s = heading_text s # [] # block_lines (rs_blocks s)"

lemma heading_text_line:
  assumes "good_heading s"
  shows "heading_line (heading_text s) = Some (rs_level s, rs_heading s)" and "fence_mark (heading_text s) = None"
proof -
  let ?P = "\<lambda>c. c = CHR ''#''"
  have tw: "takeWhile ?P (replicate n CHR ''#'' @ CHR '' '' # h) = replicate n CHR ''#''"
    and dw: "dropWhile ?P (replicate n CHR ''#'' @ CHR '' '' # h) = CHR '' '' # h" for n h
    by (induction n) simp_all
  have "js_trim (CHR '' '' # h) = js_trim h" for h by (simp add: js_trim_def trim_start_def is_ws_def)
  with assms show "heading_line (heading_text s) = Some (rs_level s, rs_heading s)"
    by (simp add: heading_line_def heading_text_def good_heading_def tw dw is_ws_def)
  obtain n where "rs_level s = Suc n" using assms by (cases "rs_level s") (auto simp: good_heading_def)
  then show "fence_mark (heading_text s) = None" by (simp add: fence_mark_def heading_text_def is_ws_def)
qed

lemma split_blocks:
  "good_blocks False ts \<Longrightarrow> split_from c p None (block_lines ts @ rest) = split_from c (p @ block_lines ts) None rest"
proof (induction ts arbitrary: p)
  case (Cons t ts)
  then have "frag True None (lines_of t)" "fence_end None (lines_of t) = None" by (auto simp: good_text_def closed_def)
  from split_from_frag [OF this(1), of c p "[] # block_lines ts @ rest"] this(2) Cons show ?case
    by (simp add: block_lines_def)
qed (simp add: block_lines_def)

lemma split_last_blocks: "good_blocks lst ts \<Longrightarrow> split_from c p None (block_lines ts) = close_section c (p @ block_lines ts)"
proof (induction ts arbitrary: p)
  case (Cons t ts)
  then have "frag True None (lines_of t)" by (simp add: good_text_def)
  from split_from_frag [OF this, of c p "[] # block_lines ts"] Cons show ?case
    by (cases "fence_end None (lines_of t)") (auto simp: block_lines_def closed_def)
qed (simp add: block_lines_def)

lemma split_secs_step:
  assumes "good_blocks (ss = []) ts"
    and rest: "\<And>c p. split_from c p None (concat (map sec_lines ss)) = close_section c p @ ss"
  shows "split_from c p None (block_lines ts @ concat (map sec_lines ss)) = close_section c (p @ block_lines ts) @ ss"
proof (cases "ss = []")
  case True
  with assms(1) split_last_blocks show ?thesis by simp
next
  case False
  with assms(1) split_blocks rest show ?thesis by simp
qed

lemma close_some: "good_blocks lst ts \<Longrightarrow> close_section (Some (h, n)) ([] # block_lines ts) = [\<lparr>rs_heading = h, rs_level = n, rs_blocks = ts\<rparr>]"
  by (simp add: close_section_def blocksOf_def blocks_of_good)

lemma close_none: "good_blocks lst ts \<Longrightarrow> ts \<noteq> [] \<Longrightarrow>
    close_section None (block_lines ts) = [\<lparr>rs_heading = '''', rs_level = 2, rs_blocks = ts\<rparr>]"
proof -
  assume g: "good_blocks lst ts" and "ts \<noteq> []"
  then obtain t ts' where t: "ts = t # ts'" "good_text t" by (cases ts) auto
  then have "\<exists>l \<in> set (block_lines ts). \<not> blank l"
    by (intro bexI [of _ "hd (lines_of t)"]) (auto simp: good_text_def block_lines_def)
  with g show ?thesis by (auto simp: close_section_def list_ex_iff blocksOf_def blocks_of_good)
qed

lemma split_secs: "good_secs ss \<Longrightarrow> split_from c p None (concat (map sec_lines ss)) = close_section c p @ ss"
proof (induction ss arbitrary: c p)
  case (Cons s ss)
  then have h: "good_heading s" and g: "good_blocks (ss = []) (rs_blocks s)" by auto
  have "split_from c p None (concat (map sec_lines (s # ss)))
      = close_section c p @ split_from (Some (rs_heading s, rs_level s)) []
          None ([] # block_lines (rs_blocks s) @ concat (map sec_lines ss))"
    using heading_text_line [OF h] by (simp add: sec_lines_def)
  then show ?case using split_secs_step [OF g Cons.IH] Cons.prems close_some [OF g] by simp
qed simp

section \<open>The rendered text, line by line\<close>

definition sec_items :: "raw_section \<Rightarrow> string list" where
  "sec_items s = (if rs_heading s \<noteq> [] then [heading_text s] else []) @ rs_blocks s"

lemma js_join_empty: "\<forall>x \<in> set xs. x \<noteq> [] \<Longrightarrow> (js_join sep xs = []) = (xs = [])"
  by (induction sep xs rule: js_join.induct) auto

lemma js_join_nonempties:
  "\<forall>xs \<in> set xss. \<forall>x \<in> set xs. x \<noteq> [] \<Longrightarrow>
   js_join sep (filter (\<lambda>p. p \<noteq> []) (map (js_join sep) xss)) = js_join sep (concat xss)
   \<and> (filter (\<lambda>p. p \<noteq> []) (map (js_join sep) xss) = []) = (concat xss = [])"
proof (induction xss)
  case (Cons xs xss)
  show ?case
  proof (cases "xs = []")
    case False
    then have ne: "js_join sep xs \<noteq> []" using Cons.prems js_join_empty [of xs sep] by simp
    let ?f = "filter (\<lambda>p. p \<noteq> []) (map (js_join sep) xss)"
    have IH: "js_join sep ?f = js_join sep (concat xss)" "(?f = []) = (concat xss = [])" using Cons by auto
    have "js_join sep (js_join sep xs # ?f) = js_join sep (xs @ concat xss)"
    proof (cases "concat xss = []")
      case True
      with IH(2) have "?f = []" by blast
      then show ?thesis by (simp only: True append_Nil2 js_join.simps)
    next
      case False
      with IH have "?f \<noteq> []" by blast
      then have "js_join sep (js_join sep xs # ?f) = js_join sep xs @ sep @ js_join sep ?f" by (cases ?f) auto
      then show ?thesis using IH(1) js_join_append [OF \<open>xs \<noteq> []\<close> False, of sep] by simp
    qed
    with ne False show ?thesis by simp
  qed (use Cons in simp)
qed simp

lemma lines_of_items:
  "items \<noteq> [] \<Longrightarrow> lines_of (js_join [nl, nl] items @ [nl]) = concat (map (\<lambda>i. lines_of i @ [[]]) items)"
proof (induction "[nl, nl]" items rule: js_join.induct)
  case (2 x)
  show ?case using split_on_append [of nl x "[]"] by (simp add: lines_of_def)
next
  case (3 x y ys)
  have "lines_of (js_join [nl, nl] (x # y # ys) @ [nl]) = split_on nl (x @ nl # (nl # js_join [nl, nl] (y # ys) @ [nl]))"
    by (simp add: lines_of_def)
  also have "\<dots> = lines_of x @ [] # lines_of (js_join [nl, nl] (y # ys) @ [nl])"
    by (subst split_on_append) (simp add: lines_of_def)
  finally show ?case using 3 by simp
qed simp

lemma good_text_nonempty: "good_text t \<Longrightarrow> js_trim t \<noteq> []"
  using nonblank_join [of "hd (lines_of t)" "lines_of t"] by (auto simp: good_text_def)

lemma good_blocks_each: "good_blocks lst ts \<Longrightarrow> t \<in> set ts \<Longrightarrow> good_text t"
  by (induction lst ts rule: good_blocks.induct) auto

lemma good_secs_each: "good_secs ss \<Longrightarrow> s \<in> set ss \<Longrightarrow> good_heading s \<and> (\<forall>t \<in> set (rs_blocks s). good_text t)"
  by (induction ss rule: good_secs.induct) (auto dest: good_blocks_each)

lemma good_doc_each: "good_doc ss \<Longrightarrow> s \<in> set ss \<Longrightarrow>
    (rs_heading s = [] \<or> good_heading s) \<and> (\<forall>t \<in> set (rs_blocks s). good_text t)"
  by (cases ss) (auto split: if_splits dest: good_blocks_each good_secs_each)

lemma js_trim_Nil [simp]: "js_trim [] = []" by (simp add: trim_empty)

lemma render_part_items:
  "rs_heading s = [] \<or> good_heading s \<Longrightarrow> \<forall>t \<in> set (rs_blocks s). good_text t \<Longrightarrow>
   render_part (rs_heading s) (rs_level s) (rs_blocks s) = js_join [nl, nl] (sec_items s)"
  using good_text_nonempty
  by (auto simp: render_part_def sec_items_def heading_text_def good_heading_def filter_True)

definition render_raws :: "raw_section list \<Rightarrow> string" where
  "render_raws rs = render_parts (map (\<lambda>r. render_part (rs_heading r) (rs_level r) (rs_blocks r)) rs)"

lemma render_good:
  assumes "good_doc rs"
  shows "render_raws rs = (if rs = [] then '''' else js_join [nl, nl] (concat (map sec_items rs)) @ [nl])"
    and "rs \<noteq> [] \<Longrightarrow> concat (map sec_items rs) \<noteq> []"
proof -
  note each = good_doc_each [OF assms]
  have m: "map (\<lambda>r. render_part (rs_heading r) (rs_level r) (rs_blocks r)) rs = map (js_join [nl, nl]) (map sec_items rs)"
    using each render_part_items by simp
  have ne: "\<forall>xs \<in> set (map sec_items rs). \<forall>x \<in> set xs. x \<noteq> []"
    using each good_text_nonempty by (fastforce simp: sec_items_def heading_text_def)
  show nn: "concat (map sec_items rs) \<noteq> []" if "rs \<noteq> []"
    using assms that by (cases rs) (auto simp: sec_items_def)
  let ?f = "filter (\<lambda>p. p \<noteq> []) (map (js_join [nl, nl]) (map sec_items rs))"
  have j: "js_join [nl, nl] ?f = js_join [nl, nl] (concat (map sec_items rs))"
    and e: "(?f = []) = (concat (map sec_items rs) = [])" using js_join_nonempties [OF ne, of "[nl, nl]"] by blast+
  show "render_raws rs = (if rs = [] then '''' else js_join [nl, nl] (concat (map sec_items rs)) @ [nl])"
  proof (cases "rs = []")
    case False
    then have "?f \<noteq> []" using e nn by blast
    then show ?thesis unfolding render_raws_def render_parts_def Let_def m using j False by (simp only: if_True if_False simp_thms)
  qed (simp add: render_raws_def render_parts_def)
qed

lemma item_lines:
  assumes "rs_heading s = [] \<or> good_heading s"
  shows "concat (map (\<lambda>i. lines_of i @ [[]]) (sec_items s)) = (if rs_heading s = [] then block_lines (rs_blocks s) else sec_lines s)"
proof -
  have "lines_of (heading_text s) = [heading_text s]" if "good_heading s"
    using that split_on_no_sep [of nl "heading_text s"] by (auto simp: lines_of_def heading_text_def good_heading_def nl_def)
  with assms show ?thesis by (auto simp: sec_items_def sec_lines_def block_lines_def)
qed

lemma drop_crlf_id: "CR \<notin> set s \<Longrightarrow> drop_crlf s = s"
  by (induction s rule: drop_crlf.induct) auto

lemma js_join_CR: "CR \<in> set (js_join sep xs) \<Longrightarrow> CR \<in> set sep \<or> (\<exists>x \<in> set xs. CR \<in> set x)"
  by (induction sep xs rule: js_join.induct) auto

text \<open>Rendering well-formed sections and splitting again gives them back.\<close>

lemma split_render: "good_doc rs \<Longrightarrow> splitRaw (render_raws rs) = rs"
proof (cases rs)
  case Nil
  then show ?thesis by (simp add: render_raws_def render_parts_def splitRaw_def lines_of_def close_section_def)
next
  case (Cons s ss)
  assume g: "good_doc rs"
  let ?T = "js_join [nl, nl] (concat (map sec_items rs)) @ [nl]"
  have r: "render_raws rs = ?T" and ne: "concat (map sec_items rs) \<noteq> []" using render_good [OF g] Cons by auto
  have "CR \<notin> set x" if x: "x \<in> set (concat (map sec_items rs))" for x
    using x good_doc_each [OF g] by (fastforce simp: sec_items_def heading_text_def good_heading_def good_text_def CR_def split: if_splits)
  then have "CR \<notin> set (js_join [nl, nl] (concat (map sec_items rs)))"
    using js_join_CR [of "[nl, nl]" "concat (map sec_items rs)"] by (force simp: nl_def CR_def)
  then have cr: "drop_crlf ?T = ?T" by (intro drop_crlf_id) (simp add: nl_def CR_def)
  have "concat (map (\<lambda>i. lines_of i @ [[]]) (concat (map sec_items rs)))
      = concat (map (\<lambda>s. concat (map (\<lambda>i. lines_of i @ [[]]) (sec_items s))) rs)"
    by (induction rs) simp_all
  also have "\<dots> = concat (map (\<lambda>s. if rs_heading s = [] then block_lines (rs_blocks s) else sec_lines s) rs)"
    using good_doc_each [OF g] item_lines by (intro arg_cong [where f = concat] map_cong) auto
  finally have L: "lines_of ?T = concat (map (\<lambda>s. if rs_heading s = [] then block_lines (rs_blocks s) else sec_lines s) rs)"
    using lines_of_items [OF ne] by simp
  have rest: "good_secs xs \<Longrightarrow> concat (map (\<lambda>s. if rs_heading s = [] then block_lines (rs_blocks s) else sec_lines s) xs)
      = concat (map sec_lines xs)" for xs
    by (induction xs) (auto simp: good_heading_def)
  have "splitRaw ?T = split_from None [] None (lines_of ?T)" by (simp add: splitRaw_def cr)
  also have "\<dots> = rs"
  proof (cases "rs_heading s = []")
    case False
    with g Cons have "good_secs rs" by simp
    with L rest split_secs [of rs None "[]"] show ?thesis by (simp add: close_section_def)
  next
    case True
    with g Cons have p: "good_blocks (ss = []) (rs_blocks s)" "rs_blocks s \<noteq> []" "good_secs ss" "rs_level s = 2" by auto
    then have "lines_of ?T = block_lines (rs_blocks s) @ concat (map sec_lines ss)" using L Cons True rest by simp
    with split_secs_step [OF p(1) split_secs [OF p(3)], of None "[]"] close_none [OF p(1,2)] Cons True p(4)
    show ?thesis by simp
  qed
  finally show ?thesis using r by simp
qed

section \<open>What the splitter produces is well-formed\<close>

definition clean :: "string list \<Rightarrow> bool" where
  "clean ls = (\<forall>l \<in> set ls. nl \<notin> set l \<and> CR \<notin> set l)"

lemma clean_simps [simp]: "clean []" "clean (l # ls) = (nl \<notin> set l \<and> CR \<notin> set l \<and> clean ls)"
  "clean (xs @ ys) = (clean xs \<and> clean ys)"
  by (auto simp: clean_def)

lemma fence_after_blank: "blank l \<Longrightarrow> fence_after f l = f"
  by (simp add: fence_after_def blank_no_mark)

lemma fence_end_blanks: "\<forall>l \<in> set ls. blank l \<Longrightarrow> fence_end f ls = f"
  by (induction ls) (simp_all add: fence_after_blank)

lemma trim_end_split: "\<exists>zs. ls = rev (dropWhile blank (rev ls)) @ zs \<and> (\<forall>l \<in> set zs. blank l)"
proof (intro exI conjI)
  show "ls = rev (dropWhile blank (rev ls)) @ rev (takeWhile blank (rev ls))"
    by (metis rev_append rev_rev_ident takeWhile_dropWhile_id)
  show "\<forall>l \<in> set (rev (takeWhile blank (rev ls))). blank l" by (auto dest: set_takeWhileD)
qed

text \<open>Closing a block whose lines have no blank or heading line outside a fence.\<close>

lemma flush_frag:
  assumes f: "frag True None buf" and c: "clean buf" and ne: "buf \<noteq> []"
  shows "\<exists>t. flush_block buf = [t] \<and> good_text t \<and> (closed t \<longleftrightarrow> fence_end None buf = None)"
proof -
  obtain l ls where l: "buf = l # ls" using ne by (cases buf) auto
  have nb: "\<not> blank l" using f l blank_no_mark [of l] by (auto split: option.splits)
  define T where "T = rev (dropWhile blank (rev buf))"
  obtain zs where zs: "buf = T @ zs" and bl: "\<forall>x \<in> set zs. blank x" using trim_end_split unfolding T_def by blast
  have Tne: "T \<noteq> []" using zs bl nb l by (cases T) auto
  then have hd: "hd T = l" using zs l by (cases T) auto
  have "dropWhile blank (rev buf) \<noteq> []" using Tne by (simp add: T_def)
  then have lst: "\<not> blank (last T)" unfolding T_def last_rev by (rule hd_dropWhile)
  have fT: "frag True None T" and eT: "fence_end None T = fence_end None buf" and cT: "clean T"
    using f c fence_end_blanks [OF bl] by (simp_all add: zs)
  have lj: "lines_of (js_join [nl] T) = T" using Tne cT by (intro lines_of_join) (auto simp: clean_def)
  have "trim_lines buf = T" using l nb by (simp add: trim_lines_def T_def)
  then have tb: "trimBlankLines (js_join [nl] buf) = js_join [nl] T"
    using trimBlankLines_alt [OF ne] c by (simp add: clean_def)
  have "CR \<notin> set (js_join [nl] T)"
    using js_join_CR [of "[nl]" T] cT by (auto simp: clean_def nl_def CR_def)
  then have g: "good_text (js_join [nl] T)" using fT hd lst nb lj by (simp add: good_text_def)
  from good_text_nonempty [OF this] have "flush_block buf = [js_join [nl] T]" by (simp add: flush_block_def tb Let_def)
  with g lj eT show ?thesis by (auto simp: closed_def)
qed

lemma blocks_from_good:
  "frag True None buf \<Longrightarrow> fence_end None buf = f \<Longrightarrow> frag False f ls \<Longrightarrow> clean buf \<Longrightarrow> clean ls \<Longrightarrow>
   good_blocks (fence_end f ls \<noteq> None) (blocks_from buf f ls)
   \<and> (buf \<noteq> [] \<or> list_ex (\<lambda>l. \<not> blank l) ls \<longrightarrow> blocks_from buf f ls \<noteq> [])"
proof (induction ls arbitrary: buf f)
  case Nil
  show ?case
  proof (cases "buf = []")
    case False
    from flush_frag [OF Nil.prems(1,4) False] Nil.prems(2) show ?thesis by fastforce
  qed simp
next
  case (Cons l ls)
  show ?case
  proof (cases "fence_mark l")
    case (Some m)
    then have fa: "fence_after f l = fenceStep f m" by (simp add: fence_after_def)
    have "frag True None (buf @ [l])" "fence_end None (buf @ [l]) = fenceStep f m"
      using Cons.prems Some fa by auto
    from Cons.IH [OF this] Cons.prems Some fa show ?thesis by simp
  next
    case None
    then have fa: "fence_after f l = f" by (simp add: fence_after_def)
    show ?thesis
    proof (cases "f = None \<and> blank l")
      case False
      then have "frag True None (buf @ [l])" "fence_end None (buf @ [l]) = f"
        using Cons.prems None fa by auto
      moreover have "blocks_from buf f (l # ls) = blocks_from (buf @ [l]) f ls" using None False by auto
      ultimately show ?thesis using Cons.IH [of "buf @ [l]" f] Cons.prems None fa by simp
    next
      case True
      have rec: "good_blocks (fence_end None ls \<noteq> None) (blocks_from [] None ls)
          \<and> (list_ex (\<lambda>l. \<not> blank l) ls \<longrightarrow> blocks_from [] None ls \<noteq> [])"
        using Cons.IH [of "[]" None] Cons.prems None True fa by simp
      show ?thesis
      proof (cases "buf = []")
        case False
        from flush_frag [OF Cons.prems(1,4) False] Cons.prems(2) rec None True fa show ?thesis by auto
      qed (use rec None True fa in simp)
    qed
  qed
qed

lemma good_blocks_mono: "good_blocks False ts \<Longrightarrow> good_blocks b ts"
  by (induction ts) auto

lemma js_trim_idem: "js_trim (js_trim s) = js_trim s"
proof -
  let ?u = "dropWhile is_ws s"
  let ?v = "rev (dropWhile is_ws (rev ?u))"
  have uv: "?u = ?v @ rev (takeWhile is_ws (rev ?u))" by (metis rev_append rev_rev_ident takeWhile_dropWhile_id)
  have "dropWhile is_ws ?v = ?v"
  proof (cases ?v)
    case (Cons c r)
    then have u: "?u = c # (r @ rev (takeWhile is_ws (rev ?u)))" using uv by simp
    then have "?u \<noteq> []" by (metis list.distinct(1))
    then have "\<not> is_ws (hd ?u)" by (rule hd_dropWhile)
    then have "\<not> is_ws c" using u by (metis list.sel(1))
    with Cons show ?thesis by simp
  qed (simp only: dropWhile.simps)
  then show ?thesis by (simp add: js_trim_def trim_start_def trim_end_def)
qed

lemma js_trim_sub: "set (js_trim s) \<subseteq> set s"
  unfolding js_trim_def trim_start_def trim_end_def by (auto dest!: set_dropWhileD)

lemma heading_line_good:
  assumes "heading_line l = Some (n, h)" and "nl \<notin> set l"
  shows "good_heading \<lparr>rs_heading = h, rs_level = n, rs_blocks = bs\<rparr>"
proof -
  have n: "1 \<le> n" "n \<le> 6" and h: "h = js_trim (dropWhile (\<lambda>c. c = CHR ''#'') l)" "h \<noteq> []" "CR \<notin> set h"
    using assms(1) by (auto simp: heading_line_def Let_def split: if_splits)
  have "set h \<subseteq> set l" using js_trim_sub [of "dropWhile (\<lambda>c. c = CHR ''#'') l"] h(1) by (auto dest!: set_dropWhileD)
  with n h assms(2) show ?thesis by (auto simp: good_heading_def js_trim_idem)
qed

lemma blocksOf_good:
  "frag False None p \<Longrightarrow> clean p \<Longrightarrow> good_blocks (fence_end None p \<noteq> None) (blocksOf p)"
  "frag False None p \<Longrightarrow> clean p \<Longrightarrow> list_ex (\<lambda>l. \<not> blank l) p \<Longrightarrow> blocksOf p \<noteq> []"
  using blocks_from_good [of "[]" None p] by (simp_all add: blocksOf_def)

lemma split_from_some:
  assumes "frag False None p" and "fence_end None p = f" and "clean p" and "clean ls"
    and "good_heading \<lparr>rs_heading = h, rs_level = n, rs_blocks = []\<rparr>"
  shows "good_secs (split_from (Some (h, n)) p f ls) \<and> split_from (Some (h, n)) p f ls \<noteq> []"
  using assms
proof (induction ls arbitrary: p f h n)
  case Nil
  then show ?case using good_blocks_mono [of _ True] blocksOf_good(1) [of p]
    by (cases f) (auto simp: close_section_def good_heading_def)
next
  case (Cons l ls)
  show ?case
  proof (cases "fence_mark l")
    case (Some m)
    with Cons.prems Cons.IH [of "p @ [l]" "fenceStep f m"] show ?thesis by (simp add: fence_after_def)
  next
    case None
    show ?thesis
    proof (cases "if f = None then heading_line l else None")
      case hn: None
      then have "f \<noteq> None \<or> heading_line l = None" by (auto split: if_splits)
      with Cons.prems Cons.IH [of "p @ [l]" f] None hn show ?thesis by (simp add: fence_after_def)
    next
      case (Some x)
      obtain n' h' where x: "x = (n', h')" by (cases x)
      have f: "f = None" and hl: "heading_line l = Some (n', h')" using Some x by (auto split: if_splits)
      have "good_heading \<lparr>rs_heading = h', rs_level = n', rs_blocks = []\<rparr>"
        using heading_line_good [OF hl] Cons.prems by simp
      from Cons.IH [of "[]" None, OF _ _ _ _ this] Cons.prems
      have rec: "good_secs (split_from (Some (h', n')) [] None ls) \<and> split_from (Some (h', n')) [] None ls \<noteq> []" by simp
      have "good_blocks False (blocksOf p)" using blocksOf_good(1) [of p] Cons.prems f by simp
      with rec None hl f Cons.prems(5) show ?thesis by (simp add: close_section_def good_heading_def)
    qed
  qed
qed

lemma split_from_none:
  assumes "frag False None p" and "fence_end None p = f" and "clean p" and "clean ls"
  shows "good_doc (split_from None p f ls)"
  using assms
proof (induction ls arbitrary: p f)
  case Nil
  then show ?case using good_blocks_mono [of _ True] blocksOf_good [of p]
    by (cases f) (auto simp: close_section_def)
next
  case (Cons l ls)
  show ?case
  proof (cases "fence_mark l")
    case (Some m)
    with Cons.prems Cons.IH [of "p @ [l]" "fenceStep f m"] show ?thesis by (simp add: fence_after_def)
  next
    case None
    show ?thesis
    proof (cases "if f = None then heading_line l else None")
      case hn: None
      then have "f \<noteq> None \<or> heading_line l = None" by (auto split: if_splits)
      with Cons.prems Cons.IH [of "p @ [l]" f] None hn show ?thesis by (simp add: fence_after_def)
    next
      case (Some x)
      obtain n' h' where x: "x = (n', h')" by (cases x)
      have f: "f = None" and hl: "heading_line l = Some (n', h')" using Some x by (auto split: if_splits)
      have "good_heading \<lparr>rs_heading = h', rs_level = n', rs_blocks = []\<rparr>"
        using heading_line_good [OF hl] Cons.prems by simp
      from split_from_some [of "[]" None ls, OF _ _ _ _ this] Cons.prems
      have rec: "good_secs (split_from (Some (h', n')) [] None ls)" "split_from (Some (h', n')) [] None ls \<noteq> []" by simp_all
      then obtain s ss where s: "split_from (Some (h', n')) [] None ls = s # ss" "good_heading s"
        by (cases "split_from (Some (h', n')) [] None ls") auto
      then have gd: "good_doc (split_from (Some (h', n')) [] None ls)" using rec(1) by (simp add: good_heading_def)
      have gb: "good_blocks False (blocksOf p)" using blocksOf_good(1) [of p] Cons.prems f by simp
      show ?thesis
      proof (cases "list_ex (\<lambda>l. \<not> blank l) p")
        case True
        with blocksOf_good(2) Cons.prems have "blocksOf p \<noteq> []" by simp
        with True gb rec None hl f show ?thesis by (simp add: close_section_def)
      next
        case False
        with gd None hl f show ?thesis by (simp add: close_section_def)
      qed
    qed
  qed
qed

lemma splitRaw_good:
  assumes "CR \<notin> set (drop_crlf md)"
  shows "good_doc (splitRaw md)"
proof -
  have "clean (lines_of s)" if "CR \<notin> set s" for s
    using that lines_no_nl [of _ s] join_set [of CR _ "lines_of s" "[nl]"] by (auto simp: clean_def)
  then show ?thesis unfolding splitRaw_def using assms by (intro split_from_none) simp_all
qed

lemma renderDoc_raws: "renderDoc d = render_raws (map raw_of d)"
  by (simp add: render_raw render_raws_def)

lemma split_render_parse:
  "CR \<notin> set (drop_crlf md) \<Longrightarrow> splitRaw (renderDoc (parseDoc sha8 md prior)) = splitRaw md"
  by (simp add: renderDoc_raws parseDoc_raw split_render splitRaw_good)

section \<open>Taking in an unedited file\<close>

definition start_of :: "doc_section \<Rightarrow> psection" where
  "start_of s = start_section (raw_of s, Some s)"

definition done_of :: "doc_section \<Rightarrow> psection" where
  "done_of s = (start_of s)\<lparr>ps_blocks := map (\<lambda>b. \<lparr>pb_id = Some (bl_id b), pb_text = bl_text b\<rparr>) (ds_blocks s)\<rparr>"

lemma match_own_sections:
  "(\<And>k. (case jm_get m k of None \<Rightarrow> [] | Some q \<Rightarrow> q) = filter (\<lambda>s. norm_heading (ds_heading s) = k) d) \<Longrightarrow>
   match_sections m (map raw_of d) = map Some d"
proof (induction d arbitrary: m)
  case (Cons s d)
  let ?k = "norm_heading (ds_heading s)" and ?q = "filter (\<lambda>x. norm_heading (ds_heading x) = norm_heading (ds_heading s)) d"
  have g: "jm_get m ?k = Some (s # ?q)" using Cons.prems [of ?k] by (auto split: option.splits)
  have "(case jm_get (jm_set m ?k ?q) k of None \<Rightarrow> [] | Some q \<Rightarrow> q) = filter (\<lambda>s. norm_heading (ds_heading s) = k) d" for k
    using Cons.prems [of k] by (auto simp: jm_get_set)
  from Cons.IH [OF this] g show ?case by (simp add: raw_of_def Let_def)
qed simp

lemma matched_own:
  assumes "splitRaw m = map raw_of d"
  shows "matched_sections m d = map start_of d"
proof -
  have "match_sections (js_group_by (\<lambda>s. norm_heading (ds_heading s)) d) (map raw_of d) = map Some d"
    by (rule match_own_sections) (simp add: js_group_by_get Let_def)
  then show ?thesis
    by (simp add: matched_sections_def assms zip_map_map zip_same_conv_map start_of_def)
qed

lemma name_own: "name_sections (map start_of d) used = (map start_of d, used)"
  by (induction d) (simp_all add: start_of_def start_section_def)

lemma same_text_next:
  assumes "distinct (map bl_id (pre @ b # bs))" and "set (map bl_id pre) \<subseteq> set taken" and "bl_id b \<notin> set taken"
  shows "same_text (pre @ b # bs) (bl_text b) taken = Some b"
proof -
  have "\<forall>x \<in> set pre. \<not> P x \<Longrightarrow> List.find P (pre @ b # bs) = List.find P (b # bs)" for P by (induction pre) auto
  from this [of "\<lambda>p. bl_id p \<notin> set taken \<and> bl_text p = bl_text b"] assms show ?thesis by (auto simp: same_text_def)
qed

lemma pass_own_blocks:
  "distinct (map bl_id (pre @ bs)) \<Longrightarrow> set (map bl_id pre) \<subseteq> set taken \<Longrightarrow> set (map bl_id bs) \<inter> set taken = {} \<Longrightarrow>
   ds_blocks s = pre @ bs \<Longrightarrow>
   pass_blocks (pick_matched (start_of s)) j (map (\<lambda>b. \<lparr>pb_id = None, pb_text = bl_text b\<rparr>) bs) taken
     = (map (\<lambda>b. \<lparr>pb_id = Some (bl_id b), pb_text = bl_text b\<rparr>) bs, rev (map bl_id bs) @ taken)"
proof (induction bs arbitrary: pre j taken)
  case (Cons b bs)
  have "same_text (ds_blocks s) (bl_text b) taken = Some b"
    using same_text_next [of pre b bs taken] Cons.prems by simp
  then have "pick_matched (start_of s) j (bl_text b) taken = Some b"
    by (simp add: pick_matched_def start_of_def start_section_def)
  moreover have "pass_blocks (pick_matched (start_of s)) (Suc j) (map (\<lambda>b. \<lparr>pb_id = None, pb_text = bl_text b\<rparr>) bs) (bl_id b # taken)
     = (map (\<lambda>b. \<lparr>pb_id = Some (bl_id b), pb_text = bl_text b\<rparr>) bs, rev (map bl_id bs) @ bl_id b # taken)"
    using Cons.prems by (intro Cons.IH [of "pre @ [b]"]) auto
  ultimately show ?case by simp
qed simp

lemma pass_own:
  "distinct (block_ids d) \<Longrightarrow> set (block_ids d) \<inter> set taken = {} \<Longrightarrow>
   \<exists>t. pass_sections pick_matched (map start_of d) taken = (map done_of d, t)"
proof (induction d arbitrary: taken)
  case (Cons s d)
  have b: "pass_blocks (pick_matched (start_of s)) 0 (ps_blocks (start_of s)) taken
      = (ps_blocks (done_of s), rev (map bl_id (ds_blocks s)) @ taken)"
    using pass_own_blocks [of "[]" "ds_blocks s" taken s 0] Cons.prems
    by (auto simp: block_ids_def start_of_def done_of_def start_section_def raw_of_def comp_def)
  have "set (block_ids d) \<inter> set (rev (map bl_id (ds_blocks s)) @ taken) = {}" "distinct (block_ids d)"
    using Cons.prems by (auto simp: block_ids_def)
  from Cons.IH [OF this(2,1)] obtain t where
    "pass_sections pick_matched (map start_of d) (rev (map bl_id (ds_blocks s)) @ taken) = (map done_of d, t)" by blast
  with b show ?case by (simp add: done_of_def)
qed simp

lemma pass_done_blocks: "\<forall>b \<in> set bs. pb_id b \<noteq> None \<Longrightarrow> pass_blocks c j bs t = (bs, t)"
  by (induction c j bs t rule: pass_blocks.induct) auto

lemma pass_done: "pass_sections c (map done_of d) t = (map done_of d, t)"
  by (induction d) (simp_all add: pass_done_blocks done_of_def)

lemma finish_own_blocks:
  "\<forall>b \<in> set bs. bl_cites b = None \<Longrightarrow>
   fst (finish_blocks sha8 (map (\<lambda>b. \<lparr>pb_id = Some (bl_id b), pb_text = bl_text b\<rparr>) bs) used) = bs"
proof (induction bs arbitrary: used)
  case (Cons b bs)
  then show ?case using Cons.IH [of "bl_id b # used"] by (auto simp: Let_def split: prod.splits) (metis fst_conv)
qed simp

lemma finish_own:
  "\<forall>s \<in> set d. \<forall>b \<in> set (ds_blocks s). bl_cites b = None \<Longrightarrow> finish_sections sha8 (map done_of d) used = d"
proof (induction d arbitrary: used)
  case (Cons s d)
  then show ?case using finish_own_blocks [of "ds_blocks s" sha8 used]
    by (auto simp: Let_def done_of_def start_of_def start_section_def raw_of_def split: prod.splits)
qed simp

lemma parse_own:
  assumes "splitRaw m = map raw_of d" and "distinct (block_ids d)"
    and "\<forall>s \<in> set d. \<forall>b \<in> set (ds_blocks s). bl_cites b = None"
  shows "parseDoc sha8 m d = d"
proof -
  obtain t where t: "pass_sections pick_matched (map start_of d) [] = (map done_of d, t)"
    using pass_own [OF assms(2), of "[]"] by auto
  have "passes d (map start_of d) = (map done_of d, t)" by (simp add: passes_def Let_def t pass_done)
  then show ?thesis by (simp add: parseDoc_def matched_own [OF assms(1)] name_own finish_own [OF assms(3)])
qed

lemma finish_blocks_cites: "finish_blocks sha8 bs u = (r, u') \<Longrightarrow> \<forall>b \<in> set r. bl_cites b = None"
  by (induction bs arbitrary: u r u') (auto simp: Let_def split: prod.splits)

lemma finish_cites: "s \<in> set (finish_sections sha8 ss u) \<Longrightarrow> \<forall>b \<in> set (ds_blocks s). bl_cites b = None"
proof (induction ss arbitrary: u)
  case (Cons x ss)
  obtain bs u' where "finish_blocks sha8 (ps_blocks x) u = (bs, u')" by force
  with Cons finish_blocks_cites [OF this] show ?case by auto
qed simp

lemma parse_cites: "s \<in> set (parseDoc sha8 md prior) \<Longrightarrow> \<forall>b \<in> set (ds_blocks s). bl_cites b = None"
  by (auto simp: parseDoc_def Let_def split: prod.splits dest!: finish_cites)

text \<open>C5: An unedited file comes back as it was. Take any markdown (without stray carriage returns) in, write
  it out, and take that in again with the stored document as prior: the document is the same, with
  every section and block id. And the text is byte-stable, whatever the prior: rendering what the
  rendered text parses to gives the rendered text.\<close>

theorem unedited_file_round_trip:
  assumes "distinct (map ds_id prior)" and "CR \<notin> set (drop_crlf md)" and d: "d = parseDoc sha8 md prior"
  shows "parseDoc sha8 (renderDoc d) d = d \<and> renderDoc (parseDoc sha8 (renderDoc d) other) = renderDoc d"
proof
  have s: "splitRaw (renderDoc d) = map raw_of d"
    using split_render_parse [OF assms(2)] d by (simp add: parseDoc_raw)
  have "distinct (block_ids d)" using parse_ids_distinct [OF assms(1)] d by blast
  then show "parseDoc sha8 (renderDoc d) d = d" using s parse_cites d by (intro parse_own) blast+
  show "renderDoc (parseDoc sha8 (renderDoc d) other) = renderDoc d"
    using s by (simp add: renderDoc_raws parseDoc_raw)
qed

definition demo_md :: string where
  "demo_md = ''intro'' @ [nl] @ ''## Why '' @ [nl] @ ''one'' @ [nl, nl, nl] @ ''two'' @ [nl]"

theorem unedited_file_round_trip_witness:
  "parseDoc (\<lambda>_. ''0'') (renderDoc (parseDoc (\<lambda>_. ''0'') demo_md demo_doc)) (parseDoc (\<lambda>_. ''0'') demo_md demo_doc)
     = parseDoc (\<lambda>_. ''0'') demo_md demo_doc"
  by (rule unedited_file_round_trip [THEN conjunct1, OF _ _ refl, of demo_doc]) code_simp+

end
