(* ===== verification/Pipeline.thy ===== *)
theory Pipeline
  imports Engagement
begin

text \<open>
  The sales funnel: \<^verbatim>\<open>packages/core/src/pipeline.ts\<close> (stages, ranks, the account's stage and the
  plan that moves its people) and \<^verbatim>\<open>packages/core/src/db/pipelineStage.ts\<close> (which activity means
  which stage, and the rules by which one person moves). Stages are the strings the code compares;
  a lookup in a table is that of its own keys. The reads of a person's claims and of the company
  are arguments, the writes are values.
\<close>

section \<open>Stages (pipeline.ts)\<close>

definition PIPELINE_LADDER :: "string list" where
  "PIPELINE_LADDER = [''identified'', ''connected'', ''interested'', ''meeting_booked'', ''discovery'', ''demo'',
     ''negotiation'', ''closed_won'']"

definition TERMINAL_STAGES :: "string list" where
  "TERMINAL_STAGES = [''closed_lost'', ''disqualified'', ''churned'']"

definition ALL_PIPELINE_STAGES :: "string list" where
  "ALL_PIPELINE_STAGES = PIPELINE_LADDER @ TERMINAL_STAGES"

definition STAGE_RANK :: "(string \<times> nat) list" where
  "STAGE_RANK = [(''identified'', 0), (''connected'', 1), (''interested'', 2), (''meeting_booked'', 3),
     (''discovery'', 4), (''demo'', 5), (''negotiation'', 6), (''closed_won'', 7), (''closed_lost'', 8),
     (''disqualified'', 8), (''churned'', 9)]"

definition OPEN_STAGES :: "string list" where
  "OPEN_STAGES = filter (\<lambda>s. s \<noteq> ''closed_won'') PIPELINE_LADDER"

definition DONE_STAGES :: "string list" where
  "DONE_STAGES = ''closed_won'' # TERMINAL_STAGES"

definition LEGACY_STAGE_MAP :: "(string \<times> string) list" where
  "LEGACY_STAGE_MAP = [(''aware'', ''identified''), (''evaluating'', ''interested''), (''proposal'', ''negotiation''),
     (''client'', ''closed_won''), (''lost'', ''closed_lost''), (''onboarding'', ''closed_won'')]"


text \<open>A run of white space and dashes becomes one underscore.\<close>

fun dash_runs :: "bool \<Rightarrow> string \<Rightarrow> string" where
  "dash_runs gap [] = []"
| "dash_runs gap (c # s) =
     (if is_ws c \<or> c = CHR ''-'' then (if gap then dash_runs True s else CHR ''_'' # dash_runs True s)
      else c # dash_runs False s)"

fun normalizeStage :: "jsval \<Rightarrow> string option" where
  "normalizeStage (JStr v) =
     (let s = dash_runs False (to_lower (js_trim v))
      in if s \<in> set ALL_PIPELINE_STAGES then Some s else map_of LEGACY_STAGE_MAP s)"
| "normalizeStage _ = None"

definition rank_of :: "string \<Rightarrow> nat" where
  "rank_of s = (case map_of STAGE_RANK s of None \<Rightarrow> 0 | Some n \<Rightarrow> n)"

definition stageRank :: "jsval \<Rightarrow> nat" where
  "stageRank v = (case normalizeStage v of None \<Rightarrow> 0 | Some s \<Rightarrow> rank_of s)"

definition isPipelineStage :: "jsval \<Rightarrow> bool" where
  "isPipelineStage v = (case js_str v of None \<Rightarrow> False | Some s \<Rightarrow> s \<in> set ALL_PIPELINE_STAGES)"

definition isTerminalStage :: "jsval \<Rightarrow> bool" where
  "isTerminalStage v = (case js_str v of None \<Rightarrow> False | Some s \<Rightarrow> s \<in> set TERMINAL_STAGES)"

definition resolveLegacyEvaluating :: "bool \<Rightarrow> bool \<Rightarrow> string" where
  "resolveLegacyEvaluating hasMeetingHeld hasMeetingBooked =
     (if hasMeetingHeld then ''discovery'' else if hasMeetingBooked then ''meeting_booked'' else ''interested'')"

section \<open>The account's stage and the plan that moves it\<close>

definition further :: "string option \<Rightarrow> string option \<Rightarrow> string option" where
  "further best s = (case s of None \<Rightarrow> best
     | Some x \<Rightarrow> (case best of None \<Rightarrow> Some x | Some b \<Rightarrow> if rank_of x > rank_of b then Some x else best))"

definition has_exited :: "string option \<Rightarrow> bool" where
  "has_exited s = (case s of None \<Rightarrow> False | Some x \<Rightarrow> x \<in> set TERMINAL_STAGES)"

definition accountStage :: "jsval list \<Rightarrow> string option" where
  "accountStage personStages =
     (let all = map normalizeStage personStages;
          live = filter (\<lambda>s. \<not> has_exited s) all
      in foldl further None (if live \<noteq> [] then live else all))"

record stage_move =
  mv_id :: string
  mv_from :: "string option"
  mv_to :: string

definition move_of :: "string \<Rightarrow> string \<times> string option \<Rightarrow> stage_move" where
  "move_of target p = \<lparr>mv_id = fst p, mv_from = snd p, mv_to = target\<rparr>"

definition set_moves :: "string \<Rightarrow> (string \<times> stage_move) list \<Rightarrow> (string \<times> string option) list \<Rightarrow> (string \<times> stage_move) list" where
  "set_moves target m ps = foldl (\<lambda>m p. jm_set m (fst p) (move_of target p)) m ps"

definition staged :: "(string \<times> jsval) list \<Rightarrow> (string \<times> string option) list" where
  "staged people = map (\<lambda>p. (fst p, normalizeStage (snd p))) people"

definition past :: "string \<Rightarrow> string option \<Rightarrow> bool" where
  "past target s = (case s of None \<Rightarrow> False | Some x \<Rightarrow> rank_of x > rank_of target)"

definition planAccountStage :: "(string \<times> jsval) list \<Rightarrow> string \<Rightarrow> stage_move list" where
  "planAccountStage people target =
     (let withStage = staged people;
          live = filter (\<lambda>p. \<not> has_exited (snd p)) withStage
      in if target \<in> set TERMINAL_STAGES then jm_values (set_moves target [] live)
         else
           (let moves = set_moves target [] (filter (\<lambda>p. past target (snd p)) live);
                someoneAt = list_ex (\<lambda>p. jm_get moves (fst p) \<noteq> None \<or> snd p = Some target) live
            in jm_values (if someoneAt then moves
                 else (case (live @ withStage) of [] \<Rightarrow> moves | primary # _ \<Rightarrow> jm_set moves (fst primary) (move_of target primary)))))"

section \<open>Activities and stages (pipelineStage.ts)\<close>

definition WON_TYPES :: "string list" where
  "WON_TYPES = [''proposal_signed'', ''deal_won'', ''payment_received'']"
definition CHURN_TYPES :: "string list" where
  "CHURN_TYPES = [''deal_churned'', ''subscription_canceled'', ''subscription_cancelled'']"
definition DISCOVERY_TYPES :: "string list" where "DISCOVERY_TYPES = [''meeting_held'']"
definition MEETING_BOOKED_TYPES :: "string list" where "MEETING_BOOKED_TYPES = [''meeting_scheduled'']"
definition NEGOTIATION_TYPES :: "string list" where "NEGOTIATION_TYPES = [''proposal_sent'', ''proposal_viewed'']"
definition CONNECTED_TYPES :: "string list" where
  "CONNECTED_TYPES = [''linkedin_connected'', ''email_reply'', ''email_received'', ''slack_message'', ''slack_dm'',
     ''content_download'', ''website_revisit'', ''website_visit'', ''email_opened'',
     ''linkedin_view'', ''social_engagement'', ''pricing_page_visit'', ''trial_started'']"
definition REPLY_TYPES :: "string list" where
  "REPLY_TYPES = [''email_reply'', ''email_received'', ''slack_message'', ''slack_dm'', ''linkedin_message'']"
definition PRODUCT_USER_TYPES :: "string list" where "PRODUCT_USER_TYPES = [''signed_up'', ''product_used'']"
definition LOST_TYPES :: "string list" where "LOST_TYPES = [''deal_lost'']"
definition DISQUALIFIED_TYPES :: "string list" where "DISQUALIFIED_TYPES = [''deal_disqualified'']"

definition REACTIVATING_MIN_RANK :: nat where "REACTIVATING_MIN_RANK = rank_of ''interested''"

text \<open>The time of a transition in milliseconds, never later than now, and as it is written.\<close>

definition transition_ms :: "jsval \<Rightarrow> int \<Rightarrow> int" where
  "transition_ms occurredAt now =
     (if \<not> js_truthy occurredAt then now
      else (case new_date occurredAt of None \<Rightarrow> now | Some t \<Rightarrow> min t now))"

definition transitionAt :: "jsval \<Rightarrow> int \<Rightarrow> string" where
  "transitionAt occurredAt now = iso_of (transition_ms occurredAt now)"

definition terminalStageForType :: "string \<Rightarrow> string option" where
  "terminalStageForType ty =
     (if ty \<in> set WON_TYPES then Some ''closed_won''
      else if ty \<in> set CHURN_TYPES then Some ''churned''
      else if ty \<in> set LOST_TYPES then Some ''closed_lost''
      else if ty \<in> set DISQUALIFIED_TYPES then Some ''disqualified''
      else None)"

definition TERMINAL_DRIVING_PROPERTIES :: "string list" where
  "TERMINAL_DRIVING_PROPERTIES =
     map (\<lambda>t. ''interaction.'' @ t) (WON_TYPES @ CHURN_TYPES @ LOST_TYPES @ DISQUALIFIED_TYPES)"

definition stageForType :: "string \<Rightarrow> string option" where
  "stageForType ty =
     (case terminalStageForType ty of Some t \<Rightarrow> Some t
      | None \<Rightarrow>
          if ty \<in> set DISCOVERY_TYPES then Some ''discovery''
          else if ty \<in> set MEETING_BOOKED_TYPES then Some ''meeting_booked''
          else if ty \<in> set NEGOTIATION_TYPES then Some ''negotiation''
          else if ty \<in> set PRODUCT_USER_TYPES then Some ''interested''
          else if ty \<in> set CONNECTED_TYPES then Some ''connected''
          else None)"

definition STAGE_DRIVING_TYPES :: "string list" where
  "STAGE_DRIVING_TYPES = js_uniq (WON_TYPES @ CHURN_TYPES @ LOST_TYPES @ DISQUALIFIED_TYPES @ DISCOVERY_TYPES
     @ MEETING_BOOKED_TYPES @ NEGOTIATION_TYPES @ CONNECTED_TYPES @ REPLY_TYPES @ PRODUCT_USER_TYPES)"

text \<open>\<open>isOutbound\<close> is absent, true or false; so is the reply signal.\<close>

definition targetStageFor :: "string \<Rightarrow> bool option \<Rightarrow> string option \<Rightarrow> string option" where
  "targetStageFor ty isOutbound replySignal =
     (if nonempty replySignal \<and> str_of replySignal \<in> {''auto_reply'', ''bounce''} then None
      else
        (let t1 = (if nonempty replySignal \<and> str_of replySignal \<in> {''unsubscribe'', ''do_not_contact''} then Some ''disqualified''
                   else if replySignal = Some ''positive'' \<and> ty \<in> set REPLY_TYPES then Some ''interested''
                   else stageForType ty)
         in if ty = ''linkedin_message'' \<and> t1 \<noteq> Some ''disqualified'' then
              (if isOutbound = Some False then Some (if replySignal = Some ''positive'' then ''interested'' else ''connected'')
               else None)
            else t1))"

definition CALL_TYPE_STAGE :: "(string \<times> string) list" where
  "CALL_TYPE_STAGE = [(''demo'', ''demo''), (''proposal'', ''negotiation''), (''onboarding'', ''closed_won''),
     (''training'', ''closed_won''), (''business_review'', ''closed_won'')]"

definition stageForCallType :: "string option \<Rightarrow> string option" where
  "stageForCallType callType = (if nonempty callType then map_of CALL_TYPE_STAGE (str_of callType) else None)"

section \<open>Moving one person\<close>

text \<open>What a move writes: the stage on the contact and its observation, whether a parked entity is
  woken, when the move happened and how it was decided.\<close>

record stage_write =
  sw_next :: string
  sw_unpark :: bool
  sw_at :: string
  sw_method :: string

definition writeStage :: "string option \<Rightarrow> string \<Rightarrow> string \<Rightarrow> stage_write" where
  "writeStage how at_iso next_stage =
     \<lparr>sw_next = next_stage,
      sw_unpark = (rank_of ''connected'' \<le> stageRank (JStr next_stage) \<and> \<not> isTerminalStage (JStr next_stage)),
      sw_at = at_iso, sw_method = (case how of None \<Rightarrow> ''inference'' | Some m \<Rightarrow> m)\<rparr>"

text \<open>The claims: the lock and the current stage, as they are stored.\<close>

definition moveToStage ::
  "jsval \<Rightarrow> jsval \<Rightarrow> string \<Rightarrow> jsval \<Rightarrow> int \<Rightarrow> string option \<Rightarrow> stage_write option" where
  "moveToStage locked rawCurrent target occurredAt now how =
     (let at_iso = transitionAt occurredAt now;
          current = (case js_str rawCurrent of None \<Rightarrow> ''identified'' | Some s \<Rightarrow> s)
      in if locked = JBool True then None
         else if target = ''disqualified'' \<and> rank_of ''meeting_booked'' \<le> stageRank (JStr current) then None
         else if isTerminalStage (JStr target) then
           (if current = target \<or> isTerminalStage (JStr current) then None
            else if target = ''churned'' \<and> current \<noteq> ''closed_won'' then None
            else Some (writeStage how at_iso target))
         else if isTerminalStage (JStr current) then
           (if stageRank (JStr target) < REACTIVATING_MIN_RANK then None else Some (writeStage how at_iso target))
         else if rank_of target \<le> rank_of current then None
         else Some (writeStage how at_iso target))"

definition advancePipelineStage ::
  "jsval \<Rightarrow> jsval \<Rightarrow> string \<Rightarrow> bool option \<Rightarrow> string option \<Rightarrow> jsval \<Rightarrow> int \<Rightarrow> stage_write option" where
  "advancePipelineStage locked rawCurrent ty isOutbound replySignal occurredAt now =
     (case targetStageFor ty isOutbound replySignal of None \<Rightarrow> None
      | Some t \<Rightarrow> if t = [] then None else moveToStage locked rawCurrent t occurredAt now None)"

text \<open>A service business: a win carries everyone else at the company who is not done.\<close>

definition propagateCompanyClient ::
  "jsval \<Rightarrow> string option \<Rightarrow> string \<Rightarrow> (string \<times> jsval) list \<Rightarrow> string \<Rightarrow> (string \<times> stage_write) list" where
  "propagateCompanyClient businessType companyId contactId people at_iso =
     (if businessType \<noteq> JStr ''service'' \<or> \<not> nonempty companyId then []
      else map (\<lambda>p. (fst p, \<lparr>sw_next = ''closed_won'', sw_unpark = False, sw_at = at_iso, sw_method = ''client_propagation''\<rparr>))
             (filter (\<lambda>p. fst p \<noteq> contactId \<and> \<not> (\<exists>d \<in> set DONE_STAGES. snd p = JStr d)) people))"

definition advanceStageForCall ::
  "(string \<Rightarrow> jsval \<times> jsval) \<Rightarrow> string list \<Rightarrow> string option \<Rightarrow> jsval \<Rightarrow> int \<Rightarrow> (string \<times> stage_write) list" where
  "advanceStageForCall claims_of contactIds callType occurredAt now =
     (case stageForCallType callType of None \<Rightarrow> []
      | Some st \<Rightarrow> List.map_filter (\<lambda>i. map_option (Pair i)
            (moveToStage (fst (claims_of i)) (snd (claims_of i)) st occurredAt now None))
          (js_uniq (filter (\<lambda>i. i \<noteq> []) contactIds)))"

section \<open>Facts about stages\<close>

lemma normalize_canonical: "s \<in> set ALL_PIPELINE_STAGES \<Longrightarrow> normalizeStage (JStr s) = Some s"
proof -
  have "list_all (\<lambda>s. normalizeStage (JStr s) = Some s) ALL_PIPELINE_STAGES" by code_simp
  then show "s \<in> set ALL_PIPELINE_STAGES \<Longrightarrow> normalizeStage (JStr s) = Some s" by (simp add: list_all_iff)
qed

lemma normalize_range: "normalizeStage v = Some s \<Longrightarrow> s \<in> set ALL_PIPELINE_STAGES"
proof -
  have l: "list_all (\<lambda>(k, s). s \<in> set ALL_PIPELINE_STAGES) LEGACY_STAGE_MAP" by code_simp
  show "normalizeStage v = Some s \<Longrightarrow> s \<in> set ALL_PIPELINE_STAGES"
    using l by (cases v) (auto simp: Let_def list_all_iff split: if_splits dest: map_of_SomeD)
qed

declare normalizeStage.simps(1) [simp del]

lemma stages_split: "set ALL_PIPELINE_STAGES = set PIPELINE_LADDER \<union> set TERMINAL_STAGES"
  by (simp add: ALL_PIPELINE_STAGES_def)

lemma ladder_not_terminal: "s \<in> set PIPELINE_LADDER \<Longrightarrow> s \<notin> set TERMINAL_STAGES"
  by (auto simp: PIPELINE_LADDER_def TERMINAL_STAGES_def)

lemma ladder_rank_inj: "s \<in> set PIPELINE_LADDER \<Longrightarrow> t \<in> set PIPELINE_LADDER \<Longrightarrow> rank_of s = rank_of t \<Longrightarrow> s = t"
proof -
  have "distinct (map rank_of PIPELINE_LADDER)" by code_simp
  then show "s \<in> set PIPELINE_LADDER \<Longrightarrow> t \<in> set PIPELINE_LADDER \<Longrightarrow> rank_of s = rank_of t \<Longrightarrow> s = t"
    by (auto simp: distinct_map dest: inj_onD)
qed


lemma isTerminal_str [simp]: "isTerminalStage (JStr s) = (s \<in> set TERMINAL_STAGES)"
  by (simp add: isTerminalStage_def)

text \<open>The stage that is furthest along, the first of equals.\<close>

lemma foldl_further:
  "foldl further b ss = Some x \<Longrightarrow> (b = Some x \<or> Some x \<in> set ss) \<and> (\<forall>y. b = Some y \<or> Some y \<in> set ss \<longrightarrow> rank_of y \<le> rank_of x)"
proof (induction ss arbitrary: b)
  case (Cons s ss)
  show ?case
  proof (cases s)
    case None
    with Cons show ?thesis by (auto simp: further_def)
  next
    case (Some z)
    have st: "foldl further (further b s) ss = Some x" using Cons.prems by simp
    note IH = Cons.IH [OF st]
    show ?thesis
    proof (cases b)
      case None
      then show ?thesis using IH \<open>s = Some z\<close> by (auto simp: further_def)
    next
      case bs: (Some w)
      show ?thesis
      proof (cases "rank_of z > rank_of w")
        case True
        then have f: "further b s = Some z" using bs Some by (simp add: further_def)
        have z: "rank_of z \<le> rank_of x" using IH f by blast
        show ?thesis using IH f z True bs Some by auto
      next
        case False
        then have f: "further b s = Some w" using bs Some by (simp add: further_def)
        have w: "rank_of w \<le> rank_of x" using IH f by blast
        show ?thesis using IH f w False bs Some by auto
      qed
    qed
  qed
qed simp

lemma foldl_further_None: "foldl further b ss = None \<longleftrightarrow> b = None \<and> (\<forall>s \<in> set ss. s = None)"
  by (induction ss arbitrary: b) (auto simp: further_def split: option.splits)

text \<open>The account reads an open stage that someone live is at and nobody live is past.\<close>

lemma accountStage_at:
  assumes t: "t \<in> set PIPELINE_LADDER" and at: "Some t \<in> set (map normalizeStage vs)"
    and le: "\<And>s. Some s \<in> set (map normalizeStage vs) \<Longrightarrow> s \<notin> set TERMINAL_STAGES \<Longrightarrow> rank_of s \<le> rank_of t"
  shows "accountStage vs = Some t"
proof -
  let ?live = "filter (\<lambda>s. \<not> has_exited s) (map normalizeStage vs)"
  have tl: "Some t \<in> set ?live" using at ladder_not_terminal [OF t] by (simp add: has_exited_def)
  then have ne: "?live \<noteq> []" by (metis empty_iff empty_set)
  obtain x where x: "foldl further None ?live = Some x" using foldl_further_None [of None ?live] tl by fastforce
  from foldl_further [OF x] have xin: "Some x \<in> set ?live" and mx: "\<And>y. Some y \<in> set ?live \<Longrightarrow> rank_of y \<le> rank_of x" by auto
  have xt: "x \<notin> set TERMINAL_STAGES" "x \<in> set ALL_PIPELINE_STAGES"
    using xin normalize_range by (auto simp: has_exited_def)
  then have "x \<in> set PIPELINE_LADDER" by (simp add: stages_split)
  moreover have "rank_of x = rank_of t" using mx [OF tl] le [of x] xin xt(1) by force
  ultimately have "x = t" using ladder_rank_inj t by blast
  with x ne show ?thesis by (simp add: accountStage_def Let_def)
qed

section \<open>The plan reaches its target\<close>

text \<open>The people after the caller has applied the moves.\<close>

definition apply_plan :: "stage_move list \<Rightarrow> (string \<times> jsval) list \<Rightarrow> (string \<times> jsval) list" where
  "apply_plan ms people = map (\<lambda>p. case map_of (map (\<lambda>m. (mv_id m, mv_to m)) ms) (fst p) of
     None \<Rightarrow> p | Some st \<Rightarrow> (fst p, JStr st)) people"

lemma set_moves_get:
  "jm_get (set_moves target m ps) i = (if i \<in> fst ` set ps then map_option (move_of target) (List.find (\<lambda>p. fst p = i) (rev ps))
     else jm_get m i)"
proof (induction ps rule: rev_induct)
  case (snoc p ps)
  then show ?case by (auto simp: set_moves_def jm_get_set)
qed (simp add: set_moves_def)

definition moves_ok :: "string \<Rightarrow> (string \<times> stage_move) list \<Rightarrow> bool" where
  "moves_ok target m = (distinct (jm_keys m) \<and> (\<forall>(k, v) \<in> set m. mv_id v = k \<and> mv_to v = target))"

lemma moves_ok_set: "moves_ok target m \<Longrightarrow> moves_ok target (jm_set m (fst p) (move_of target p))"
proof -
  assume m: "moves_ok target m"
  have "(k, v) \<in> set (jm_set m i w) \<Longrightarrow> (k, v) \<in> set m \<or> (k = i \<and> v = w)" for k v i w
    by (induction m i w rule: jm_set.induct) (auto split: if_splits)
  with m show ?thesis by (fastforce simp: moves_ok_def jm_distinct_set move_of_def)
qed

lemma moves_ok_moves: "moves_ok target m \<Longrightarrow> moves_ok target (set_moves target m ps)"
  by (induction ps rule: rev_induct) (simp_all add: set_moves_def moves_ok_set)

lemma moves_ok_Nil [simp]: "moves_ok target []" by (simp add: moves_ok_def jm_keys_def)

lemma apply_moves:
  assumes "moves_ok target m"
  shows "map_of (map (\<lambda>m. (mv_id m, mv_to m)) (jm_values m)) i = (if i \<in> set (jm_keys m) then Some target else None)"
proof -
  have "map (\<lambda>m. (mv_id m, mv_to m)) (jm_values m) = map (\<lambda>k. (k, target)) (jm_keys m)"
    using assms by (induction m) (auto simp: moves_ok_def jm_values_def jm_keys_def)
  moreover have "map_of (map (\<lambda>k. (k, target)) ks) i = (if i \<in> set ks then Some target else None)" for ks
    by (induction ks) auto
  ultimately show ?thesis by simp
qed

lemma set_moves_keys: "set (jm_keys (set_moves target m ps)) = set (jm_keys m) \<union> fst ` set ps"
  by (induction ps rule: rev_induct) (auto simp: set_moves_def jm_keys_set)

text \<open>After a plan given by the keys that move.\<close>

lemma apply_plan_keys:
  assumes "moves_ok target m"
  shows "map snd (apply_plan (jm_values m) people) = map (\<lambda>p. if fst p \<in> set (jm_keys m) then JStr target else snd p) people"
  by (simp add: apply_plan_def apply_moves [OF assms])

lemma live_ids: "i \<in> fst ` set (filter Q (staged people)) \<longleftrightarrow> (\<exists>v. (i, v) \<in> set people \<and> Q (i, normalizeStage v))"
  by (force simp: staged_def image_iff)

lemma plan_open:
  assumes d: "distinct (map fst people)" and ne: "people \<noteq> []" and t: "target \<in> set PIPELINE_LADDER"
  shows "accountStage (map snd (apply_plan (planAccountStage people target) people)) = Some target"
proof -
  let ?W = "staged people"
  let ?live = "filter (\<lambda>p. \<not> has_exited (snd p)) ?W"
  let ?mv = "set_moves target [] (filter (\<lambda>p. past target (snd p)) ?live)"
  let ?at = "list_ex (\<lambda>p. jm_get ?mv (fst p) \<noteq> None \<or> snd p = Some target) ?live"
  define m where "m = (if ?at then ?mv else (case ?live @ ?W of [] \<Rightarrow> ?mv | q # _ \<Rightarrow> jm_set ?mv (fst q) (move_of target q)))"
  have tt: "target \<notin> set TERMINAL_STAGES" "target \<in> set ALL_PIPELINE_STAGES"
    using t ladder_not_terminal by (auto simp: stages_split)
  have plan: "planAccountStage people target = jm_values m"
    using tt by (simp add: planAccountStage_def m_def Let_def)
  have uniq: "v = w" if "(i, v) \<in> set people" "(i, w) \<in> set people" for i v w
    using d that by (metis eq_key_imp_eq_value)
  obtain q qs where q: "?live @ ?W = q # qs" using ne by (cases "?live @ ?W") (auto simp: staged_def)
  have ok: "moves_ok target m" using q moves_ok_moves [OF moves_ok_Nil] by (simp add: m_def moves_ok_set)
  have keys: "i \<in> set (jm_keys m) \<longleftrightarrow> (\<exists>v. (i, v) \<in> set people \<and> \<not> has_exited (normalizeStage v) \<and> past target (normalizeStage v))
      \<or> (\<not> ?at \<and> i = fst q)" for i
  proof -
    have k: "i \<in> set (jm_keys ?mv) \<longleftrightarrow> (\<exists>v. (i, v) \<in> set people \<and> \<not> has_exited (normalizeStage v) \<and> past target (normalizeStage v))"
      unfolding set_moves_keys filter_filter using live_ids [of i "\<lambda>p. \<not> has_exited (snd p) \<and> past target (snd p)" people]
      by (simp add: jm_keys_def)
    show ?thesis
    proof (cases ?at)
      case True
      with k show ?thesis by (simp only: m_def if_True simp_thms)
    next
      case False
      then have "m = jm_set ?mv (fst q) (move_of target q)" using q by (simp only: m_def if_False list.case)
      with k False show ?thesis by (auto simp only: jm_keys_set)
    qed
  qed
  have after: "map snd (apply_plan (planAccountStage people target) people)
      = map (\<lambda>p. if fst p \<in> set (jm_keys m) then JStr target else snd p) people"
    unfolding plan by (rule apply_plan_keys [OF ok])
  show ?thesis
  proof (rule accountStage_at [OF t])
    show "Some target \<in> set (map normalizeStage (map snd (apply_plan (planAccountStage people target) people)))"
    proof (cases ?at)
      case True
      then obtain i v where iv: "(i, v) \<in> set people" "\<not> has_exited (normalizeStage v)"
        and c: "jm_get ?mv i \<noteq> None \<or> normalizeStage v = Some target" by (auto simp: list_ex_iff staged_def)
      show ?thesis unfolding after
        using iv c keys [of i] True normalize_canonical [OF tt(2)]
        by (auto simp: m_def jm_get_None_iff intro!: image_eqI [of _ _ "(i, v)"])
    next
      case False
      have "q \<in> set ?W" using q by (metis Un_iff filter_is_subset list.set_intros(1) set_append subset_iff)
      then obtain v where "(fst q, v) \<in> set people" by (auto simp: staged_def)
      then show ?thesis unfolding after using keys [of "fst q"] False normalize_canonical [OF tt(2)]
        by (auto intro!: image_eqI [of _ _ "(fst q, v)"])
    qed
  next
    fix s assume "Some s \<in> set (map normalizeStage (map snd (apply_plan (planAccountStage people target) people)))"
      and nt: "s \<notin> set TERMINAL_STAGES"
    then obtain i v where iv: "(i, v) \<in> set people"
      and s: "Some s = normalizeStage (if i \<in> set (jm_keys m) then JStr target else v)"
      unfolding after by auto
    show "rank_of s \<le> rank_of target"
    proof (cases "i \<in> set (jm_keys m)")
      case True
      with s normalize_canonical [OF tt(2)] show ?thesis by simp
    next
      case False
      with s have "normalizeStage v = Some s" by simp
      with False keys [of i] iv nt show ?thesis by (auto simp: has_exited_def past_def not_less)
    qed
  qed
qed

lemma plan_exit:
  assumes t: "target \<in> set TERMINAL_STAGES" and p: "p \<in> set people" and d: "distinct (map fst people)"
  shows "(fst p, if has_exited (normalizeStage (snd p)) then snd p else JStr target)
    \<in> set (apply_plan (planAccountStage people target) people)"
proof -
  let ?m = "set_moves target [] (filter (\<lambda>p. \<not> has_exited (snd p)) (staged people))"
  have plan: "planAccountStage people target = jm_values ?m" using t by (simp add: planAccountStage_def Let_def)
  have k: "fst p \<in> set (jm_keys ?m) \<longleftrightarrow> \<not> has_exited (normalizeStage (snd p))"
  proof -
    have "fst p \<in> set (jm_keys ?m) \<longleftrightarrow> (\<exists>v. (fst p, v) \<in> set people \<and> \<not> has_exited (normalizeStage v))"
      unfolding set_moves_keys using live_ids [of "fst p" "\<lambda>p. \<not> has_exited (snd p)" people] by (simp add: jm_keys_def)
    also have "\<dots> \<longleftrightarrow> \<not> has_exited (normalizeStage (snd p))"
      using p d by (metis eq_key_imp_eq_value prod.collapse)
    finally show ?thesis .
  qed
  have "(case map_of (map (\<lambda>m. (mv_id m, mv_to m)) (jm_values ?m)) (fst p) of None \<Rightarrow> p | Some st \<Rightarrow> (fst p, JStr st))
      = (fst p, if has_exited (normalizeStage (snd p)) then snd p else JStr target)"
    unfolding apply_moves [OF moves_ok_moves [OF moves_ok_Nil]] using k by simp
  then show ?thesis unfolding plan apply_plan_def using p by (metis (no_types, lifting) image_eqI list.set_map)
qed

text \<open>Moving an account does what was asked. After the planned moves are applied, an account sent to an
  open stage (or to won) reads that stage, whatever stages its people were at, exits included; an
  account that exits has every live person at the exit, and people who had already exited stay
  where they were.\<close>

theorem plan_moves_account:
  assumes d: "distinct (map fst people)" and ne: "people \<noteq> []"
  shows "(target \<in> set PIPELINE_LADDER \<longrightarrow>
      accountStage (map snd (apply_plan (planAccountStage people target) people)) = Some target)
    \<and> (target \<in> set TERMINAL_STAGES \<longrightarrow>
      (\<forall>p \<in> set people. (fst p, if has_exited (normalizeStage (snd p)) then snd p else JStr target)
        \<in> set (apply_plan (planAccountStage people target) people)))"
  using plan_open [OF d ne] plan_exit [OF _ _ d] by blast

definition demo_people :: "(string \<times> jsval) list" where
  "demo_people = [(''p1'', JStr ''negotiation''), (''p2'', JNull), (''p3'', JStr ''churned'')]"

theorem plan_moves_account_witness:
  "accountStage (map snd (apply_plan (planAccountStage demo_people ''interested'') demo_people)) = Some ''interested''"
  using plan_moves_account [of demo_people "''interested''"] by (simp add: demo_people_def PIPELINE_LADDER_def)

text \<open>An exit does not make the account read that exit when someone had already exited further.\<close>

lemma exit_reads_other_exit:
  "accountStage (map snd (apply_plan (planAccountStage demo_people ''closed_lost'') demo_people)) = Some ''churned''"
  by code_simp

section \<open>One person's path through the funnel\<close>









text \<open>A stage stored under its old name has rank 0 here, so an account that was a client under that name is
  moved back to connected by any reply.\<close>

lemma legacy_client_downgraded:
  "moveToStage JNull (JStr ''client'') ''connected'' JNull 0 None \<noteq> None
   \<and> rank_of ''connected'' < stageRank (JStr ''client'')"
  by code_simp

end
