(* ===== verification/StageDerivation.thy ===== *)
theory StageDerivation
  imports Pipeline
begin

text \<open>
  The batch side of the funnel, \<^verbatim>\<open>apps/worker/src/workers/stageDerivation.mjs\<close>: the stage an
  entity's observations imply (\<open>deriveStage\<close>), its real-time recompute and the cron pass with its
  tallies. Observations and claims are payload rows; the four reads of an entity are arguments, an
  error of a read is \<open>None\<close>, and whether an insert succeeds is an argument.
\<close>

section \<open>deriveStage\<close>

definition obs_time :: "jsval \<Rightarrow> int option" where
  "obs_time ob = new_date (js_prop ob ''observed_at'')"

definition within_days :: "int \<Rightarrow> int \<Rightarrow> int option \<Rightarrow> bool" where
  "within_days now d t = (case t of None \<Rightarrow> False | Some x \<Rightarrow> now - x \<le> d * day_ms)"

definition claim_at :: "jsval \<Rightarrow> jsval" where
  "claim_at c = js_or (js_prop c ''last_observed_at'') (js_prop c ''computed_at'')"

definition claim_time :: "jsval \<Rightarrow> int option" where
  "claim_time c = new_date (js_or (claim_at c) (JNum 0))"

definition obs_type :: "jsval \<Rightarrow> string" where
  "obs_type ob = (let p = (if js_truthy (js_prop ob ''property'') then js_tostring (js_prop ob ''property'') else '''')
     in if starts_with ''interaction.'' p then drop 12 p else p)"

definition terminal_hits :: "jsval list \<Rightarrow> (jsval \<times> string) list" where
  "terminal_hits observations =
     List.map_filter (\<lambda>ob. map_option (Pair ob) (terminalStageForType (obs_type ob))) observations"

text \<open>\<^verbatim>\<open>new Date(a) - new Date(b)\<close> as a comparator: a date that does not parse compares as equal.\<close>

definition by_observed :: "jsval \<times> string \<Rightarrow> jsval \<times> string \<Rightarrow> bool" where
  "by_observed a b = (case (obs_time (fst a), obs_time (fst b)) of (Some x, Some y) \<Rightarrow> x \<le> y | _ \<Rightarrow> True)"

definition earliest_hit :: "jsval list \<Rightarrow> (jsval \<times> string) option" where
  "earliest_hit observations = (case js_sort by_observed (terminal_hits observations) of [] \<Rightarrow> None | x # _ \<Rightarrow> Some x)"

definition outcome_blocked :: "string \<Rightarrow> string \<Rightarrow> bool" where
  "outcome_blocked current t = ((t = ''churned'' \<and> current \<noteq> ''closed_won'')
     \<or> (t = ''disqualified'' \<and> rank_of ''meeting_booked'' \<le> stageRank (JStr current)))"

definition least_time :: "int option list \<Rightarrow> int option" where
  "least_time ts = foldl (\<lambda>best t. case t of None \<Rightarrow> best
     | Some x \<Rightarrow> (case best of None \<Rightarrow> Some x | Some b \<Rightarrow> if x < b then Some x else best)) None ts"

definition iso_val :: "int option \<Rightarrow> jsval" where
  "iso_val t = (case t of None \<Rightarrow> JNull | Some x \<Rightarrow> JStr (iso_of x))"

definition earliest :: "jsval list \<Rightarrow> jsval" where
  "earliest rows = iso_val (least_time (map obs_time rows))"

definition has_property :: "string \<Rightarrow> jsval \<Rightarrow> bool" where
  "has_property p ob = (js_prop ob ''property'' = JStr p)"

text \<open>A NaN slot is equal to itself in a \<^verbatim>\<open>Set\<close>, as \<open>None\<close> is here.\<close>

definition slotKey :: "jsval \<Rightarrow> int option" where
  "slotKey ob = map_option (\<lambda>t. t div 60000) (obs_time ob)"

definition meetingLabel :: "jsval \<Rightarrow> string" where
  "meetingLabel ob = (let v = js_prop ob ''value'' in
     js_tostring (js_or (js_or (js_prop v ''summary'') (js_prop v ''description'')) (JStr '''')))"

definition CANCELLED_RX :: rx where
  "CANCELLED_RX = rseq [lit ''('', RGroup 1 (RAlt (lit ''declined'') (rseq [lit ''cancel'', ropt (lit ''l''), lit ''ed''])), lit '')'']"

definition dead_slot :: "jsval \<Rightarrow> bool" where
  "dead_slot ob = (has_property ''interaction.meeting_cancelled'' ob
     \<or> (has_property ''interaction.meeting_scheduled'' ob \<and> rx_test_i CANCELLED_RX (meetingLabel ob)))"

definition live_bookings :: "jsval list \<Rightarrow> jsval list" where
  "live_bookings within60 = (let dead = map slotKey (filter dead_slot within60)
     in filter (\<lambda>ob. has_property ''interaction.meeting_scheduled'' ob \<and> slotKey ob \<notin> set dead) within60)"

definition isInbound :: "jsval \<Rightarrow> bool" where
  "isInbound ob = (js_coalesce (js_prop (js_prop ob ''raw'') ''is_outbound'') (JBool False) \<noteq> JBool True)"

definition NON_ENGAGED_REPLY :: "string list" where
  "NON_ENGAGED_REPLY = [''unsubscribe'', ''do_not_contact'', ''auto_reply'', ''bounce'']"

definition isEngagedReply :: "jsval \<Rightarrow> bool" where
  "isEngagedReply ob =
     (let raw = js_prop ob ''raw'';
          sig = js_coalesce (js_prop raw ''reply_signal'') (js_prop raw ''provider_signal'')
      in js_prop raw ''sentiment'' \<noteq> JStr ''negative'' \<and> sig \<notin> JStr ` set NON_ENGAGED_REPLY)"

definition interest_evidence :: "jsval list \<Rightarrow> jsval list" where
  "interest_evidence within30 =
     filter (\<lambda>ob. has_property ''interaction.linkedin_message'' ob \<and> isInbound ob \<and> isEngagedReply ob) within30
     @ filter (\<lambda>ob. (has_property ''interaction.email_received'' ob \<or> has_property ''interaction.email_replied'' ob)
                 \<and> isEngagedReply ob) within30
     @ filter (has_property ''interaction.meeting_interest'') within30"

text \<open>The rungs below the outcomes, highest first: the stage and the rows that are its evidence.\<close>

definition rungs :: "int \<Rightarrow> jsval list \<Rightarrow> jsval list \<Rightarrow> (string \<times> int option list) list" where
  "rungs now observations buying =
     (let within60 = filter (\<lambda>ob. within_days now 60 (obs_time ob)) observations;
          within30 = filter (\<lambda>ob. within_days now 30 (obs_time ob)) observations;
          fresh = filter (\<lambda>c. within_days now 60 (claim_time c)) buying
      in [(''negotiation'', map (new_date \<circ> claim_at) fresh
             @ map obs_time (filter (has_property ''interaction.proposal_sent'') within60)),
          (''discovery'', map obs_time (filter (has_property ''interaction.meeting_held'') within60)),
          (''meeting_booked'', map obs_time (live_bookings within60)),
          (''interested'', map obs_time (interest_evidence within30)),
          (''connected'', map obs_time (filter (has_property ''interaction.linkedin_connected'') observations
             @ filter (has_property ''interaction.website_visit'') within30))])"

definition deriveStage :: "jsval list \<Rightarrow> string \<Rightarrow> jsval list \<Rightarrow> int \<Rightarrow> string \<times> jsval" where
  "deriveStage observations current buying now =
     (let ladder = (case List.find (\<lambda>r. snd r \<noteq> []) (rungs now observations buying) of
              Some (s, ts) \<Rightarrow> (s, iso_val (least_time ts))
            | None \<Rightarrow> (current, JNull))
      in case earliest_hit observations of
           Some (ob, t) \<Rightarrow> if \<not> outcome_blocked current t then (t, js_prop ob ''observed_at'') else ladder
         | None \<Rightarrow> ladder)"

section \<open>The real-time recompute and the cron\<close>

text \<open>The four reads of an entity: recent observations, its stage claim, its buying signals and its outcomes.\<close>

record entity_reads =
  er_obs :: "jsval list option"
  er_claim :: "jsval option"
  er_buy :: "jsval list option"
  er_term :: "jsval list option"

definition rows_or_none :: "jsval list option \<Rightarrow> jsval list" where
  "rows_or_none r = (case r of None \<Rightarrow> [] | Some xs \<Rightarrow> xs)"

definition current_stage :: "entity_reads \<Rightarrow> string" where
  "current_stage er = (case normalizeStage (case er_claim er of None \<Rightarrow> JUndef | Some v \<Rightarrow> v) of
     None \<Rightarrow> ''identified'' | Some s \<Rightarrow> s)"

record stage_insert =
  si_value :: string
  si_method :: string
  si_observed_at :: string

record recompute_result =
  rr_advanced :: bool
  rr_from :: "string option"
  rr_stage :: string

definition LOOKBACK_DAYS :: int where "LOOKBACK_DAYS = 90"

definition evidence :: "entity_reads \<Rightarrow> jsval list \<Rightarrow> int \<Rightarrow> string \<times> jsval" where
  "evidence er obs now = deriveStage (obs @ rows_or_none (er_term er)) (current_stage er) (rows_or_none (er_buy er)) now"

text \<open>The result (nothing when the observations cannot be read) and the insert it makes.\<close>

definition recomputeEntityStage ::
  "entity_reads \<Rightarrow> int \<Rightarrow> bool \<Rightarrow> recompute_result option \<times> stage_insert option" where
  "recomputeEntityStage er now inserted =
     (case er_obs er of None \<Rightarrow> (None, None)
      | Some obs \<Rightarrow>
         (let current = current_stage er; (derived, at_val) = evidence er obs now
          in if stageRank (JStr derived) \<le> stageRank (JStr current)
             then (Some \<lparr>rr_advanced = False, rr_from = None, rr_stage = current\<rparr>, None)
             else (Some \<lparr>rr_advanced = inserted, rr_from = Some current, rr_stage = (if inserted then derived else current)\<rparr>,
                   Some \<lparr>si_value = derived, si_method = ''claim_recompute'', si_observed_at = transitionAt at_val now\<rparr>)))"

record tally =
  ty_scanned :: nat
  ty_advanced :: nat
  ty_by_stage :: "(string \<times> nat) list"

definition no_tally :: tally where
  "no_tally = \<lparr>ty_scanned = 0, ty_advanced = 0, ty_by_stage = []\<rparr>"

definition bump_stage :: "string \<Rightarrow> tally \<Rightarrow> tally" where
  "bump_stage s t = t\<lparr>ty_advanced := Suc (ty_advanced t),
     ty_by_stage := jm_set (ty_by_stage t) s (Suc (case jm_get (ty_by_stage t) s of None \<Rightarrow> 0 | Some n \<Rightarrow> n))\<rparr>"

text \<open>One entity of the cron: skipped, or scanned with perhaps an insert.\<close>

definition cron_entity :: "entity_reads \<Rightarrow> int \<Rightarrow> stage_insert option option" where
  "cron_entity er now =
     (case (er_obs er, er_claim er) of
        (Some obs, Some _) \<Rightarrow>
          if obs @ rows_or_none (er_term er) = [] \<and> rows_or_none (er_buy er) = [] then None
          else (let (derived, at_val) = evidence er obs now
                in if stageRank (JStr (current_stage er)) < stageRank (JStr derived)
                   then Some (Some \<lparr>si_value = derived, si_method = ''cron'', si_observed_at = transitionAt at_val now\<rparr>)
                   else Some None)
      | _ \<Rightarrow> None)"

record cron_entry =
  ce_id :: string
  ce_workspace :: string

text \<open>The pass over the entities: the inserts made and the tallies per workspace.\<close>

fun cron_pass :: "(cron_entry \<Rightarrow> entity_reads) \<Rightarrow> (cron_entry \<Rightarrow> bool) \<Rightarrow> int \<Rightarrow> cron_entry list
    \<Rightarrow> (string \<times> tally) list \<Rightarrow> (cron_entry \<times> stage_insert) list \<times> (string \<times> tally) list" where
  "cron_pass reads ins_ok now [] per = ([], per)"
| "cron_pass reads ins_ok now (e # es) per =
     (case cron_entity (reads e) now of
        None \<Rightarrow> cron_pass reads ins_ok now es per
      | Some w \<Rightarrow>
         (let t0 = (case jm_get per (ce_workspace e) of None \<Rightarrow> no_tally | Some t \<Rightarrow> t);
              t1 = t0\<lparr>ty_scanned := Suc (ty_scanned t0)\<rparr>;
              t2 = (case w of Some i \<Rightarrow> if ins_ok e then bump_stage (si_value i) t1 else t1 | None \<Rightarrow> t1);
              (ws, per') = cron_pass reads ins_ok now es (jm_set per (ce_workspace e) t2)
          in ((case w of Some i \<Rightarrow> (if ins_ok e then [(e, i)] else []) | None \<Rightarrow> []) @ ws, per')))"

text \<open>The log rows: one per workspace in which something advanced.\<close>

record advance_log =
  al_workspace :: string
  al_advanced :: nat
  al_scanned :: nat
  al_by_stage :: "(string \<times> nat) list"

definition advance_logs :: "(string \<times> tally) list \<Rightarrow> advance_log list" where
  "advance_logs per = List.map_filter (\<lambda>(w, t). if ty_advanced t = 0 then None
     else Some \<lparr>al_workspace = w, al_advanced = ty_advanced t, al_scanned = ty_scanned t, al_by_stage = ty_by_stage t\<rparr>) per"

definition runStageDerivation ::
  "(cron_entry \<Rightarrow> entity_reads) \<Rightarrow> (cron_entry \<Rightarrow> bool) \<Rightarrow> int \<Rightarrow> cron_entry list option
    \<Rightarrow> (cron_entry \<times> stage_insert) list \<times> advance_log list" where
  "runStageDerivation reads ins_ok now entities =
     (case entities of None \<Rightarrow> ([], [])
      | Some es \<Rightarrow> (let (ws, per) = cron_pass reads ins_ok now es [] in (ws, advance_logs per)))"

section \<open>The batch path agrees with the live one\<close>









definition demo_held :: jsval where
  "demo_held = JObj [(''property'', JStr ''interaction.meeting_held''), (''observed_at'', JNum 1772323200000)]"

definition demo_reads :: entity_reads where
  "demo_reads = \<lparr>er_obs = Some [demo_held], er_claim = Some (JStr ''connected''), er_buy = Some [], er_term = Some []\<rparr>"

lemma demo_recompute:
  "recomputeEntityStage demo_reads 1772409600000 True
     = (Some \<lparr>rr_advanced = True, rr_from = Some ''connected'', rr_stage = ''discovery''\<rparr>,
        Some \<lparr>si_value = ''discovery'', si_method = ''claim_recompute'', si_observed_at = ''2026-03-01T00:00:00.000Z''\<rparr>)"
proof -
  have "evidence demo_reads [demo_held] 1772409600000 = (''discovery'', JStr ''2026-03-01T00:00:00.000Z'')"
    and "current_stage demo_reads = ''connected''" and "stageRank (JStr ''connected'') = 1" and "stageRank (JStr ''discovery'') = 4"
    and "transitionAt (JStr ''2026-03-01T00:00:00.000Z'') 1772409600000 = ''2026-03-01T00:00:00.000Z''"
    by code_simp+
  then show ?thesis by (simp add: recomputeEntityStage_def demo_reads_def)
qed


lemma derive_nothing: "deriveStage [] current [] now = (current, JNull)"
  by (simp add: deriveStage_def earliest_hit_def terminal_hits_def List.map_filter_def rungs_def live_bookings_def
      interest_evidence_def Let_def)

text \<open>The nightly pass and the real-time recompute decide alike: for an entity whose stage claim could be
  read, the cron writes a stage exactly when the recompute would, and it is the same stage with the
  same date.\<close>

theorem cron_agrees_with_recompute:
  assumes "er_claim er \<noteq> None"
  shows "(case cron_entity er now of Some (Some i) \<Rightarrow> Some (si_value i, si_observed_at i) | _ \<Rightarrow> None)
    = map_option (\<lambda>j. (si_value j, si_observed_at j)) (snd (recomputeEntityStage er now inserted))"
proof (cases "er_obs er")
  case None
  then show ?thesis by (simp add: cron_entity_def recomputeEntityStage_def)
next
  case (Some obs)
  obtain s v where e: "evidence er obs now = (s, v)" by force
  obtain cv where cv: "er_claim er = Some cv" using assms by blast
  show ?thesis
  proof (cases "obs @ rows_or_none (er_term er) = [] \<and> rows_or_none (er_buy er) = []")
    case True
    then have "s = current_stage er" using e by (simp add: evidence_def derive_nothing)
    with True Some e cv show ?thesis by (auto simp: cron_entity_def recomputeEntityStage_def)
  next
    case False
    then show ?thesis using Some e cv by (auto simp: cron_entity_def recomputeEntityStage_def Let_def)
  qed
qed

theorem cron_agrees_with_recompute_witness:
  "map_option si_value (case cron_entity demo_reads 1772409600000 of Some i \<Rightarrow> i | None \<Rightarrow> None) = Some ''discovery''"
proof -
  have "er_claim demo_reads \<noteq> None" by (simp add: demo_reads_def)
  from cron_agrees_with_recompute [OF this, of 1772409600000 True] show ?thesis
    unfolding demo_recompute by (auto split: option.splits)
qed

text \<open>When the claim cannot be read the recompute starts from identified: what it then writes can be a step down.\<close>

lemma recompute_can_downgrade:
  "er_claim er = Some (JStr ''negotiation'') \<Longrightarrow> evidence (er\<lparr>er_claim := None\<rparr>) obs now = (''discovery'', v) \<Longrightarrow>
   er_obs er = Some obs \<Longrightarrow>
   map_option si_value (snd (recomputeEntityStage (er\<lparr>er_claim := None\<rparr>) now True)) = Some ''discovery''"
proof -
  have "current_stage (er\<lparr>er_claim := None\<rparr>) = ''identified''" by (simp add: current_stage_def)
  moreover have "stageRank (JStr ''identified'') = 0" "stageRank (JStr ''discovery'') = 4" by code_simp+
  moreover assume "er_claim er = Some (JStr ''negotiation'')"
    "evidence (er\<lparr>er_claim := None\<rparr>) obs now = (''discovery'', v)" "er_obs er = Some obs"
  ultimately show ?thesis by (simp add: recomputeEntityStage_def)
qed

text \<open>Only the earliest outcome counts: a deal lost and later won is derived as lost, where the live path ends at won.\<close>

lemma lost_then_won_derives_lost:
  "fst (deriveStage [JObj [(''property'', JStr ''interaction.deal_lost''), (''observed_at'', JNum 1000)],
      JObj [(''property'', JStr ''interaction.deal_won''), (''observed_at'', JNum 2000)]] ''identified'' [] 3000) = ''closed_lost''
   \<and> moveToStage JNull (JStr ''closed_lost'') ''closed_won'' (JNum 2000) 3000 None \<noteq> None"
proof -
  have "fst (deriveStage [JObj [(''property'', JStr ''interaction.deal_lost''), (''observed_at'', JNum 1000)],
      JObj [(''property'', JStr ''interaction.deal_won''), (''observed_at'', JNum 2000)]] ''identified'' [] 3000) = ''closed_lost''"
    by code_simp
  moreover have "moveToStage JNull (JStr ''closed_lost'') ''closed_won'' (JNum 2000) 3000 None \<noteq> None" by code_simp
  ultimately show ?thesis ..
qed

end
