(* ===== verification/Lifecycle.thy ===== *)
theory Lifecycle
  imports MessagePrivacy Pipeline
begin

text \<open>
  Lifecycle entry rules, \<^verbatim>\<open>apps/api/src/lib/lifecycleRules.mjs\<close>: the facts of an account, one
  condition, the words of a proposal, and the pass that proposes moves. The reads (phases, accounts,
  events, contacts, observations) are arguments, \<open>None\<close> where the code falls back to no rows; whether
  the insert of a batch of 200 succeeds is an argument (\<open>chunks 199\<close> cuts after 200).
\<close>

section \<open>Conditions\<close>

record rule_cond =
  rc_feature :: string
  rc_op :: string
  rc_value :: jsval

definition num :: "jsval \<Rightarrow> rat option" where
  "num v = js_number v"

definition lower_or_empty :: "jsval \<Rightarrow> string" where
  "lower_or_empty v = to_lower (text_or_empty v)"

definition present :: "jsval \<Rightarrow> bool" where
  "present v = (v \<noteq> JNull \<and> v \<noteq> JUndef \<and> v \<noteq> JStr '''')"

definition holds :: "rule_cond \<Rightarrow> jsval \<Rightarrow> bool" where
  "holds c facts =
     (let actual = js_prop facts (rc_feature c); opn = rc_op c
      in if opn = ''exists'' then present actual
         else if opn = ''absent'' then \<not> present actual
         else if opn = ''is'' then lower_or_empty actual = lower_or_empty (rc_value c)
         else if opn = ''is_not'' then lower_or_empty actual \<noteq> lower_or_empty (rc_value c)
         else if opn = ''gte'' then (case (num actual, num (rc_value c)) of (Some a, Some b) \<Rightarrow> b \<le> a | _ \<Rightarrow> False)
         else if opn = ''lte'' then (case (num actual, num (rc_value c)) of (Some a, Some b) \<Rightarrow> a \<le> b | _ \<Rightarrow> False)
         else False)"


section \<open>Facts\<close>

record contact_row =
  cr_company :: string
  cr_stage :: jsval
  cr_deal_value :: jsval

record seen_row =
  sr_entity :: string
  sr_kind :: jsval
  sr_source :: jsval
  sr_observed_at :: jsval

record account_facts =
  af_contacts :: nat
  af_stage :: jsval
  af_deal_value :: "rat option"
  af_days :: "int option"
  af_meeting :: bool

definition no_facts :: account_facts where
  "no_facts = \<lparr>af_contacts = 0, af_stage = JUndef, af_deal_value = None, af_days = None, af_meeting = False\<rparr>"

definition add_contact :: "contact_row \<Rightarrow> account_facts \<Rightarrow> account_facts" where
  "add_contact c f = f\<lparr>af_contacts := Suc (af_contacts f),
     af_stage := (if \<not> js_truthy (af_stage f) \<or> js_includes ''closed'' (text_or_empty (cr_stage c))
                  then js_coalesce (cr_stage c) (af_stage f) else af_stage f),
     af_deal_value := (case num (cr_deal_value c) of None \<Rightarrow> af_deal_value f
        | Some v \<Rightarrow> Some (max (case af_deal_value f of None \<Rightarrow> 0 | Some x \<Rightarrow> x) v))\<rparr>"

definition MEETING_WORDS :: "string list" where
  "MEETING_WORDS = [''meeting'', ''call'', ''transcript'', ''fireflies'', ''fathom'', ''granola'', ''fellow'', ''ringcentral'']"

definition add_seen :: "int \<Rightarrow> seen_row \<Rightarrow> account_facts \<Rightarrow> account_facts" where
  "add_seen now ob f =
     (let d = (case new_date (js_coalesce (sr_observed_at ob) (JNum 0)) of
                 Some t \<Rightarrow> if 0 < t then Some ((now - t) div day_ms) else None | None \<Rightarrow> None)
      in f\<lparr>af_days := (case d of None \<Rightarrow> af_days f
              | Some x \<Rightarrow> Some (case af_days f of None \<Rightarrow> x | Some y \<Rightarrow> min y x)),
           af_meeting := (af_meeting f \<or> rx_test_i (words_rx MEETING_WORDS)
              (text_or_empty (sr_source ob) @ '' '' @ text_or_empty (sr_kind ob)))\<rparr>)"

definition facts_obj :: "account_facts \<Rightarrow> jsval" where
  "facts_obj f = JObj
     ([(''contacts'', JNum (of_nat (af_contacts f))), (''pipeline_stage'', af_stage f)]
      @ (case af_deal_value f of None \<Rightarrow> [] | Some v \<Rightarrow> [(''deal_value'', JNum v)])
      @ (case af_days f of None \<Rightarrow> [] | Some d \<Rightarrow> [(''days_since_activity'', JNum (of_int d))])
      @ [(''has_meeting'', JStr (if af_meeting f then ''yes'' else ''no''))])"

definition resolveFacts :: "contact_row list option \<Rightarrow> seen_row list option \<Rightarrow> int \<Rightarrow> string \<Rightarrow> jsval" where
  "resolveFacts contacts obs now cid =
     (let cs = filter (\<lambda>c. cr_company c = cid) (case contacts of None \<Rightarrow> [] | Some xs \<Rightarrow> xs);
          os = filter (\<lambda>ob. sr_entity ob = cid) (case obs of None \<Rightarrow> [] | Some xs \<Rightarrow> xs)
      in facts_obj (fold (add_seen now) os (fold add_contact cs no_facts)))"

section \<open>Proposals\<close>












section \<open>Rules propose, exactly when they hold\<close>






definition demo_contact :: "string \<Rightarrow> contact_row" where
  "demo_contact st = \<lparr>cr_company = ''c1'', cr_stage = JStr st, cr_deal_value = JNull\<rparr>"


text \<open>A contact without a deal value counts as a value of zero, so a rule on the presence of a value fires.\<close>

lemma no_value_reads_as_value:
  "holds \<lparr>rc_feature = ''deal_value'', rc_op = ''exists'', rc_value = JNull\<rparr>
     (resolveFacts (Some [demo_contact ''connected'']) None 0 ''c1'')"
  by code_simp

text \<open>The stage of the first contact speaks for the account, not the furthest along.\<close>

lemma first_contact_speaks:
  "js_prop (resolveFacts (Some [demo_contact ''connected'', demo_contact ''negotiation'']) None 0 ''c1'') ''pipeline_stage''
     = JStr ''connected''"
  by code_simp

end
