(* ===== verification/Calendar.thy ===== *)
theory Calendar
  imports JsDate
begin

text \<open>
  The civil calendar of \<^verbatim>\<open>JsDate\<close> is a bijection with the days: the day of the
  date read off a day is that day (\<open>days_civil\<close>), by the years of a 400-year era. What the schedule
  rests on.
\<close>

text \<open>Years of an era of 400 start at \<open>year_start\<close>, counted from the first of March.\<close>

definition year_start :: "int \<Rightarrow> int" where
  "year_start y = 365 * y + y div 4 - y div 100 + y div 400"

definition doe_year :: "int \<Rightarrow> int" where
  "doe_year doe = (doe - doe div 1460 + doe div 36524 - doe div 146096) div 365"

lemma diff_sum_mono: "(a::int) - a1 \<le> b - b1 \<Longrightarrow> a2 - a3 \<le> b2 - b3 \<Longrightarrow> a - a1 + a2 - a3 \<le> b - b1 + b2 - b3"
  by simp

lemma sub_div_mono:
  fixes a b :: int
  assumes "a \<le> b"
  shows "a - a div 1460 \<le> b - b div 1460"
proof -
  have "b div 1460 \<le> (a + (b - a) * 1460) div 1460" using assms by (intro zdiv_mono1) auto
  then show ?thesis by simp
qed

lemma last_day_mono:
  fixes a b :: int
  assumes "0 \<le> a" "a \<le> b" "b < 146097"
  shows "a div 36524 - a div 146096 \<le> b div 36524 - b div 146096"
proof (cases "a = b")
  case False
  with assms have a: "a div 146096 = 0" by (simp add: div_pos_pos_trivial)
  show ?thesis
  proof (cases "b = 146096")
    case True
    with False assms have "a div 36524 \<le> 146095 div 36524" by (intro zdiv_mono1) auto
    with True a show ?thesis by simp
  next
    case False
    with assms have "b div 146096 = 0" by (simp add: div_pos_pos_trivial)
    with a assms zdiv_mono1 [of a b 36524] show ?thesis by simp
  qed
qed simp

lemma doe_mono:
  fixes a b :: int
  assumes "0 \<le> a" "a \<le> b" "b < 146097"
  shows "a - a div 1460 + a div 36524 - a div 146096 \<le> b - b div 1460 + b div 36524 - b div 146096"
  by (rule diff_sum_mono [OF sub_div_mono [OF assms(2)] last_day_mono [OF assms]])

definition year_ok :: "int \<Rightarrow> bool" where
  "year_ok y \<longleftrightarrow> 0 \<le> year_start y \<and> doe_year (year_start y) = y \<and> doe_year (year_start (y + 1) - 1) = y
     \<and> year_start (y + 1) \<le> 146097 \<and> year_start (y + 1) \<le> year_start y + 366"

lemma years_ok: "list_all year_ok [0, 1]" "list_all year_ok [2..80]" "list_all year_ok [81..160]" "list_all year_ok [161..240]"
  "list_all year_ok [241..320]" "list_all year_ok [321..399]"
  by (simp_all add: year_ok_def doe_year_def year_start_def)

lemma year_ends:
  assumes "0 \<le> y" "y < 400"
  shows "year_ok y"
proof -
  have "y \<in> set [0, 1] \<union> set [2..80] \<union> set [81..160] \<union> set [161..240] \<union> set [241..320] \<union> set [321..399]"
    unfolding set_upto using assms by simp linarith
  with years_ok show ?thesis unfolding list_all_iff by blast
qed

lemma year_of_doe:
  assumes "0 \<le> doe" "doe < 146097"
  shows "\<exists>y \<in> {0..<400}. year_start y \<le> doe \<and> doe < year_start (y + 1)"
proof -
  have "doe < year_start (int n) \<Longrightarrow> n \<le> 400 \<Longrightarrow> \<exists>y \<in> {0..<int n}. year_start y \<le> doe \<and> doe < year_start (y + 1)" for n
  proof (induction n)
    case 0
    with assms show ?case by (simp add: year_start_def)
  next
    case (Suc n)
    show ?case
    proof (cases "doe < year_start (int n)")
      case True
      with Suc show ?thesis by fastforce
    next
      case False
      with Suc.prems show ?thesis by (intro bexI [of _ "int n"]) (auto simp: add.commute)
    qed
  qed
  note upto = this
  have "doe < year_start (int 400)" using assms(2) by (simp add: year_start_def)
  from upto [OF this] show ?thesis by simp
qed

lemma year_start_in_era: "0 \<le> y \<Longrightarrow> y < 400 \<Longrightarrow> 365 * y + y div 4 - y div 100 = year_start y"
  by (simp add: year_start_def div_pos_pos_trivial)

lemma doe_round_trip:
  assumes "0 \<le> doe" "doe < 146097"
  shows "0 \<le> doe_year doe \<and> doe_year doe < 400 \<and> year_start (doe_year doe) \<le> doe \<and> doe - year_start (doe_year doe) < 366"
proof -
  from year_of_doe [OF assms] obtain y where y: "y \<in> {0..<400}" "year_start y \<le> doe" "doe < year_start (y + 1)" by blast
  have e: "year_ok y" by (rule year_ends) (use y(1) in auto)
  have p: "0 \<le> year_start y" using e by (simp add: year_ok_def)
  have "doe_year (year_start y) \<le> doe_year doe"
    unfolding doe_year_def by (rule zdiv_mono1 [OF doe_mono]) (use p y assms in auto)
  moreover have "doe_year doe \<le> doe_year (year_start (y + 1) - 1)"
    unfolding doe_year_def by (intro zdiv_mono1 doe_mono) (use p y e assms in \<open>auto simp: year_ok_def\<close>)
  ultimately have "doe_year doe = y" using e by (simp add: year_ok_def)
  with y e show ?thesis by (auto simp: year_ok_def)
qed

text \<open>The day of a civil date that was read off a day is that day.\<close>

lemma days_civil: "days_from_civil (fst (civil_from_days z)) (fst (snd (civil_from_days z))) (snd (snd (civil_from_days z))) = z"
proof -
  define era doe where "era = (z + 719468) div 146097" and "doe = (z + 719468) mod 146097"
  have doe: "0 \<le> doe" "doe < 146097" by (simp_all add: doe_def)
  define yoe where "yoe = doe_year doe"
  define doy where "doy = doe - (365 * yoe + yoe div 4 - yoe div 100)"
  have y: "0 \<le> yoe" "yoe < 400" using doe_round_trip [OF doe] by (simp_all add: yoe_def)
  have d: "0 \<le> doy" "doy < 366"
    using doe_round_trip [OF doe] unfolding doy_def year_start_in_era [OF y] by (simp_all add: yoe_def)
  define mp where "mp = (5 * doy + 2) div 153"
  have mp: "0 \<le> mp" "mp \<le> 11" using d unfolding mp_def by linarith+
  define m where "m = (if mp < 10 then mp + 3 else mp - 9)"
  have mm: "(m + 9) mod 12 = mp" using mp by (auto simp: m_def) 
  have c: "civil_from_days z = (yoe + era * 400 + (if m \<le> 2 then 1 else 0), m, doy - (153 * mp + 2) div 5 + 1)"
    unfolding civil_from_days_def Let_def era_def [symmetric] doe_def [symmetric] doe_year_def [symmetric]
      yoe_def [symmetric] doy_def [symmetric] mp_def [symmetric] m_def [symmetric] by simp
  have y': "(if m \<le> 2 then yoe + era * 400 + (if m \<le> 2 then 1 else 0) - 1 else yoe + era * 400 + (if m \<le> 2 then 1 else 0)) = yoe + era * 400"
    by simp
  have "(yoe + era * 400) div 400 = era" "(yoe + era * 400) mod 400 = yoe" using y by (simp_all add: div_pos_pos_trivial)
  then have "days_from_civil (fst (civil_from_days z)) (fst (snd (civil_from_days z))) (snd (snd (civil_from_days z)))
      = era * 146097 + (yoe * 365 + yoe div 4 - yoe div 100 + doy) - 719468"
    unfolding c days_from_civil_def Let_def fst_conv snd_conv y' mm by simp
  also have "\<dots> = era * 146097 + doe - 719468" by (simp add: doy_def)
  also have "\<dots> = z" by (simp add: era_def doe_def)
  finally show ?thesis .
qed
end
