(* ===== verification/Schedule.thy ===== *)
theory Schedule
  imports Calendar JsNumber "HOL-Library.Signed_Division"
begin

text \<open>
  When a routine runs next, \<^verbatim>\<open>packages/core/src/services/routineSchedule.mjs\<close>. A time zone is
  a parameter: the offset of its wall clock from UTC at each instant, in milliseconds, as
  \<^verbatim>\<open>Intl.DateTimeFormat\<close> applies it; \<open>zones\<close> looks a zone up by name and has no entry for
  a name \<^verbatim>\<open>Intl\<close> refuses with a \<^verbatim>\<open>RangeError\<close>. Years are those of the common era
  from 100 on, which \<^verbatim>\<open>Date.UTC\<close> does not shift.
\<close>

section \<open>Wall clocks\<close>

record local_parts =
  lp_year :: int
  lp_month :: int
  lp_day :: int
  lp_hour :: int
  lp_minute :: int
  lp_dow :: int

definition partsInZone :: "(int \<Rightarrow> int) \<Rightarrow> int \<Rightarrow> local_parts" where
  "partsInZone off t =
     (let l = t + off t; (y, m, d) = civil_from_days (l div day_ms); r = l mod day_ms
      in \<lparr>lp_year = y, lp_month = m, lp_day = d, lp_hour = r div 3600000,
          lp_minute = r mod 3600000 div 60000, lp_dow = (l div day_ms + 4) mod 7\<rparr>)"

definition seen_as_utc :: "local_parts \<Rightarrow> int" where
  "seen_as_utc p = date_utc (lp_year p) (lp_month p) (lp_day p) (lp_hour p) (lp_minute p) 0"

text \<open>At most \<open>n\<close> corrections of the guess; a correction of nothing ends the loop.\<close>

fun settle :: "nat \<Rightarrow> (int \<Rightarrow> int) \<Rightarrow> int \<Rightarrow> int \<Rightarrow> int" where
  "settle 0 off wanted utc = utc"
| "settle (Suc n) off wanted utc =
     (let drift = seen_as_utc (partsInZone off utc) - wanted
      in if drift = 0 then utc else settle n off wanted (utc - drift))"

definition zonedTimeToUtc :: "(int \<Rightarrow> int) \<Rightarrow> int \<Rightarrow> int \<Rightarrow> int \<Rightarrow> int \<Rightarrow> int \<Rightarrow> int" where
  "zonedTimeToUtc off y m d h mi = (let wanted = date_utc y m d h mi 0 in settle 2 off wanted wanted)"

definition QUARTER_MONTHS :: "int list" where "QUARTER_MONTHS = [1, 4, 7, 10]"

section \<open>nextRunAt\<close>

record routine =
  rt_trigger_kind :: string
  rt_timezone :: "string option"
  rt_at_time :: "string option"
  rt_frequency :: string
  rt_weekdays_only :: bool
  rt_day_of_week :: "int option"
  rt_day_of_month :: "int option"
  rt_offset_minutes :: "int option"

datatype schedule_error = RangeError

text \<open>\<^verbatim>\<open>Date.UTC\<close> drops the fraction of an hour or a minute.\<close>

definition trunc :: "rat \<Rightarrow> int" where
  "trunc r = (if 0 \<le> r then \<lfloor>r\<rfloor> else \<lceil>r\<rceil>)"

definition clock_of :: "routine \<Rightarrow> int \<times> int" where
  "clock_of r =
     (let ps = split_on CHR '':'' (str_of (str_or (rt_at_time r) (Some ''09:00'')));
          num = (\<lambda>i d. if i < length ps then (case str_number (ps ! i) of Some n \<Rightarrow> trunc n | None \<Rightarrow> d) else d)
      in (num 0 9, num 1 0))"

definition or_int :: "int option \<Rightarrow> int \<Rightarrow> int" where
  "or_int a d = (case a of None \<Rightarrow> d | Some x \<Rightarrow> x)"

text \<open>\<^verbatim>\<open>new Date(Date.UTC(year, month, 0)).getUTCDate()\<close>: the last day of the month.\<close>

definition month_end :: "int \<Rightarrow> int \<Rightarrow> int" where
  "month_end y m = snd (snd (civil_from_days (date_utc y (m + 1) 0 0 0 0 div day_ms)))"

definition candidate :: "(int \<Rightarrow> int) \<Rightarrow> local_parts \<Rightarrow> int \<times> int \<Rightarrow> int \<Rightarrow> int" where
  "candidate off now hm k =
     (let p = partsInZone (\<lambda>_. 0) (date_utc (lp_year now) (lp_month now) (lp_day now + k) 0 0 0)
      in zonedTimeToUtc off (lp_year p) (lp_month p) (lp_day p) (fst hm) (snd hm))"

definition in_month :: "(int \<Rightarrow> int) \<Rightarrow> int \<times> int \<Rightarrow> int \<Rightarrow> int \<Rightarrow> int \<Rightarrow> int" where
  "in_month off hm want y m = zonedTimeToUtc off y m (min want (month_end y m)) (fst hm) (snd hm)"

definition daily_ok :: "(int \<Rightarrow> int) \<Rightarrow> bool \<Rightarrow> int \<Rightarrow> int \<Rightarrow> bool" where
  "daily_ok off weekdays from next =
     (from < next \<and> \<not> (weekdays \<and> lp_dow (partsInZone off next) \<in> {0, 6}))"

definition next_daily :: "(int \<Rightarrow> int) \<Rightarrow> int \<times> int \<Rightarrow> bool \<Rightarrow> int \<Rightarrow> int option" where
  "next_daily off hm weekdays from =
     List.find (daily_ok off weekdays from) (map (candidate off (partsInZone off from) hm) [0, 1, 2, 3, 4, 5, 6, 7])"

definition next_weekly :: "(int \<Rightarrow> int) \<Rightarrow> int \<times> int \<Rightarrow> int \<Rightarrow> int \<Rightarrow> int" where
  "next_weekly off hm want from =
     (let now = partsInZone off from; delta = (want - lp_dow now + 7) smod 7
      in candidate off now hm (if delta = 0 \<and> candidate off now hm 0 \<le> from then 7 else delta))"

definition next_monthly :: "(int \<Rightarrow> int) \<Rightarrow> int \<times> int \<Rightarrow> int \<Rightarrow> int \<Rightarrow> int" where
  "next_monthly off hm want from =
     (let now = partsInZone off from; y = lp_year now; m = lp_month now; this = in_month off hm want y m
      in if from < this then this
         else if 12 < m + 1 then in_month off hm want (y + 1) 1 else in_month off hm want y (m + 1))"

definition next_quarterly :: "(int \<Rightarrow> int) \<Rightarrow> int \<times> int \<Rightarrow> int \<Rightarrow> int \<Rightarrow> int option" where
  "next_quarterly off hm want from =
     (let y = lp_year (partsInZone off from)
      in List.find (\<lambda>next. from < next)
           (map (\<lambda>i. in_month off hm want (y + int (i div 4)) (QUARTER_MONTHS ! (i mod 4))) [0, 1, 2, 3, 4]))"

definition nextRunAt :: "(string \<Rightarrow> (int \<Rightarrow> int) option) \<Rightarrow> routine \<Rightarrow> int \<Rightarrow> schedule_error + int option" where
  "nextRunAt zones r from =
     (if rt_trigger_kind r \<noteq> ''clock'' then Inr None
      else case zones (str_of (str_or (rt_timezone r) (Some ''UTC''))) of
        None \<Rightarrow> Inl RangeError
      | Some off \<Rightarrow>
         Inr (if rt_frequency r = ''daily'' then next_daily off (clock_of r) (rt_weekdays_only r) from
              else if rt_frequency r = ''weekly'' then Some (next_weekly off (clock_of r) (or_int (rt_day_of_week r) 1) from)
              else if rt_frequency r = ''monthly'' then Some (next_monthly off (clock_of r) (or_int (rt_day_of_month r) 1) from)
              else if rt_frequency r = ''quarterly'' then next_quarterly off (clock_of r) (or_int (rt_day_of_month r) 1) from
              else None))"

section \<open>describeTrigger\<close>

definition DAYS :: "string list" where
  "DAYS = [''Sunday'', ''Monday'', ''Tuesday'', ''Wednesday'', ''Thursday'', ''Friday'', ''Saturday'']"

definition day_name :: "int \<Rightarrow> string" where
  "day_name i = (if 0 \<le> i \<and> i < 7 then DAYS ! nat i else ''undefined'')"

definition describeTrigger :: "routine \<Rightarrow> string" where
  "describeTrigger r =
     (if rt_trigger_kind r = ''before_meeting'' then
        (let mins = or_int (rt_offset_minutes r) 60
         in if mins smod 10080 = 0 then show_int (mins sdiv 10080) @ ''w before each meeting''
            else if mins smod 1440 = 0 then show_int (mins sdiv 1440) @ ''d before each meeting''
            else if mins smod 60 = 0 then show_int (mins sdiv 60) @ ''h before each meeting''
            else show_int mins @ ''m before each meeting'')
      else
        (let at_text = take 5 (str_of (rt_at_time r)); day = show_int (or_int (rt_day_of_month r) 1)
         in if rt_frequency r = ''daily'' then ''Every day at '' @ at_text
            else if rt_frequency r = ''weekly'' then ''Every '' @ day_name (or_int (rt_day_of_week r) 1) @ '' at '' @ at_text
            else if rt_frequency r = ''monthly'' then ''Day '' @ day @ '' of each month at '' @ at_text
            else if rt_frequency r = ''quarterly'' then ''Day '' @ day @ '' of each quarter at '' @ at_text
            else ''Not scheduled''))"

section \<open>The next run is the next one\<close>

text \<open>In any zone, however its clock moves, a daily or quarterly run lies after the instant asked about.\<close>

lemma daily_after: "next_daily off hm weekdays from = Some t \<Longrightarrow> daily_ok off weekdays from t"
  unfolding next_daily_def by (drule find_Some_D) simp

lemma quarterly_after: "next_quarterly off hm want from = Some t \<Longrightarrow> from < t"
  unfolding next_quarterly_def Let_def by (drule find_Some_D) simp

text \<open>A run time \<open>s\<close> of the routine in a zone: the wall clock reads the asked time, on an asked day.\<close>

definition due :: "(int \<Rightarrow> int) \<Rightarrow> routine \<Rightarrow> int \<Rightarrow> bool" where
  "due off r s = ((s + off s) mod day_ms = fst (clock_of r) * 3600000 + snd (clock_of r) * 60000
     \<and> (if rt_frequency r = ''weekly'' then lp_dow (partsInZone off s) = or_int (rt_day_of_week r) 1
        else rt_weekdays_only r \<longrightarrow> lp_dow (partsInZone off s) \<notin> {0, 6}))"

lemma parts_civil:
  "days_from_civil (lp_year (partsInZone off t)) (lp_month (partsInZone off t)) (lp_day (partsInZone off t))
     = (t + off t) div day_ms"
proof -
  obtain y m d where c: "civil_from_days ((t + off t) div day_ms) = (y, m, d)" by (cases "civil_from_days ((t + off t) div day_ms)")
  then show ?thesis using days_civil [of "(t + off t) div day_ms"] by (simp add: partsInZone_def Let_def)
qed

lemma civil_month: "1 \<le> fst (snd (civil_from_days z)) \<and> fst (snd (civil_from_days z)) \<le> 12"
proof -
  define doe where "doe = (z + 719468) mod 146097"
  have doe: "0 \<le> doe" "doe < 146097" by (simp_all add: doe_def)
  define doy where "doy = doe - (365 * doe_year doe + doe_year doe div 4 - doe_year doe div 100)"
  have d: "0 \<le> doy" "doy < 366"
    using doe_round_trip [OF doe] by (simp_all add: doy_def year_start_in_era)
  have "0 \<le> (5 * doy + 2) div 153" "(5 * doy + 2) div 153 \<le> 11" using d by linarith+
  moreover have "fst (snd (civil_from_days z)) = (let mp = (5 * doy + 2) div 153 in if mp < 10 then mp + 3 else mp - 9)"
    unfolding civil_from_days_def Let_def doe_def [symmetric] doe_year_def [symmetric] doy_def [symmetric] by simp
  ultimately show ?thesis by (simp add: Let_def)
qed

lemma days_carry: "days_from_civil y m (d + k) = days_from_civil y m d + k"
  by (simp add: days_from_civil_def Let_def)

lemma date_utc_day_number:
  assumes "1 \<le> m" "m \<le> 12"
  shows "date_utc y m d h mi s = days_from_civil y m d * day_ms + h * 3600000 + mi * 60000 + s * 1000"
proof -
  have "(m - 1) div 12 = 0" "(m - 1) mod 12 = m - 1" using assms by (simp_all add: div_pos_pos_trivial)
  then show ?thesis using days_carry [of y m 1 "d - 1"] by (simp add: date_utc_def Let_def algebra_simps)
qed

lemma parts_month: "1 \<le> lp_month (partsInZone off t) \<and> lp_month (partsInZone off t) \<le> 12"
  using civil_month [of "(t + off t) div day_ms"]
  by (cases "civil_from_days ((t + off t) div day_ms)") (simp add: partsInZone_def Let_def)

lemma floor_minute:
  fixes l :: int
  shows "l div day_ms * day_ms + l mod day_ms div 3600000 * 3600000 + l mod day_ms mod 3600000 div 60000 * 60000
    = l div 60000 * 60000"
proof -
  have "l mod day_ms mod 3600000 mod 60000 = l mod 60000" by (simp add: mod_mod_cancel)
  then show ?thesis by (simp add: minus_mod_eq_div_mult [symmetric])
qed

lemma seen_as_utc_parts: "seen_as_utc (partsInZone off t) = (t + off t) div 60000 * 60000"
proof -
  define l where "l = t + off t"
  have "seen_as_utc (partsInZone off t)
      = l div day_ms * day_ms + lp_hour (partsInZone off t) * 3600000 + lp_minute (partsInZone off t) * 60000"
    unfolding seen_as_utc_def l_def
    by (subst date_utc_day_number) (use parts_month [of off t] in \<open>auto simp: parts_civil\<close>)
  also have "\<dots> = l div day_ms * day_ms + l mod day_ms div 3600000 * 3600000 + l mod day_ms mod 3600000 div 60000 * 60000"
    by (simp add: partsInZone_def l_def Let_def split: prod.split)
  also have "\<dots> = l div 60000 * 60000" by (rule floor_minute)
  finally show ?thesis by (simp add: l_def)
qed

text \<open>A zone of one offset, in whole minutes: a run time is reached exactly.\<close>

lemma fixed_zone_exact:
  assumes "60000 dvd c"
  shows "zonedTimeToUtc (\<lambda>_. c) y m d h mi = date_utc y m d h mi 0 - c"
proof -
  define w where "w = date_utc y m d h mi 0"
  have "w = (date_utc y m d 0 0 0 div day_ms * 1440 + h * 60 + mi) * 60000"
    by (simp add: w_def date_utc_def Let_def)
  then have "60000 dvd w" by (metis dvd_triv_right)
  then have "60000 dvd w + c" using assms by (rule dvd_add)
  then have seen: "seen_as_utc (partsInZone (\<lambda>_. c) w) = w + c" "seen_as_utc (partsInZone (\<lambda>_. c) (w - c)) = w"
    using \<open>60000 dvd w\<close> by (simp_all add: seen_as_utc_parts dvd_div_mult_self)
  then show ?thesis
    by (simp add: zonedTimeToUtc_def Let_def w_def [symmetric] numeral_2_eq_2)
qed

lemma candidate_fixed:
  assumes "60000 dvd c"
  shows "candidate (\<lambda>_. c) (partsInZone (\<lambda>_. c) from) hm k
    = ((from + c) div day_ms + k) * day_ms + fst hm * 3600000 + snd hm * 60000 - c"
proof -
  define now where "now = partsInZone (\<lambda>_. c) from"
  define base where "base = date_utc (lp_year now) (lp_month now) (lp_day now + k) 0 0 0"
  have b: "base = ((from + c) div day_ms + k) * day_ms"
    unfolding base_def
    by (subst date_utc_day_number)
      (use parts_month [of "\<lambda>_. c" "from"] in \<open>auto simp: now_def days_carry parts_civil\<close>)
  have "candidate (\<lambda>_. c) now hm k = zonedTimeToUtc (\<lambda>_. c) (lp_year (partsInZone (\<lambda>_. 0) base))
      (lp_month (partsInZone (\<lambda>_. 0) base)) (lp_day (partsInZone (\<lambda>_. 0) base)) (fst hm) (snd hm)"
    by (simp add: candidate_def base_def Let_def)
  also have "\<dots> = base div day_ms * day_ms + fst hm * 3600000 + snd hm * 60000 - c"
    unfolding fixed_zone_exact [OF assms]
    by (subst date_utc_day_number) (use parts_month [of "\<lambda>_. 0" base] in \<open>auto simp: parts_civil\<close>)
  finally show ?thesis by (simp add: now_def b)
qed

text \<open>The run times of a zone of one offset are the asked times of its days, in order.\<close>

definition clock_ok :: "routine \<Rightarrow> bool" where
  "clock_ok r = (0 \<le> fst (clock_of r) \<and> fst (clock_of r) < 24 \<and> 0 \<le> snd (clock_of r) \<and> snd (clock_of r) < 60)"

definition run_on :: "int \<Rightarrow> routine \<Rightarrow> int \<Rightarrow> int" where
  "run_on c r n = n * day_ms + fst (clock_of r) * 3600000 + snd (clock_of r) * 60000 - c"

definition day_asked :: "routine \<Rightarrow> int \<Rightarrow> bool" where
  "day_asked r n = (if rt_frequency r = ''weekly'' then (n + 4) mod 7 = or_int (rt_day_of_week r) 1
     else rt_weekdays_only r \<longrightarrow> (n + 4) mod 7 \<notin> {0, 6})"

lemma run_on_strict: "n < n' \<Longrightarrow> run_on c r n < run_on c r n'"
  by (simp add: run_on_def)

lemma run_on_day:
  assumes "clock_ok r"
  shows "(run_on c r n + c) div day_ms = n"
    "(run_on c r n + c) mod day_ms = fst (clock_of r) * 3600000 + snd (clock_of r) * 60000"
proof -
  define tod where "tod = fst (clock_of r) * 3600000 + snd (clock_of r) * 60000"
  have "0 \<le> tod" "tod < day_ms" using assms by (auto simp: clock_ok_def tod_def)
  moreover have "run_on c r n + c = tod + n * day_ms" by (simp add: run_on_def tod_def)
  ultimately show "(run_on c r n + c) div day_ms = n" "(run_on c r n + c) mod day_ms = fst (clock_of r) * 3600000 + snd (clock_of r) * 60000"
    by (simp_all add: tod_def [symmetric] div_pos_pos_trivial)
qed

lemma parts_dow: "lp_dow (partsInZone off t) = ((t + off t) div day_ms + 4) mod 7"
  by (simp add: partsInZone_def Let_def split: prod.split)

lemma due_run_on:
  assumes "clock_ok r"
  shows "due (\<lambda>_. c) r s \<longleftrightarrow> (\<exists>n. s = run_on c r n \<and> day_asked r n)"
proof
  assume d: "due (\<lambda>_. c) r s"
  define n where "n = (s + c) div day_ms"
  have "s + c = n * day_ms + (s + c) mod day_ms" by (simp add: n_def)
  with d have "s = run_on c r n" by (simp add: due_def run_on_def)
  moreover have "day_asked r n" using d unfolding due_def day_asked_def parts_dow n_def by blast
  ultimately show "\<exists>n. s = run_on c r n \<and> day_asked r n" by blast
next
  assume "\<exists>n. s = run_on c r n \<and> day_asked r n"
  then show "due (\<lambda>_. c) r s" using run_on_day [OF assms] by (auto simp: due_def day_asked_def parts_dow)
qed

definition is_next_run :: "int \<Rightarrow> routine \<Rightarrow> int \<Rightarrow> int \<Rightarrow> bool" where
  "is_next_run c r from t = (from < t \<and> due (\<lambda>_. c) r t \<and> (\<forall>s. from < s \<and> due (\<lambda>_. c) r s \<longrightarrow> t \<le> s))"

text \<open>Reading the days from today on, the first that is asked and still ahead is the next run.\<close>

lemma first_is_next:
  assumes "clock_ok r" and n: "from < run_on c r n" "day_asked r n"
    and first: "\<And>k. (from + c) div day_ms \<le> k \<Longrightarrow> k < n \<Longrightarrow> from < run_on c r k \<Longrightarrow> \<not> day_asked r k"
  shows "is_next_run c r from (run_on c r n)"
  unfolding is_next_run_def
proof (intro conjI allI impI n(1))
  show "due (\<lambda>_. c) r (run_on c r n)" using due_run_on [OF assms(1)] n(2) by blast
next
  fix s assume "from < s \<and> due (\<lambda>_. c) r s"
  then obtain k where k: "s = run_on c r k" "day_asked r k" "from < run_on c r k"
    by (auto simp: due_run_on [OF assms(1)])
  have "(from + c) div day_ms \<le> (run_on c r k + c) div day_ms" using k(3) by (intro zdiv_mono1) auto
  then have "(from + c) div day_ms \<le> k" by (simp add: run_on_day [OF assms(1)])
  with first [of k] k have "n \<le> k" by fastforce
  then show "run_on c r n \<le> s" using k(1) run_on_strict [of n k c r] by (cases "n = k") auto
qed

lemma run_tomorrow:
  assumes "clock_ok r" and "(from + c) div day_ms < n"
  shows "from < run_on c r n"
proof -
  have "from + c < n * day_ms" using assms(2) by (simp add: div_less_iff_less_mult)
  moreover have "0 \<le> fst (clock_of r) * 3600000 + snd (clock_of r) * 60000" using assms(1) by (simp add: clock_ok_def)
  ultimately show ?thesis by (simp add: run_on_def)
qed

lemma candidate_run_on:
  "60000 dvd c \<Longrightarrow> candidate (\<lambda>_. c) (partsInZone (\<lambda>_. c) from) (clock_of r) k = run_on c r ((from + c) div day_ms + k)"
  by (simp add: candidate_fixed run_on_def)

lemma daily_is_next:
  assumes c: "60000 dvd c" and r: "clock_ok r" "rt_frequency r = ''daily''"
  shows "\<exists>t. next_daily (\<lambda>_. c) (clock_of r) (rt_weekdays_only r) from = Some t \<and> is_next_run c r from t"
proof -
  define D where "D = (from + c) div day_ms"
  define P where "P = daily_ok (\<lambda>_. c) (rt_weekdays_only r) from"
  define f where "f = (\<lambda>i. run_on c r (D + int i))"
  have nd: "next_daily (\<lambda>_. c) (clock_of r) (rt_weekdays_only r) from = List.find P (map f [0..<8])"
    by (simp add: next_daily_def candidate_run_on [OF c] D_def [symmetric] P_def f_def upt_rec)
  have P: "P (run_on c r n) \<longleftrightarrow> from < run_on c r n \<and> day_asked r n" for n
    using r(2) by (simp add: P_def daily_ok_def day_asked_def parts_dow run_on_day [OF r(1)])
  define w where "w = nat ((3 - D) mod 7) + 1"
  have "w \<in> set [0..<8]" by (simp add: w_def)
  moreover have "P (f w)"
  proof -
    have "(D + int w + 4) mod 7 = (D + ((3 - D) mod 7 + 5)) mod 7" by (simp add: w_def algebra_simps)
    also have "\<dots> = 1" by presburger
    finally have "day_asked r (D + int w)" using r(2) by (simp add: day_asked_def)
    then show ?thesis using run_tomorrow [OF r(1), of "from" c "D + int w"] by (simp add: f_def P D_def w_def)
  qed
  ultimately have "List.find P (map f [0..<8]) \<noteq> None" by (auto simp: find_None_iff)
  then obtain t where t: "List.find P (map f [0..<8]) = Some t" by blast
  then obtain i where i: "t = f i" "P (f i)" "\<And>j. j < i \<Longrightarrow> \<not> P (f j)"
    by (auto simp: find_Some_iff nth_map)
  have fa: "from < run_on c r (D + int i)" "day_asked r (D + int i)" using i(2) by (simp_all add: f_def P)
  have "is_next_run c r from t"
    unfolding i(1) f_def
  proof (rule first_is_next [OF r(1) fa])
    fix k assume k: "(from + c) div day_ms \<le> k" "k < D + int i" "from < run_on c r k"
    then have "\<not> P (f (nat (k - D)))" by (intro i(3)) (simp add: D_def)
    with k show "\<not> day_asked r k" by (simp add: f_def P D_def)
  qed
  then show ?thesis using nd t by auto
qed

lemma weekly_is_next:
  assumes c: "60000 dvd c" and r: "clock_ok r" "rt_frequency r = ''weekly''"
    and want: "0 \<le> or_int (rt_day_of_week r) 1" "or_int (rt_day_of_week r) 1 < 7"
  shows "is_next_run c r from (next_weekly (\<lambda>_. c) (clock_of r) (or_int (rt_day_of_week r) 1) from)"
proof -
  define D where "D = (from + c) div day_ms"
  define W where "W = or_int (rt_day_of_week r) 1"
  define d where "d = (W - (D + 4) mod 7 + 7) mod 7"
  define n where "n = D + (if d = 0 \<and> run_on c r D \<le> from then 7 else d)"
  have "(W - (D + 4) mod 7 + 7) smod 7 = d"
  proof -
    have "0 < W - (D + 4) mod 7 + 7" using want pos_mod_bound [of 7 "D + 4"] by (simp add: W_def)
    then show ?thesis by (simp add: signed_modulo_int_def d_def sgn_if)
  qed
  then have nw: "next_weekly (\<lambda>_. c) (clock_of r) W from = run_on c r n"
    by (simp add: next_weekly_def Let_def candidate_run_on [OF c] D_def [symmetric] n_def parts_dow)
  have asked: "day_asked r k \<longleftrightarrow> (k + 4) mod 7 = W" for k using r(2) by (simp add: day_asked_def W_def)
  have d: "0 \<le> d" "d < 7" by (simp_all add: d_def)
  have W: "0 \<le> W" "W < 7" using want by (simp_all add: W_def)
  have "(D + d + 4) mod 7 = W" 
  proof -
    have "(D + d + 4) mod 7 = ((D + 4) + d) mod 7" by (simp add: algebra_simps)
    also have "\<dots> = ((D + 4) mod 7 + d) mod 7" by (rule mod_add_left_eq [symmetric])
    also have "\<dots> = ((D + 4) mod 7 + (W - (D + 4) mod 7 + 7)) mod 7" unfolding d_def by (rule mod_add_right_eq)
    also have "\<dots> = W" using W by simp
    finally show ?thesis .
  qed
  moreover have "(D + 7 + 4) mod 7 = (D + 4) mod 7" using mod_add_self2 [of "D + 4" 7] by (simp add: algebra_simps)
  ultimately have a: "day_asked r n" by (auto simp: n_def asked)
  have f: "from < run_on c r n"
    using run_tomorrow [OF r(1), of "from" c n] d by (cases "d = 0") (auto simp: n_def D_def)
  have "is_next_run c r from (run_on c r n)"
  proof (rule first_is_next [OF r(1) f a])
    fix k assume k: "(from + c) div day_ms \<le> k" "k < n" "from < run_on c r k"
    show "\<not> day_asked r k"
    proof
      assume "day_asked r k"
      then have "(k + 4) mod 7 = W" by (simp add: asked)
      then have "d = ((k + 4) mod 7 - (D + 4) mod 7) mod 7" by (simp add: d_def)
      then have "(k - D) mod 7 = d" by (simp add: mod_diff_eq)
      moreover have "0 \<le> k - D" "k - D < 7" using k(1,2) d by (auto simp: n_def D_def split: if_splits)
      ultimately have "k = D + d" by (simp add: mod_pos_pos_trivial)
      with k(2,3) show False by (auto simp: n_def split: if_splits)
    qed
  qed
  then show ?thesis by (simp add: nw W_def [symmetric])
qed

definition demo_routine :: routine where
  "demo_routine = \<lparr>rt_trigger_kind = ''clock'', rt_timezone = Some ''Plus2'', rt_at_time = Some ''07:00'',
     rt_frequency = ''weekly'', rt_weekdays_only = False, rt_day_of_week = Some 1, rt_day_of_month = None,
     rt_offset_minutes = None\<rparr>"

definition demo_zones :: "string \<Rightarrow> (int \<Rightarrow> int) option" where
  "demo_zones z = (if z = ''Plus2'' then Some (\<lambda>_. 7200000)
     else if z = ''Spring'' then Some (\<lambda>t. if t < 1773547200000 then - 14400000 else - 10800000) else None)"

text \<open>C20: In a zone whose offset does not change, nextRunAt of a daily routine (with or without weekdays
  only) or a weekly one returns exactly the next run: an instant after \<open>from\<close> at which the wall clock
  of the zone reads the asked time on an asked day, and no earlier such instant after \<open>from\<close>
  exists.\<close>

theorem next_run_is_next:
  assumes "rt_trigger_kind r = ''clock''"
    and "zones (str_of (str_or (rt_timezone r) (Some ''UTC''))) = Some (\<lambda>_. c)" "60000 dvd c"
    and "clock_ok r"
    and "rt_frequency r = ''daily'' \<or> (rt_frequency r = ''weekly'' \<and> or_int (rt_day_of_week r) 1 \<in> {0..<7})"
  shows "\<exists>t. nextRunAt zones r from = Inr (Some t) \<and> is_next_run c r from t"
proof (cases "rt_frequency r = ''daily''")
  case True
  with daily_is_next [OF assms(3,4) True, of "from"] assms(1,2) show ?thesis by (auto simp: nextRunAt_def)
next
  case False
  with assms(5) have w: "rt_frequency r = ''weekly''" "0 \<le> or_int (rt_day_of_week r) 1" "or_int (rt_day_of_week r) 1 < 7" by auto
  with weekly_is_next [OF assms(3,4) w, of "from"] assms(1,2) show ?thesis by (auto simp: nextRunAt_def)
qed

theorem next_run_is_next_witness:
  "\<exists>t. nextRunAt demo_zones demo_routine 1773480000000 = Inr (Some t) \<and> is_next_run 7200000 demo_routine 1773480000000 t"
proof (rule next_run_is_next)
  show "clock_ok demo_routine" by code_simp
qed (simp_all add: demo_routine_def demo_zones_def or_int_def)

text \<open>Whatever a zone does to its clocks, a daily or quarterly run is strictly after the instant asked
  about, a daily run of a weekdays-only routine is never on a Saturday or Sunday of the zone, a routine
  that is not on the clock never has a next run, and a zone Intl does not know is the only error.\<close>

theorem daily_and_quarterly_move_forward:
  assumes "rt_frequency r = ''daily'' \<or> rt_frequency r = ''quarterly''"
  shows "case nextRunAt zones r from of
      Inl e \<Rightarrow> rt_trigger_kind r = ''clock'' \<and> zones (str_of (str_or (rt_timezone r) (Some ''UTC''))) = None
    | Inr None \<Rightarrow> True
    | Inr (Some t) \<Rightarrow> rt_trigger_kind r = ''clock'' \<and> from < t
        \<and> (rt_frequency r = ''daily'' \<and> rt_weekdays_only r \<longrightarrow>
             lp_dow (partsInZone (the (zones (str_of (str_or (rt_timezone r) (Some ''UTC''))))) t) \<notin> {0, 6})"
  using assms
  by (auto simp: nextRunAt_def daily_ok_def split: option.splits dest!: daily_after quarterly_after)

theorem daily_and_quarterly_move_forward_witness:
  "\<exists>t. nextRunAt demo_zones (demo_routine\<lparr>rt_frequency := ''daily''\<rparr>) 1773480000000 = Inr (Some t) \<and> 1773480000000 < t"
proof -
  have e: "nextRunAt demo_zones (demo_routine\<lparr>rt_frequency := ''daily''\<rparr>) 1773480000000 = Inr (Some 1773550800000)" by code_simp
  from daily_and_quarterly_move_forward [of "demo_routine\<lparr>rt_frequency := ''daily''\<rparr>" demo_zones 1773480000000]
  show ?thesis by (simp add: e)
qed

text \<open>
  The weekly rule does not look again at the instant it settles on. Where the clock skips the asked hour
  (here 00:00 on Sunday 2026-03-15, in a zone that moves from UTC-4 to UTC-3 at that instant), two
  corrections land an hour early, at or before \<open>from\<close>: the run is in the past.
\<close>

lemma weekly_gap_not_after:
  "nextRunAt demo_zones (demo_routine\<lparr>rt_timezone := Some ''Spring'', rt_at_time := Some ''00:00'', rt_day_of_week := Some 0\<rparr>)
     1773547140000 = Inr (Some 1773543600000)"
  by code_simp

lemma describe_examples:
  "describeTrigger demo_routine = ''Every Monday at 07:00''"
  "describeTrigger (demo_routine\<lparr>rt_trigger_kind := ''before_meeting'', rt_offset_minutes := Some 2880\<rparr>) = ''2d before each meeting''"
  by code_simp+

end
