(* ===== verification/Triggers.thy ===== *)
theory Triggers
  imports JsNumber
begin

text \<open>
  What starts an automation, \<^verbatim>\<open>packages/core/src/services/routineTriggers.mjs\<close>: the primary
  trigger and the extra ones in \<^verbatim>\<open>trigger_config.also\<close>, the query filter that finds the
  routines that may listen to a kind, and the merged rules of account signals, call recorders and
  meeting offsets. A routine is its row, read as the code reads it, field by field. The database is a
  parameter: its \<^verbatim>\<open>like\<close> and the text it gives a JSON value.
\<close>

section \<open>The triggers of a routine\<close>

definition SOLO_TRIGGER_KINDS :: "string list" where
  "SOLO_TRIGGER_KINDS = [''clock'', ''manual'', ''condition'']"

definition MAX_ALSO_TRIGGERS :: nat where "MAX_ALSO_TRIGGERS = 20"

definition isObj :: "jsval \<Rightarrow> bool" where
  "isObj v = (js_is_object v \<and> \<not> js_is_array v)"

definition solo :: "jsval \<Rightarrow> bool" where
  "solo kind = (kind \<in> JStr ` set SOLO_TRIGGER_KINDS)"

record trigger =
  tg_kind :: jsval
  tg_config :: jsval

fun without :: "string list \<Rightarrow> jsval \<Rightarrow> jsval" where
  "without ks (JObj kvs) = JObj (filter (\<lambda>kv. fst kv \<notin> set ks) kvs)"
| "without ks v = v"

definition obj_or_new :: "jsval \<Rightarrow> jsval" where
  "obj_or_new v = (if isObj v then v else JObj [])"

definition primaryTriggerConfig :: "jsval \<Rightarrow> jsval" where
  "primaryTriggerConfig routine = without [''also'', ''signal_keys''] (obj_or_new (js_prop routine ''trigger_config''))"

definition also_ok :: "jsval \<Rightarrow> bool" where
  "also_ok t = (isObj t \<and> (case js_prop t ''kind'' of JStr k \<Rightarrow> k \<noteq> [] | _ \<Rightarrow> False) \<and> \<not> solo (js_prop t ''kind''))"

definition alsoTriggers :: "jsval \<Rightarrow> trigger list" where
  "alsoTriggers routine =
     (if solo (js_prop routine ''trigger_kind'') then []
      else (case js_prop (js_prop routine ''trigger_config'') ''also'' of
        JArr ts \<Rightarrow> map (\<lambda>t. \<lparr>tg_kind = js_prop t ''kind'', tg_config = obj_or_new (js_prop t ''config'')\<rparr>)
                     (take MAX_ALSO_TRIGGERS (filter also_ok ts))
      | _ \<Rightarrow> []))"

definition routineTriggers :: "jsval \<Rightarrow> trigger list" where
  "routineTriggers routine =
     (if \<not> js_truthy (js_prop routine ''trigger_kind'') then []
      else \<lparr>tg_kind = js_prop routine ''trigger_kind'', tg_config = primaryTriggerConfig routine\<rparr> # alsoTriggers routine)"

definition triggerConfigsFor :: "jsval \<Rightarrow> string \<Rightarrow> jsval list" where
  "triggerConfigsFor routine kind = map tg_config (filter (\<lambda>t. tg_kind t = JStr kind) (routineTriggers routine))"

definition routineListensTo :: "jsval \<Rightarrow> string \<Rightarrow> bool" where
  "routineListensTo routine kind = (0 < length (triggerConfigsFor routine kind))"

section \<open>The query filter\<close>

datatype filter_error = NoTriggerKind

definition kind_char :: "char \<Rightarrow> bool" where
  "kind_char c = (in_ranges c [(CHR ''a'', CHR ''z'')] \<or> c = CHR ''_'')"

text \<open>\<^verbatim>\<open>/^[a-z_]+$/\<close>.\<close>

definition kind_word :: "string \<Rightarrow> bool" where
  "kind_word k = (k \<noteq> [] \<and> list_all kind_char k)"

definition filter_kinds :: "jsval \<Rightarrow> string list" where
  "filter_kinds kinds = js_uniq (filter kind_word (map js_tostring (if js_is_array kinds then js_elems kinds else [kinds])))"

text \<open>The alternatives of the filter, and their text.\<close>

datatype clause = KindEq string | KindIn "string list" | AlsoLike string

definition filter_clauses :: "string list \<Rightarrow> clause list" where
  "filter_clauses ks = (if length ks = 1 then KindEq (hd ks) else KindIn ks) # map AlsoLike ks"

primrec clause_text :: "clause \<Rightarrow> string" where
  "clause_text (KindEq k) = ''trigger_kind.eq.'' @ k"
| "clause_text (KindIn ks) = ''trigger_kind.in.('' @ js_join '','' ks @ '')''"
| "clause_text (AlsoLike k) = ''trigger_config->>also.like.*'' @ k @ ''*''"

definition listensToFilter :: "jsval \<Rightarrow> filter_error + string" where
  "listensToFilter kinds = (let ks = filter_kinds kinds in
     if ks = [] then Inl NoTriggerKind else Inr (js_join '','' (map clause_text (filter_clauses ks))))"

section \<open>Merged rules\<close>

definition str_list :: "jsval \<Rightarrow> string list" where
  "str_list v = filter (\<lambda>s. s \<noteq> []) (map js_tostring (js_elems v))"

text \<open>\<^verbatim>\<open>null\<close> (any) is \<open>None\<close>.\<close>

fun signal_scan :: "jsval list \<Rightarrow> string list \<Rightarrow> string list option" where
  "signal_scan [] out = Some (js_uniq out)"
| "signal_scan (c # cs) out =
     (let s = str_list (js_prop c ''signals'') in if s = [] then None else signal_scan cs (out @ s))"

definition accountSignalKinds :: "jsval \<Rightarrow> string list option" where
  "accountSignalKinds routine = (let cfgs = triggerConfigsFor routine ''account_signal'' in
     if cfgs = [] then Some [] else signal_scan cfgs [])"

definition recorder_list :: "jsval \<Rightarrow> bool \<Rightarrow> jsval \<Rightarrow> string list" where
  "recorder_list routine own c =
     (let tools = js_coalesce (js_coalesce (js_prop c ''tools'') (if own then js_prop routine ''tools'' else JNull)) (JArr [])
      in filter (\<lambda>s. s \<noteq> []) (map (to_lower \<circ> js_tostring) (js_elems tools)))"

definition star_or :: "string list \<Rightarrow> string list" where
  "star_or xs = (if xs = [] then [''*''] else xs)"

definition callRecorders :: "jsval \<Rightarrow> string list option" where
  "callRecorders routine =
     (let primary = (js_prop routine ''trigger_kind'' = JStr ''call_ended'');
          cfgs = triggerConfigsFor routine ''call_ended'';
          out = js_uniq (concat (map (\<lambda>(i, c). star_or (recorder_list routine (primary \<and> i = 0) c)) (enumerate 0 cfgs)))
      in if cfgs = [] then Some [] else if ''*'' \<in> set out then None else Some out)"

definition offset_of :: "jsval \<Rightarrow> bool \<Rightarrow> jsval \<Rightarrow> rat" where
  "offset_of routine own c =
     (case js_number (js_coalesce (js_coalesce (if own then js_prop routine ''offset_minutes'' else JNull)
         (js_prop c ''offset_minutes'')) (js_prop c ''offset'')) of
        None \<Rightarrow> 60 | Some n \<Rightarrow> if n = 0 then 60 else n)"

definition beforeMeetingOffset :: "jsval \<Rightarrow> rat option" where
  "beforeMeetingOffset routine =
     (let primary = (js_prop routine ''trigger_kind'' = JStr ''before_meeting'');
          cfgs = triggerConfigsFor routine ''before_meeting''
      in if cfgs = [] then None
         else Some (Max (set (map (\<lambda>(i, c). offset_of routine (i = 0 \<and> primary) c) (enumerate 0 cfgs)))))"

section \<open>Solo triggers stay alone\<close>

lemma also_mem:
  assumes "t \<in> set (alsoTriggers routine)"
  shows "\<exists>ts u. js_prop (js_prop routine ''trigger_config'') ''also'' = JArr ts \<and> u \<in> set ts \<and> also_ok u
    \<and> tg_kind t = js_prop u ''kind'' \<and> tg_config t = obj_or_new (js_prop u ''config'')"
  using assms
  by (cases "js_prop (js_prop routine ''trigger_config'') ''also''")
    (auto simp: alsoTriggers_def split: if_splits dest!: in_set_takeD)

text \<open>A routine on a clock, a button or a condition has exactly that one trigger; any other has its own
  trigger and at most twenty more, none of them a clock, a button or a condition.\<close>

theorem solo_triggers_stay_alone:
  "if \<not> js_truthy (js_prop routine ''trigger_kind'') then routineTriggers routine = []
   else if solo (js_prop routine ''trigger_kind'')
     then routineTriggers routine = [\<lparr>tg_kind = js_prop routine ''trigger_kind'', tg_config = primaryTriggerConfig routine\<rparr>]
   else length (routineTriggers routine) \<le> 21 \<and> list_all (\<lambda>t. \<not> solo (tg_kind t)) (routineTriggers routine)"
proof -
  have "\<not> solo (tg_kind t)" if "t \<in> set (alsoTriggers routine)" for t
    using also_mem [OF that] by (auto simp: also_ok_def)
  moreover have "length (alsoTriggers routine) \<le> 20"
    by (simp add: alsoTriggers_def MAX_ALSO_TRIGGERS_def split: jsval.split)
  moreover have "alsoTriggers routine = []" if "solo (js_prop routine ''trigger_kind'')" using that by (simp add: alsoTriggers_def)
  ultimately show ?thesis by (auto simp: routineTriggers_def list_all_iff)
qed

section \<open>The filter finds every listener\<close>

text \<open>What the database selects: one of the alternatives holds of the row.\<close>

definition clause_holds :: "(string \<Rightarrow> string \<Rightarrow> bool) \<Rightarrow> (jsval \<Rightarrow> string) \<Rightarrow> jsval \<Rightarrow> clause \<Rightarrow> bool" where
  "clause_holds like json routine cl = (case cl of
     KindEq k \<Rightarrow> js_prop routine ''trigger_kind'' = JStr k
   | KindIn ks \<Rightarrow> js_prop routine ''trigger_kind'' \<in> JStr ` set ks
   | AlsoLike k \<Rightarrow> like k (json (js_prop (js_prop routine ''trigger_config'') ''also'')))"

text \<open>Every routine that listens to one of the kinds asked for satisfies an alternative of the filter, so a
  runner that selects by the filter and then narrows with triggerConfigsFor misses nobody. The database
  is assumed to do what it documents: like finds a word inside a text, and the text of a JSON array
  holds every word that is a kind of one of its entries.\<close>

theorem filter_finds_every_listener:
  assumes like: "\<And>k s. js_includes k s \<Longrightarrow> like k s"
    and json: "\<And>ts t k. t \<in> set ts \<Longrightarrow> js_prop t ''kind'' = JStr k \<Longrightarrow> kind_word k \<Longrightarrow> js_includes k (json (JArr ts))"
    and k: "k \<in> set (filter_kinds kinds)" and listens: "routineListensTo routine k"
  shows "list_ex (clause_holds like json routine) (filter_clauses (filter_kinds kinds))"
proof -
  define ks where "ks = filter_kinds kinds"
  have kw: "kind_word k" using k by (auto simp: filter_kinds_def)
  from listens obtain t where t: "t \<in> set (routineTriggers routine)" "tg_kind t = JStr k"
    by (auto simp: routineListensTo_def triggerConfigsFor_def filter_empty_conv)
  show ?thesis
  proof (cases "js_prop routine ''trigger_kind'' = JStr k")
    case True
    have "clause_holds like json routine (if length ks = 1 then KindEq (hd ks) else KindIn ks)"
    proof (cases "length ks = 1")
      case one: True
      then obtain x where "ks = [x]" by (auto simp: length_Suc_conv)
      with k True show ?thesis by (simp add: clause_holds_def ks_def)
    next
      case False
      with k True show ?thesis by (simp add: clause_holds_def ks_def)
    qed
    then show ?thesis by (simp add: filter_clauses_def ks_def [symmetric])
  next
    case False
    with t have "t \<in> set (alsoTriggers routine)" by (auto simp: routineTriggers_def split: if_splits)
    from also_mem [OF this] obtain ts u where a: "js_prop (js_prop routine ''trigger_config'') ''also'' = JArr ts"
      "u \<in> set ts" "tg_kind t = js_prop u ''kind''" by blast
    have "js_includes k (json (JArr ts))" using json [OF a(2) _ kw] t(2) a(3) by simp
    then have "clause_holds like json routine (AlsoLike k)" using like by (simp add: clause_holds_def a(1))
    with k show ?thesis by (auto simp: filter_clauses_def list_ex_iff)
  qed
qed

definition demo_trigger_routine :: jsval where
  "demo_trigger_routine = JObj [(''trigger_kind'', JStr ''call_ended''), (''tools'', JArr [JStr ''Fathom'']),
     (''trigger_config'', JObj [(''also'', JArr [JObj [(''kind'', JStr ''account_signal'')],
        JObj [(''kind'', JStr ''account_signal''), (''config'', JObj [(''signals'', JArr [JStr ''deal_won''])])]])])]"

definition demo_json :: "jsval \<Rightarrow> string" where
  "demo_json v = (case v of JArr ts \<Rightarrow> concat (map (\<lambda>t. case js_prop t ''kind'' of JStr k \<Rightarrow> k | _ \<Rightarrow> []) ts) | _ \<Rightarrow> [])"

lemma includes_middle: "js_includes k (a @ k @ b)"
proof -
  have "starts_with k (k @ b)" by (simp add: starts_with_def)
  then show ?thesis unfolding js_includes_iff by blast
qed

theorem filter_finds_every_listener_witness:
  "list_ex (clause_holds js_includes demo_json demo_trigger_routine) (filter_clauses (filter_kinds (JStr ''account_signal'')))"
proof (rule filter_finds_every_listener [where k = "''account_signal''"])
  fix ts t k assume t: "t \<in> set ts" "js_prop t ''kind'' = JStr k"
  then obtain us vs where "ts = us @ t # vs" by (meson split_list)
  with t(2) show "js_includes k (demo_json (JArr ts))" by (simp add: demo_json_def includes_middle)
qed (assumption, code_simp, code_simp)

section \<open>A merged rule is the union of the rules\<close>

text \<open>One trigger alone, for a signal and for a recorder.\<close>

definition signal_matches :: "jsval \<Rightarrow> string \<Rightarrow> bool" where
  "signal_matches c s = (let xs = str_list (js_prop c ''signals'') in xs = [] \<or> s \<in> set xs)"

definition starts_on :: "string list option \<Rightarrow> string \<Rightarrow> bool" where
  "starts_on ks s = (case ks of None \<Rightarrow> True | Some xs \<Rightarrow> s \<in> set xs)"

lemma signal_scan_union:
  "starts_on (signal_scan cs out) s \<longleftrightarrow> s \<in> set out \<or> (\<exists>c \<in> set cs. signal_matches c s)"
  by (induction cs out rule: signal_scan.induct)
    (auto simp: starts_on_def signal_matches_def Let_def)

text \<open>The kinds merged over a routine's account-signal triggers start it on a signal exactly when one of those
  triggers alone would (a trigger with no filter starts on any signal), and a routine with no such
  trigger starts on none.\<close>

theorem merged_signals_are_union:
  "starts_on (accountSignalKinds routine) s \<longleftrightarrow> (\<exists>c \<in> set (triggerConfigsFor routine ''account_signal''). signal_matches c s)"
proof (cases "triggerConfigsFor routine ''account_signal'' = []")
  case True
  then show ?thesis by (simp add: accountSignalKinds_def starts_on_def)
next
  case False
  then show ?thesis using signal_scan_union [of "triggerConfigsFor routine ''account_signal''" "[]" s]
    by (simp add: accountSignalKinds_def)
qed

lemma merged_recorders_are_union:
  "starts_on (callRecorders routine) s \<longleftrightarrow>
    (\<exists>(i, c) \<in> set (enumerate 0 (triggerConfigsFor routine ''call_ended'')).
       (let xs = star_or (recorder_list routine (js_prop routine ''trigger_kind'' = JStr ''call_ended'' \<and> i = 0) c)
        in ''*'' \<in> set xs \<or> s \<in> set xs))
    \<or> (\<exists>(i, c) \<in> set (enumerate 0 (triggerConfigsFor routine ''call_ended'')).
       ''*'' \<in> set (star_or (recorder_list routine (js_prop routine ''trigger_kind'' = JStr ''call_ended'' \<and> i = 0) c)))"
  by (cases "triggerConfigsFor routine ''call_ended'' = []") (auto simp: callRecorders_def starts_on_def Let_def split: if_splits)

lemma demo_triggers:
  "accountSignalKinds demo_trigger_routine = None" "callRecorders demo_trigger_routine = Some [''fathom'']"
  "beforeMeetingOffset demo_trigger_routine = None"
  "listensToFilter (JArr [JStr ''call_ended'', JStr ''account_signal'']) = Inr
    ''trigger_kind.in.(call_ended,account_signal),trigger_config->>also.like.*call_ended*,trigger_config->>also.like.*account_signal*''"
  by code_simp+

end
