(* ===== verification/TaskStatus.thy ===== *)
theory TaskStatus
  imports JsNumber
begin

text \<open>
  Closing and reopening tasks, \<^verbatim>\<open>packages/core/src/services/taskStatus.mjs\<close>: the id of a
  task, the claim value after a status change, and a bulk change over the claims it reads, fifty ids
  at a time, and writes, ten at a time. The read of the claims and the success of each write are
  arguments. A claim's value is an object or null, as the column stores it.
\<close>

section \<open>Ids\<close>

definition task_hex :: rx where
  "task_hex = RCls False [(CHR ''0'', CHR ''9''), (CHR ''a'', CHR ''f'')]"

definition UUID :: rx where
  "UUID = rseq [RBeg, rrep 8 8 task_hex, lit ''-'', rrep 4 4 task_hex, lit ''-'', rrep 4 4 task_hex, lit ''-'',
     rrep 4 4 task_hex, lit ''-'', rrep 12 12 task_hex, REnd]"

definition ACTION_PREFIX :: string where "ACTION_PREFIX = ''action_item.''"

definition TASK_STATUSES :: "string list" where "TASK_STATUSES = [''open'', ''done'']"

text \<open>Before and after the first colon; no colon, or one at the front, is no id.\<close>

definition split_colon :: "string \<Rightarrow> (string \<times> string) option" where
  "split_colon s = (let e = takeWhile (\<lambda>c. c \<noteq> CHR '':'') s in
     if e = [] \<or> length e = length s then None else Some (e, drop (Suc (length e)) s))"

definition parseTaskId :: "jsval \<Rightarrow> (string \<times> string) option" where
  "parseTaskId v = Option.bind (js_str v) (\<lambda>s. Option.bind (split_colon s) (\<lambda>(e, p).
     if \<not> rx_test_i UUID e \<or> \<not> starts_with ACTION_PREFIX p \<or> 300 < length p then None else Some (e, p)))"

definition taskIdOf :: "string \<Rightarrow> string \<Rightarrow> string" where
  "taskIdOf e p = e @ '':'' @ p"

section \<open>The value after a change\<close>

definition kvs_of :: "jsval \<Rightarrow> (string \<times> jsval) list" where
  "kvs_of v = (case v of JObj kvs \<Rightarrow> kvs | _ \<Rightarrow> [])"

definition space_runs :: "string \<Rightarrow> string" where
  "space_runs s = rx_replace_all False (rplus space) '' '' s"

definition why_of :: "jsval \<Rightarrow> jsval" where
  "why_of reason = (case reason of JStr s \<Rightarrow> if js_trim s = [] then JNull else JStr (take 300 (js_trim (space_runs s)))
     | _ \<Rightarrow> JNull)"

definition statusValue :: "jsval \<Rightarrow> string \<Rightarrow> string \<Rightarrow> jsval \<Rightarrow> jsval" where
  "statusValue prev status now reason =
     (let p = js_coalesce prev (JObj []);
          done = (status = ''done'');
          kvs = [(''status'', JStr status),
                 (''completed_at'', if done then JStr now else JNull),
                 (''completed_reason'', if done then js_coalesce (why_of reason) (JStr ''you marked it done'') else JNull),
                 (''completed_by'', if done then JStr ''user'' else JNull),
                 (''completed_evidence'', if done then JNull else js_coalesce (js_prop p ''completed_evidence'') JNull),
                 (''reopened_at'', if status = ''open'' \<and> js_prop p ''status'' = JStr ''done'' then JStr now
                    else js_coalesce (js_prop p ''reopened_at'') JNull)]
                @ (if js_truthy (js_prop p ''suggested_done'') then [(''suggested_done'', JNull)] else [])
      in JObj (foldl (\<lambda>acc (k, v). kv_set acc k v) (kvs_of p) kvs))"

section \<open>A bulk change\<close>

record asked_task =
  ask_id :: string
  ask_parsed :: "(string \<times> string) option"

record task_claim =
  tc_id :: string
  tc_entity :: string
  tc_property :: string
  tc_value :: jsval

record task_write =
  tw_id :: string
  tw_claim :: string
  tw_prev :: jsval
  tw_value :: jsval

datatype bulk_error = InvalidId | NotFound | WriteFailed

datatype task_result = Closed string string | Refused string bulk_error

primrec result_id :: "task_result \<Rightarrow> string" where
  "result_id (Closed i s) = i"
| "result_id (Refused i e) = i"

definition claim_key :: "string \<Rightarrow> string \<Rightarrow> string" where
  "claim_key e p = e @ ''|'' @ p"

text \<open>\<^verbatim>\<open>new Map(rows.map(...))\<close>: of two rows under one key the last wins.\<close>

definition by_key :: "task_claim list \<Rightarrow> (string \<times> task_claim) list" where
  "by_key rows = foldl (\<lambda>m r. jm_set m (claim_key (tc_entity r) (tc_property r)) r) [] rows"

definition write_for :: "string \<Rightarrow> string \<Rightarrow> jsval \<Rightarrow> string \<Rightarrow> task_claim \<Rightarrow> task_write" where
  "write_for status now reason i row = \<lparr>tw_id = i, tw_claim = tc_id row, tw_prev = js_coalesce (tc_value row) (JObj []),
     tw_value = statusValue (tc_value row) status now reason\<rparr>"

fun plan_rows :: "(string \<times> task_claim) list \<Rightarrow> string \<Rightarrow> string \<Rightarrow> jsval \<Rightarrow> asked_task list
    \<Rightarrow> task_write list \<times> task_result list" where
  "plan_rows m status now reason [] = ([], [])"
| "plan_rows m status now reason (a # as) =
     (let (ws, rs) = plan_rows m status now reason as
      in case ask_parsed a of
           None \<Rightarrow> (ws, Refused (ask_id a) InvalidId # rs)
         | Some (e, p) \<Rightarrow>
            (case jm_get m (claim_key e p) of
               None \<Rightarrow> (ws, Refused (ask_id a) NotFound # rs)
             | Some row \<Rightarrow>
                 (write_for status now reason (ask_id a) row # ws,
                  Closed (ask_id a) status # rs)))"

definition planBulk :: "asked_task list \<Rightarrow> task_claim list \<Rightarrow> string \<Rightarrow> string \<Rightarrow> jsval
    \<Rightarrow> task_write list \<times> task_result list" where
  "planBulk asked rows status now reason = plan_rows (by_key rows) status now reason asked"

text \<open>The read of one slice: the entities and the properties asked for; an error of it is thrown.\<close>

fun read_slices :: "nat \<Rightarrow> (string list \<Rightarrow> string list \<Rightarrow> string + task_claim list) \<Rightarrow> (string \<times> string) list
    \<Rightarrow> task_claim list \<Rightarrow> string + task_claim list" where
  "read_slices 0 read ids acc = Inr acc"
| "read_slices (Suc n) read ids acc =
     (if ids = [] then Inr acc
      else case read (js_uniq (map fst (take 50 ids))) (js_uniq (map snd (take 50 ids))) of
             Inl e \<Rightarrow> Inl e
           | Inr data \<Rightarrow> read_slices n read (drop 50 ids) (acc @ data))"

text \<open>A slice takes at least one id, so as many rounds as ids are enough.\<close>

definition readTaskClaims :: "(string list \<Rightarrow> string list \<Rightarrow> string + task_claim list) \<Rightarrow> (string \<times> string) list
    \<Rightarrow> string + task_claim list" where
  "readTaskClaims read ids = read_slices (length ids) read ids []"

definition mark_failed :: "string list \<Rightarrow> task_result \<Rightarrow> task_result" where
  "mark_failed failed r = (if result_id r \<in> set failed then Refused (result_id r) WriteFailed else r)"

text \<open>
  The results, and the writes that were saved, for each of which \<^verbatim>\<open>onWritten\<close> runs; its
  errors are caught and change nothing. The ten writes of a batch do not depend on one another.
\<close>

definition applyBulkStatus ::
  "(string list \<Rightarrow> string list \<Rightarrow> string + task_claim list) \<Rightarrow> (task_write \<Rightarrow> bool) \<Rightarrow> asked_task list \<Rightarrow> string
    \<Rightarrow> string \<Rightarrow> jsval \<Rightarrow> task_claim list option \<Rightarrow> string + task_result list \<times> task_write list" where
  "applyBulkStatus read saved asked status now reason given =
     (case (case given of Some rows \<Rightarrow> Inr rows | None \<Rightarrow> readTaskClaims read (List.map_filter ask_parsed asked)) of
        Inl e \<Rightarrow> Inl e
      | Inr rows \<Rightarrow>
         (let (writes, results) = planBulk asked rows status now reason;
              failed = map tw_id (filter (\<lambda>w. \<not> saved w) writes)
          in Inr (map (mark_failed failed) results, filter saved writes)))"

section \<open>A task's id names its claim\<close>

lemma UUID_avoids: "rx_test_i UUID s \<Longrightarrow> CHR '':'' \<notin> set s \<and> CHR ''|'' \<notin> set s"
proof -
  assume m: "rx_test_i UUID s"
  obtain r where r: "UUID = RSeq RBeg r" "rx_ends r" "rx_avoids True CHR '':'' r" "rx_avoids True CHR ''|'' r"
  proof (rule that)
    show "UUID = RSeq RBeg (rseq [rrep 8 8 task_hex, lit ''-'', rrep 4 4 task_hex, lit ''-'', rrep 4 4 task_hex, lit ''-'',
      rrep 4 4 task_hex, lit ''-'', rrep 12 12 task_hex, REnd])" by (simp add: UUID_def)
  qed code_simp+
  with m show ?thesis unfolding rx_test_i_def by (metis anchored_avoids)
qed

lemma UUID_nonempty: "\<not> rx_test_i UUID []"
  by code_simp

lemma split_colon_app: "CHR '':'' \<notin> set e \<Longrightarrow> e \<noteq> [] \<Longrightarrow> split_colon (e @ CHR '':'' # p) = Some (e, p)"
proof -
  assume "CHR '':'' \<notin> set e" "e \<noteq> []"
  moreover from this have "takeWhile (\<lambda>c. c \<noteq> CHR '':'') (e @ CHR '':'' # p) = e"
    by (subst takeWhile_append2) auto
  ultimately show ?thesis by (simp add: split_colon_def Let_def)
qed

lemma split_colon_parts: "split_colon s = Some (e, p) \<Longrightarrow> s = e @ '':'' @ p"
proof -
  assume a: "split_colon s = Some (e, p)"
  then have e: "e = takeWhile (\<lambda>c. c \<noteq> CHR '':'') s" "length e < length s" "p = drop (Suc (length e)) s"
    using length_takeWhile_le [of "\<lambda>c. c \<noteq> CHR '':''" s] by (auto simp: split_colon_def Let_def split: if_splits)
  from e(1,2) have "s ! length e = CHR '':''" using nth_length_takeWhile [of "\<lambda>c. c \<noteq> CHR '':''" s] by simp
  with e(2) have "drop (length e) s = CHR '':'' # p" by (simp add: e(3) Cons_nth_drop_Suc [symmetric])
  moreover have "take (length e) s = e" using e(1) by (metis takeWhile_eq_take)
  ultimately show ?thesis by (metis append_Cons append_Nil append_take_drop_id)
qed

text \<open>A string is the id of a task exactly when it is \<open>taskIdOf\<close> of a UUID and an action-item property of
  at most 300 characters, and parsing it gives back that entity and property: parsing and building an
  id are inverse to each other.\<close>

theorem task_id_round_trip:
  "parseTaskId (JStr s) = Some (e, p) \<longleftrightarrow>
     s = taskIdOf e p \<and> rx_test_i UUID e \<and> starts_with ACTION_PREFIX p \<and> length p \<le> 300"
proof
  assume a: "parseTaskId (JStr s) = Some (e, p)"
  then have "split_colon s = Some (e, p)" "rx_test_i UUID e \<and> starts_with ACTION_PREFIX p \<and> length p \<le> 300"
    by (auto simp: parseTaskId_def bind_eq_Some_conv split: if_splits)
  with split_colon_parts [of s e p] show "s = taskIdOf e p \<and> rx_test_i UUID e \<and> starts_with ACTION_PREFIX p \<and> length p \<le> 300"
    by (simp add: taskIdOf_def)
next
  assume a: "s = taskIdOf e p \<and> rx_test_i UUID e \<and> starts_with ACTION_PREFIX p \<and> length p \<le> 300"
  then have "e \<noteq> []" using UUID_nonempty by auto
  with a UUID_avoids [of e] have "split_colon s = Some (e, p)" by (simp add: taskIdOf_def split_colon_app)
  with a show "parseTaskId (JStr s) = Some (e, p)" by (auto simp: parseTaskId_def)
qed

section \<open>Closing and reopening\<close>

lemma map_of_kv_sets:
  "map_of (foldl (\<lambda>acc (k, v). kv_set acc k v) kvs xs) k = (case map_of (rev xs) k of None \<Rightarrow> map_of kvs k | Some v \<Rightarrow> Some v)"
proof (induction xs arbitrary: kvs)
  case (Cons x xs)
  then show ?case by (cases x) (auto simp: map_of_kv_set split: option.split)
qed simp

lemma js_prop_kv_sets:
  "js_prop (JObj (foldl (\<lambda>acc (k, v). kv_set acc k v) (kvs_of v) xs)) k
    = (case map_of (rev xs) k of None \<Rightarrow> js_prop v k | Some x \<Rightarrow> x)"
  by (cases v) (simp_all add: kvs_of_def map_of_kv_sets split: option.split)

definition STATUS_FIELDS :: "string list" where
  "STATUS_FIELDS = [''status'', ''completed_at'', ''completed_reason'', ''completed_by'', ''completed_evidence'',
     ''reopened_at'', ''suggested_done'']"

lemma status_fields:
  "js_prop (statusValue prev status now reason) ''status'' = JStr status"
  "js_prop (statusValue prev status now reason) ''completed_at'' = (if status = ''done'' then JStr now else JNull)"
  "js_prop (statusValue prev status now reason) ''completed_by'' = (if status = ''done'' then JStr ''user'' else JNull)"
  "js_prop (statusValue prev status now reason) ''reopened_at'' =
     (if status = ''open'' \<and> js_prop (js_coalesce prev (JObj [])) ''status'' = JStr ''done'' then JStr now
      else js_coalesce (js_prop (js_coalesce prev (JObj [])) ''reopened_at'') JNull)"
  "k \<notin> set STATUS_FIELDS \<Longrightarrow> js_prop (statusValue prev status now reason) k = js_prop (js_coalesce prev (JObj [])) k"
  unfolding statusValue_def Let_def js_prop_kv_sets STATUS_FIELDS_def by simp_all

lemma done_fields:
  "js_prop (statusValue prev ''open'' now reason) ''completed_reason'' = JNull"
  "js_prop (statusValue prev ''done'' now reason) ''completed_evidence'' = JNull"
  "\<not> js_truthy (js_prop (statusValue prev status now reason) ''suggested_done'')"
  unfolding statusValue_def Let_def js_prop_kv_sets by simp_all

text \<open>Closing a task and then reopening it leaves it open, with no close recorded (no time, no reason, no
  one, and the evidence gone), no pending suggestion that looks done, the reopening dated, and every
  other field of the claim as it was before the close.\<close>

theorem close_then_reopen:
  assumes "v' = statusValue (statusValue v ''done'' t1 why) ''open'' t2 why'"
  shows "js_prop v' ''status'' = JStr ''open'' \<and> js_prop v' ''reopened_at'' = JStr t2
    \<and> js_prop v' ''completed_at'' = JNull \<and> js_prop v' ''completed_by'' = JNull \<and> js_prop v' ''completed_reason'' = JNull
    \<and> js_prop v' ''completed_evidence'' = JNull \<and> \<not> js_truthy (js_prop v' ''suggested_done'')
    \<and> (\<forall>k. k \<notin> set STATUS_FIELDS \<longrightarrow> js_prop v' k = js_prop (js_coalesce v (JObj [])) k)"
proof -
  define u where "u = statusValue v ''done'' t1 why"
  have u: "js_coalesce u (JObj []) = u" by (simp add: u_def statusValue_def Let_def js_coalesce_def)
  have "js_prop (statusValue u ''open'' t2 why') ''completed_evidence'' = js_coalesce (js_prop u ''completed_evidence'') JNull"
    unfolding statusValue_def [of u] Let_def js_prop_kv_sets u by simp
  moreover have "js_prop u ''completed_evidence'' = JNull" unfolding u_def by (rule done_fields)
  ultimately show ?thesis
    unfolding assms u_def [symmetric]
    using done_fields(1) [of u t2 why'] done_fields(3) [of u "''open''" t2 why'] status_fields(1-4) [of u "''open''" t2 why']
      status_fields(1) [of v "''done''" t1 why] status_fields(5) [of _ u "''open''" t2 why'] status_fields(5) [of _ v "''done''" t1 why]
    by (simp add: u u_def [symmetric]) (simp add: js_coalesce_def)
qed

definition demo_task :: jsval where
  "demo_task = JObj [(''title'', JStr ''send the deck''), (''status'', JStr ''open''), (''suggested_done'', JBool True)]"

theorem close_then_reopen_witness:
  "js_prop (statusValue (statusValue demo_task ''done'' ''2026-03-01'' JNull) ''open'' ''2026-03-02'' JNull) ''title'' = JStr ''send the deck''"
proof -
  have "''title'' \<notin> set STATUS_FIELDS" "js_prop (js_coalesce demo_task (JObj [])) ''title'' = JStr ''send the deck''"
    by code_simp+
  with close_then_reopen [OF refl, of demo_task "''2026-03-01''" JNull "''2026-03-02''" JNull] show ?thesis by metis
qed

section \<open>A bulk change settles every id once\<close>

lemma by_key_get:
  "jm_get (by_key rows) k = List.find (\<lambda>r. claim_key (tc_entity r) (tc_property r) = k) (rev rows)"
  unfolding by_key_def by (induction rows rule: rev_induct) (auto simp: jm_get_set)

lemma claim_key_inj:
  assumes "CHR ''|'' \<notin> set e" "CHR ''|'' \<notin> set e'" "claim_key e p = claim_key e' p'"
  shows "e = e' \<and> p = p'"
proof -
  have "takeWhile (\<lambda>c. c \<noteq> CHR ''|'') (x @ CHR ''|'' # y) = x" if "CHR ''|'' \<notin> set x" for x y
    using that by (subst takeWhile_append2) auto
  with assms have "e = e'" unfolding claim_key_def by (metis append_Cons append_Nil)
  with assms(3) show ?thesis by (simp add: claim_key_def)
qed

definition ask :: "string \<Rightarrow> asked_task" where
  "ask i = \<lparr>ask_id = i, ask_parsed = parseTaskId (JStr i)\<rparr>"

text \<open>What the result of one id says, over the claims read and the writes saved.\<close>

definition settles :: "task_claim list \<Rightarrow> (task_write \<Rightarrow> bool) \<Rightarrow> task_write list \<Rightarrow> string \<Rightarrow> string \<Rightarrow> jsval \<Rightarrow> task_result \<Rightarrow> bool" where
  "settles rows saved written status now reason r = (case r of
     Closed i s \<Rightarrow> s = status \<and> (\<exists>row \<in> set rows. taskIdOf (tc_entity row) (tc_property row) = i \<and>
       write_for status now reason i row \<in> set written)
   | Refused i InvalidId \<Rightarrow> parseTaskId (JStr i) = None
   | Refused i NotFound \<Rightarrow> \<not> (\<exists>row \<in> set rows. taskIdOf (tc_entity row) (tc_property row) = i)
   | Refused i WriteFailed \<Rightarrow> (\<exists>row \<in> set rows. taskIdOf (tc_entity row) (tc_property row) = i \<and>
       \<not> saved (write_for status now reason i row)))"

lemma uuid_id_inj:
  assumes "rx_test_i UUID e" "rx_test_i UUID e'" "taskIdOf e p = taskIdOf e' p'"
  shows "e = e' \<and> p = p'"
proof -
  have "split_colon (taskIdOf x y) = Some (x, y)" if "rx_test_i UUID x" for x y
  proof -
    have "x \<noteq> []" using that UUID_nonempty by auto
    then show ?thesis using UUID_avoids [OF that] by (simp add: taskIdOf_def split_colon_app)
  qed
  with assms show ?thesis by (metis option.inject prod.inject)
qed

lemma by_key_row:
  assumes "\<forall>row \<in> set rows. rx_test_i UUID (tc_entity row)" "rx_test_i UUID e"
  shows "case jm_get (by_key rows) (claim_key e p) of
      None \<Rightarrow> \<not> (\<exists>row \<in> set rows. taskIdOf (tc_entity row) (tc_property row) = taskIdOf e p)
    | Some row \<Rightarrow> row \<in> set rows \<and> taskIdOf (tc_entity row) (tc_property row) = taskIdOf e p"
proof (cases "jm_get (by_key rows) (claim_key e p)")
  case None
  then have "List.find (\<lambda>r. claim_key (tc_entity r) (tc_property r) = claim_key e p) (rev rows) = None"
    by (simp add: by_key_get)
  then have "\<forall>row \<in> set rows. claim_key (tc_entity row) (tc_property row) \<noteq> claim_key e p" by (auto simp: find_None_iff)
  then have "taskIdOf (tc_entity row) (tc_property row) \<noteq> taskIdOf e p" if "row \<in> set rows" for row
    using that uuid_id_inj [of "tc_entity row" e "tc_property row" p] assms by auto
  with None show ?thesis by simp
next
  case (Some row)
  then have f: "List.find (\<lambda>r. claim_key (tc_entity r) (tc_property r) = claim_key e p) (rev rows) = Some row"
    by (simp add: by_key_get)
  from find_Some_D [OF f] have r: "row \<in> set rows" "claim_key (tc_entity row) (tc_property row) = claim_key e p" by simp_all
  have "tc_entity row = e \<and> tc_property row = p"
    by (rule claim_key_inj [OF _ _ r(2)]) (use UUID_avoids assms r(1) in auto)
  with Some r(1) show ?thesis by simp
qed

lemma ask_simps: "ask_id (ask i) = i" "ask_parsed (ask i) = parseTaskId (JStr i)"
  by (simp_all add: ask_def)

lemma plan_rows_ids: "map result_id (snd (plan_rows m status now reason asked)) = map ask_id asked"
  by (induction asked) (auto simp: Let_def split: prod.splits option.splits)

text \<open>Each result of the plan, with the write it comes with.\<close>

lemma plan_rows_cases:
  assumes "plan_rows m status now reason (map ask ids) = (ws, rs)" "r \<in> set rs"
  shows "case r of
      Closed i s \<Rightarrow> s = status \<and> (\<exists>e p row. parseTaskId (JStr i) = Some (e, p) \<and> jm_get m (claim_key e p) = Some row
        \<and> write_for status now reason i row \<in> set ws)
    | Refused i InvalidId \<Rightarrow> parseTaskId (JStr i) = None
    | Refused i NotFound \<Rightarrow> (\<exists>e p. parseTaskId (JStr i) = Some (e, p) \<and> jm_get m (claim_key e p) = None)
    | Refused i WriteFailed \<Rightarrow> False"
  using assms
proof (induction ids arbitrary: ws rs)
  case (Cons i ids)
  obtain ws' rs' where p: "plan_rows m status now reason (map ask ids) = (ws', rs')" by fastforce
  show ?case
  proof (cases "r \<in> set rs'")
    case True
    have "set ws' \<subseteq> set ws" using Cons.prems(1) p by (auto simp: Let_def ask_simps split: option.splits)
    with Cons.IH [OF p True] show ?thesis by (auto split: task_result.splits bulk_error.splits)
  next
    case False
    with Cons.prems p show ?thesis
      by (auto simp: Let_def ask_simps split: option.splits)
  qed
qed simp

lemma plan_rows_writes:
  assumes "plan_rows m status now reason (map ask ids) = (ws, rs)" "w \<in> set ws"
  shows "\<exists>i e p row. i \<in> set ids \<and> parseTaskId (JStr i) = Some (e, p) \<and> jm_get m (claim_key e p) = Some row
    \<and> w = write_for status now reason i row"
  using assms
proof (induction ids arbitrary: ws rs)
  case (Cons i ids)
  obtain ws' rs' where p: "plan_rows m status now reason (map ask ids) = (ws', rs')" by fastforce
  show ?case
  proof (cases "w \<in> set ws'")
    case True
    then show ?thesis using Cons.IH [OF p] by auto
  next
    case False
    with Cons.prems p show ?thesis by (auto simp: Let_def ask_simps split: option.splits) blast
  qed
qed simp

lemma write_for_sel: "tw_id (write_for status now reason i row) = i" "tw_claim (write_for status now reason i row) = tc_id row"
  by (simp_all add: write_for_def)

lemma parse_spec:
  "parseTaskId (JStr i) = Some (e, q) \<Longrightarrow> i = taskIdOf e q \<and> rx_test_i UUID e"
  by (auto simp: parseTaskId_def bind_eq_Some_conv taskIdOf_def dest: split_colon_parts split: if_splits)

text \<open>A bulk change gives exactly one result for each id asked, in the order asked, and each says what
  happened: closed when the claim of that id was read and its write saved, with the value a single
  change gives; not found only when no claim read has that id; invalid only when the id does not parse;
  a failed write only when its write was not saved. Nothing else is written.\<close>

theorem bulk_settles_every_id:
  assumes rows: "\<forall>row \<in> set rows. rx_test_i UUID (tc_entity row)"
    and out: "applyBulkStatus read saved (map ask ids) status now reason (Some rows) = Inr (results, written)"
  shows "map result_id results = ids \<and> (\<forall>r \<in> set results. settles rows saved written status now reason r)
    \<and> (\<forall>w \<in> set written. \<exists>row \<in> set rows. tw_claim w = tc_id row \<and> tw_id w \<in> set ids)"
proof -
  define m where "m = by_key rows"
  obtain ws rs where p: "plan_rows m status now reason (map ask ids) = (ws, rs)" by fastforce
  define failed where "failed = map tw_id (filter (\<lambda>w. \<not> saved w) ws)"
  have o: "results = map (mark_failed failed) rs" "written = filter saved ws"
    using out p by (simp_all add: applyBulkStatus_def planBulk_def m_def failed_def)
  have "result_id (mark_failed failed r) = result_id r" for r by (simp add: mark_failed_def)
  then have ids: "map result_id results = ids" "map result_id rs = ids"
    using plan_rows_ids [of m status now reason "map ask ids"] by (simp_all add: p o(1) comp_def ask_simps)
  note get = by_key_row [OF rows, folded m_def]
  have found: "\<exists>i \<in> set ids. \<exists>row \<in> set rows. taskIdOf (tc_entity row) (tc_property row) = i
      \<and> w = write_for status now reason i row" if w: "w \<in> set ws" for w
  proof -
    from plan_rows_writes [OF p w] obtain i e q row where
      c: "i \<in> set ids" "parseTaskId (JStr i) = Some (e, q)" "jm_get m (claim_key e q) = Some row"
        "w = write_for status now reason i row" by blast
    from get [of e q] parse_spec [OF c(2)] have "row \<in> set rows" "taskIdOf (tc_entity row) (tc_property row) = i"
      by (simp_all add: c(3))
    with c(1,4) show ?thesis by blast
  qed
  have "settles rows saved written status now reason (mark_failed failed r)" if r: "r \<in> set rs" for r
  proof (cases "result_id r \<in> set failed")
    case True
    then obtain w where w: "w \<in> set ws" "\<not> saved w" "tw_id w = result_id r" by (auto simp: failed_def)
    from found [OF w(1)] obtain i row where f: "row \<in> set rows" "taskIdOf (tc_entity row) (tc_property row) = i"
      "w = write_for status now reason i row" by blast
    then have "result_id r = i" using w(3) by (simp add: write_for_sel)
    with True have "mark_failed failed r = Refused i WriteFailed" by (simp add: mark_failed_def)
    with f w(2) show ?thesis by (auto simp: settles_def)
  next
    case False
    then have mf: "mark_failed failed r = r" by (simp add: mark_failed_def)
    show ?thesis
    proof (cases r)
      case (Closed i s)
      with plan_rows_cases [OF p r] obtain e q row where c: "parseTaskId (JStr i) = Some (e, q)"
        "jm_get m (claim_key e q) = Some row" and w: "write_for status now reason i row \<in> set ws" and s: "s = status" by auto
      from False Closed w have "write_for status now reason i row \<in> set written"
        by (auto simp: failed_def o(2) write_for_sel intro: rev_image_eqI)
      moreover from get [of e q] parse_spec [OF c(1)]
      have "row \<in> set rows" "taskIdOf (tc_entity row) (tc_property row) = i" by (simp_all add: c(2))
      ultimately show ?thesis using s unfolding mf unfolding Closed by (auto simp: settles_def)
    next
      case (Refused i e)
      show ?thesis
      proof (cases e)
        case NotFound
        with plan_rows_cases [OF p r] Refused obtain x q where "parseTaskId (JStr i) = Some (x, q)"
          "jm_get m (claim_key x q) = None" by auto
        with get [of x q] parse_spec [of i x q] show ?thesis unfolding mf unfolding Refused NotFound by (simp add: settles_def)
      qed (use plan_rows_cases [OF p r] Refused mf in \<open>auto simp: settles_def\<close>)
    qed
  qed
  moreover have "\<exists>row \<in> set rows. tw_claim w = tc_id row \<and> tw_id w \<in> set ids" if "w \<in> set written" for w
    using found [of w] that by (auto simp: o(2) write_for_sel)
  ultimately show ?thesis using ids(1) by (auto simp: o(1))
qed

definition demo_claims :: "task_claim list" where
  "demo_claims = [\<lparr>tc_id = ''c1'', tc_entity = ''00000000-0000-0000-0000-00000000000a'', tc_property = ''action_item.deck'',
     tc_value = demo_task\<rparr>]"

definition demo_ids :: "string list" where
  "demo_ids = [''00000000-0000-0000-0000-00000000000a:action_item.deck'', ''nothing'']"

theorem bulk_settles_every_id_witness:
  "\<exists>results written. applyBulkStatus (\<lambda>_ _. Inl ''unread'') (\<lambda>_. True) (map ask demo_ids) ''done'' ''2026-03-01'' JNull (Some demo_claims)
     = Inr (results, written) \<and> map result_id results = demo_ids
   \<and> (case results of r # _ \<Rightarrow> settles demo_claims (\<lambda>_. True) written ''done'' ''2026-03-01'' JNull r | [] \<Rightarrow> False)"
proof -
  obtain rs ws where e: "applyBulkStatus (\<lambda>_ _. Inl ''unread'') (\<lambda>_. True) (map ask demo_ids) ''done'' ''2026-03-01'' JNull (Some demo_claims)
     = Inr (rs, ws)"
    by (cases "planBulk (map ask demo_ids) demo_claims ''done'' ''2026-03-01'' JNull") (simp add: applyBulkStatus_def)
  have "\<forall>row \<in> set demo_claims. rx_test_i UUID (tc_entity row)" by code_simp
  from bulk_settles_every_id [OF this e] have "map result_id rs = demo_ids"
    and r: "\<forall>r \<in> set rs. settles demo_claims (\<lambda>_. True) ws ''done'' ''2026-03-01'' JNull r" by simp_all
  moreover from this(1) obtain x xs where "rs = x # xs" by (cases rs) (auto simp: demo_ids_def)
  ultimately show ?thesis using e by auto
qed

end
