(* ===== verification/Visibility.thy ===== *)
theory Visibility
  imports MessagePrivacy JsNumber
begin

text \<open>
  Who reads which accounts: \<^verbatim>\<open>apps/api/src/lib/visibility.mjs\<close> (the workspace's open or
  closed policy and a member's book), \<^verbatim>\<open>apps/api/src/lib/ownerScope.mjs\<close> (the viewer as a
  CRM owner, the My book / Team scope and the Customer Success book) and
  \<^verbatim>\<open>inTouchEntityIds\<close> of \<^verbatim>\<open>packages/core/src/db/relationshipOwner.ts\<close>. The
  database is a record of the reads these functions make; a failed read gives no rows, as the code
  ignores its error.
\<close>

section \<open>The reads\<close>

record vis_db =
  vd_open :: "jsval option"
    \<comment> \<open>\<^verbatim>\<open>open_account_visibility\<close> of the workspace, none when its row is not read\<close>
  vd_owner_claims :: "(string \<times> jsval) list"
    \<comment> \<open>the live relationship-owner claims: entity and value\<close>
  vd_company_of :: "string \<Rightarrow> string option"
    \<comment> \<open>the company of a contact row, when it has one\<close>
  vd_has_contact :: "string \<Rightarrow> bool"
  vd_mapping :: "string \<Rightarrow> (string option \<times> string option) option"
    \<comment> \<open>the mapped CRM owner of a user: name and email\<close>
  vd_user_email :: "string \<Rightarrow> string option"
  vd_account_owners :: "(string option \<times> string option) list"
    \<comment> \<open>owner name and email of the account rows, in the order the query returns them\<close>

section \<open>In touch\<close>

definition in_touch_value :: "string \<Rightarrow> jsval \<Rightarrow> bool" where
  "in_touch_value viewer v = (js_truthy v \<and> (js_prop v ''primary'' = JStr viewer
     \<or> list_ex (\<lambda>m. js_prop m ''user_id'' = JStr viewer) (js_elems (js_prop v ''members''))))"

definition inTouchEntityIds :: "vis_db \<Rightarrow> string option \<Rightarrow> string list" where
  "inTouchEntityIds db viewer = (case viewer of None \<Rightarrow> []
     | Some u \<Rightarrow> if u = [] then [] else js_uniq (map fst (filter (\<lambda>c. in_touch_value u (snd c)) (vd_owner_claims db))))"

section \<open>visibility.mjs\<close>

record vis_scope =
  vs_open :: bool
  vs_restrict :: bool
  vs_viewer :: "string option"

definition is_open :: "vis_db \<Rightarrow> bool" where
  "is_open db = (vd_open db \<noteq> Some (JBool False))"

definition getVisibilityScope :: "vis_db \<Rightarrow> request \<Rightarrow> vis_scope" where
  "getVisibilityScope db rq =
     (let viewer = opt_or (rq_internalUserId rq) (rq_memberUserId rq)
      in \<lparr>vs_open = is_open db, vs_restrict = (\<not> is_open db \<and> rq_viewerScope rq = Some ''member'' \<and> nonempty viewer),
          vs_viewer = viewer\<rparr>)"

text \<open>The batches of two hundred contact ids: the companies they belong to.\<close>

fun company_batches :: "nat \<Rightarrow> vis_db \<Rightarrow> string list \<Rightarrow> string list" where
  "company_batches 0 db ids = []"
| "company_batches (Suc n) db ids =
     (if ids = [] then []
      else List.map_filter (\<lambda>i. if vd_has_contact db i then (case vd_company_of db i of Some c \<Rightarrow> if c = [] then None else Some c | None \<Rightarrow> None) else None)
             (take 200 ids) @ company_batches n db (drop 200 ids))"

text \<open>Contacts and companies; a batch takes at least one id, so as many rounds as ids are enough.\<close>

definition memberVisibleAccounts :: "vis_db \<Rightarrow> string option \<Rightarrow> string list \<times> string list" where
  "memberVisibleAccounts db viewer =
     (let contacts = inTouchEntityIds db viewer
      in (contacts, js_uniq (contacts @ company_batches (length contacts) db contacts)))"

definition entityVisibleToMember :: "vis_db \<Rightarrow> string option \<Rightarrow> string \<Rightarrow> bool \<Rightarrow> bool" where
  "entityVisibleToMember db viewer entity admin =
     (if entity = [] then False
      else if admin \<or> \<not> nonempty viewer then True
      else if is_open db then True
      else (let (contacts, companies) = memberVisibleAccounts db viewer
            in entity \<in> set companies \<or> entity \<in> set contacts))"

text \<open>\<open>None\<close> is \<^verbatim>\<open>{ unrestricted: true }\<close>.\<close>

definition viewerVisibleAccountSet :: "vis_db \<Rightarrow> string option \<Rightarrow> bool \<Rightarrow> string list option" where
  "viewerVisibleAccountSet db viewer admin =
     (if admin \<or> \<not> nonempty viewer then None
      else if is_open db then None
      else (let (contacts, companies) = memberVisibleAccounts db viewer in Some (js_uniq (companies @ contacts))))"

definition refuseTeamFeedToMember :: "vis_db \<Rightarrow> request \<Rightarrow> bool" where
  "refuseTeamFeedToMember db rq = vs_restrict (getVisibilityScope db rq)"

definition requestBook :: "vis_db \<Rightarrow> request \<Rightarrow> string list option" where
  "requestBook db rq = viewerVisibleAccountSet db (opt_or (rq_memberUserId rq) (rq_internalUserId rq))
     (rq_viewerScope rq = Some ''admin'')"

section \<open>ownerScope.mjs\<close>

record owner =
  ow_names :: "string list"
  ow_emails :: "string list"

definition ADMIN_SCOPES :: "string list" where "ADMIN_SCOPES = [''admin'', ''owner'']"

text \<open>\<^verbatim>\<open>[v].filter(Boolean)\<close>.\<close>

definition some_text :: "string option \<Rightarrow> string list" where
  "some_text v = (if nonempty v then [str_of v] else [])"

definition readMapping :: "vis_db \<Rightarrow> string \<Rightarrow> owner option" where
  "readMapping db user = (case vd_mapping db user of None \<Rightarrow> None
     | Some (name, email) \<Rightarrow> if some_text name \<noteq> [] \<or> some_text email \<noteq> []
         then Some \<lparr>ow_names = some_text name, ow_emails = some_text email\<rparr> else None)"

text \<open>
  The account row whose owner email the address matches. \<^verbatim>\<open>ilike\<close> compares without case, and
  reads \<^verbatim>\<open>%\<close> and \<^verbatim>\<open>_\<close> as wildcards; \<open>ilike\<close> is the database's, an argument.
\<close>

definition ownerByEmail :: "(string \<Rightarrow> string \<Rightarrow> bool) \<Rightarrow> vis_db \<Rightarrow> string option \<Rightarrow> owner option" where
  "ownerByEmail ilike db raw =
     (let email = to_lower (js_trim (str_of raw))
      in if email = [] then None
         else case filter (\<lambda>(n, e). e \<noteq> None \<and> ilike (str_of e) email) (vd_account_owners db) of
                [] \<Rightarrow> None
              | (n, e) # _ \<Rightarrow> if nonempty e then Some \<lparr>ow_names = some_text n, ow_emails = [str_of e]\<rparr> else None)"

definition matchByEmail :: "(string \<Rightarrow> string \<Rightarrow> bool) \<Rightarrow> vis_db \<Rightarrow> string \<Rightarrow> owner option" where
  "matchByEmail ilike db user = ownerByEmail ilike db (vd_user_email db user)"

text \<open>\<open>None\<close> is \<^verbatim>\<open>null\<close>: no filter.\<close>

definition resolveViewerOwner :: "(string \<Rightarrow> string \<Rightarrow> bool) \<Rightarrow> vis_db \<Rightarrow> request \<Rightarrow> owner option" where
  "resolveViewerOwner ilike db rq =
     (case rq_viewerScope rq of None \<Rightarrow> None
      | Some sc \<Rightarrow>
         if sc \<in> set ADMIN_SCOPES then None
         else (let user = opt_or (rq_internalUserId rq) (rq_memberUserId rq)
               in if \<not> nonempty user then None
                  else opt_or (readMapping db (str_of user)) (matchByEmail ilike db (str_of user))))"

record own_owner = owner +
  oo_placed :: "bool option"

definition resolveOwnOwner :: "(string \<Rightarrow> string \<Rightarrow> bool) \<Rightarrow> vis_db \<Rightarrow> request \<Rightarrow> bool \<Rightarrow> own_owner option" where
  "resolveOwnOwner ilike db rq withLoginEmail =
     (let user = opt_or (rq_internalUserId rq) (rq_memberUserId rq)
      in if \<not> nonempty user then None
         else (let mapped = readMapping db (str_of user);
                   email = vd_user_email db (str_of user);
                   found = opt_or mapped (ownerByEmail ilike db email);
                   login = to_lower (js_trim (str_of email))
               in if \<not> withLoginEmail
                  then map_option (\<lambda>w. \<lparr>ow_names = ow_names w, ow_emails = ow_emails w, oo_placed = None\<rparr>) found
                  else if found = None \<and> login = [] then None
                  else Some \<lparr>ow_names = (case found of None \<Rightarrow> [] | Some w \<Rightarrow> ow_names w),
                             ow_emails = js_uniq ((case found of None \<Rightarrow> [] | Some w \<Rightarrow> ow_emails w) @ (if login = [] then [] else [login])),
                             oo_placed = Some (found \<noteq> None)\<rparr>))"

definition readScope :: "string option \<Rightarrow> string option" where
  "readScope raw = (if raw = Some ''mine'' \<or> raw = Some ''team'' then raw else None)"

record scoped_owner =
  so_scope :: "string option"
  so_owner :: "owner option"
  so_unmapped :: bool

text \<open>\<open>threw\<close>: a read of the own owner threw, which \<^verbatim>\<open>.catch(() => null)\<close> turns into nobody.\<close>

definition resolveScopedOwner ::
  "(string \<Rightarrow> string \<Rightarrow> bool) \<Rightarrow> vis_db \<Rightarrow> request \<Rightarrow> string option \<Rightarrow> bool \<Rightarrow> bool \<Rightarrow> scoped_owner" where
  "resolveScopedOwner ilike db rq raw withLoginEmail threw =
     (let sc = readScope raw
      in if sc = Some ''team'' then \<lparr>so_scope = sc, so_owner = None, so_unmapped = False\<rparr>
         else if sc = Some ''mine''
         then (let w = (if threw then None else resolveOwnOwner ilike db rq withLoginEmail);
                   placed = (case w of None \<Rightarrow> False | Some x \<Rightarrow> (case oo_placed x of None \<Rightarrow> True | Some b \<Rightarrow> b))
               in \<lparr>so_scope = sc, so_owner = map_option owner.truncate w, so_unmapped = \<not> placed\<rparr>)
         else \<lparr>so_scope = None, so_owner = resolveViewerOwner ilike db rq, so_unmapped = False\<rparr>)"

record customer_row =
  cr_health_email :: "string option"
  cr_health_name :: "string option"
  cr_owner_email :: "string option"
  cr_owner_name :: "string option"

definition csBookMatcher :: "owner option \<Rightarrow> bool \<Rightarrow> bool \<Rightarrow> customer_row \<Rightarrow> bool" where
  "csBookMatcher viewer csOwned strict row =
     (let emails = map to_lower (case viewer of None \<Rightarrow> [] | Some w \<Rightarrow> ow_emails w);
          names = map to_lower (case viewer of None \<Rightarrow> [] | Some w \<Rightarrow> ow_names w);
          fb = (\<not> strict \<and> \<not> csOwned);
          e = to_lower (str_of (opt_or (cr_health_email row) (if fb then cr_owner_email row else Some '''')));
          n = to_lower (str_of (opt_or (cr_health_name row) (if fb then cr_owner_name row else Some '''')))
      in if e = [] \<and> n = [] then \<not> strict
         else (e \<noteq> [] \<and> e \<in> set emails) \<or> (n \<noteq> [] \<and> n \<in> set names))"

definition quoteList :: "string list \<Rightarrow> string" where
  "quoteList vs = js_join '','' (map (\<lambda>v. CHR 0x22 # filter (\<lambda>c. c \<noteq> CHR 0x22) v @ [CHR 0x22]) vs)"

definition ownerFilter :: "owner option \<Rightarrow> string option" where
  "ownerFilter w = (case w of None \<Rightarrow> None
     | Some x \<Rightarrow>
         (let parts = (if ow_names x = [] then [] else [''owner_name.in.('' @ quoteList (ow_names x) @ '')''])
                    @ (if ow_emails x = [] then [] else [''owner_email.in.('' @ quoteList (ow_emails x) @ '')''])
          in if parts = [] then None else Some (js_join '','' parts)))"

section \<open>A closed workspace\<close>

lemma set_company_batches:
  "length ids \<le> n \<Longrightarrow> set (company_batches n db ids)
     = {c. c \<noteq> [] \<and> (\<exists>i \<in> set ids. vd_has_contact db i \<and> vd_company_of db i = Some c)}"
proof (induction n arbitrary: ids)
  case (Suc n)
  show ?case
  proof (cases "ids = []")
    case False
    then have "length (drop 200 ids) \<le> n" using Suc.prems by (cases ids) auto
    note ih = Suc.IH [OF this]
    have "set ids = set (take 200 ids) \<union> set (drop 200 ids)" by (metis append_take_drop_id set_append)
    then show ?thesis using False ih
      by (auto simp: set_map_filter split: if_splits option.splits)
  qed simp
qed simp

text \<open>Every account or person this member may read in a closed workspace.\<close>

definition in_book :: "vis_db \<Rightarrow> string \<Rightarrow> string \<Rightarrow> bool" where
  "in_book db u e = (\<exists>(x, v) \<in> set (vd_owner_claims db). in_touch_value u v \<and>
     (e = x \<or> (e \<noteq> [] \<and> vd_has_contact db x \<and> vd_company_of db x = Some e)))"

lemma set_in_touch: "u \<noteq> [] \<Longrightarrow> set (inTouchEntityIds db (Some u)) = {x. \<exists>v. (x, v) \<in> set (vd_owner_claims db) \<and> in_touch_value u v}"
  by (force simp: inTouchEntityIds_def set_js_uniq)

lemma member_accounts:
  assumes "u \<noteq> []" "memberVisibleAccounts db (Some u) = (contacts, companies)"
  shows "e \<in> set companies \<or> e \<in> set contacts \<longleftrightarrow> in_book db u e"
proof -
  have c: "contacts = inTouchEntityIds db (Some u)"
    "companies = js_uniq (contacts @ company_batches (length contacts) db contacts)"
    using assms(2) by (auto simp: memberVisibleAccounts_def Let_def)
  have "set companies = set contacts \<union> {k. k \<noteq> [] \<and> (\<exists>i \<in> set contacts. vd_has_contact db i \<and> vd_company_of db i = Some k)}"
    by (simp add: c(2) set_js_uniq set_company_batches)
  then show ?thesis unfolding c(1) set_in_touch [OF assms(1)] in_book_def by auto
qed

text \<open>In a closed workspace a member who is not an admin reads exactly their book: the people and accounts
  whose relationship claim names them, and the companies those people belong to. The question about one
  entity and the set of all of them agree, so no caller sees more by asking the other way; the book of
  a request is that set.\<close>

theorem closed_workspace_is_own_book:
  assumes "\<not> is_open db" "u \<noteq> []" "e \<noteq> []"
    and "rq_memberUserId rq = Some u" "rq_viewerScope rq \<noteq> Some ''admin''"
  shows "(entityVisibleToMember db (Some u) e False \<longleftrightarrow> in_book db u e)
    \<and> (\<exists>ids. requestBook db rq = Some ids \<and> (e \<in> set ids \<longleftrightarrow> in_book db u e))"
proof -
  obtain contacts companies where m: "memberVisibleAccounts db (Some u) = (contacts, companies)" by fastforce
  note book = member_accounts [OF assms(2) m]
  have "entityVisibleToMember db (Some u) e False \<longleftrightarrow> in_book db u e"
    using assms m by (simp add: entityVisibleToMember_def book)
  moreover have "\<exists>ids. requestBook db rq = Some ids \<and> (e \<in> set ids \<longleftrightarrow> in_book db u e)"
    using assms m by (auto simp: requestBook_def viewerVisibleAccountSet_def set_js_uniq book [symmetric])
  ultimately show ?thesis ..
qed

definition demo_vis :: vis_db where
  "demo_vis = \<lparr>vd_open = Some (JBool False),
     vd_owner_claims = [(''p1'', JObj [(''primary'', JStr ''u1''), (''members'', JArr [])]), (''p2'', JObj [(''primary'', JStr ''u2'')])],
     vd_company_of = (\<lambda>i. if i = ''p1'' then Some ''acme'' else None), vd_has_contact = (\<lambda>_. True),
     vd_mapping = (\<lambda>_. None), vd_user_email = (\<lambda>_. Some ''john_doe@x.com''),
     vd_account_owners = [(Some ''Ann'', Some ''johnxdoe@x.com'')]\<rparr>"

definition demo_member :: request where
  "demo_member = \<lparr>rq_workspaceId = Some ''w'', rq_memberUserId = Some ''u1'', rq_internalUserId = None, rq_noContent = False,
     rq_viewerScope = Some ''member'', rq_openVisibility = None, rq_workspaceRole = None\<rparr>"

theorem closed_workspace_is_own_book_witness:
  "entityVisibleToMember demo_vis (Some ''u1'') ''acme'' False \<and> \<not> entityVisibleToMember demo_vis (Some ''u1'') ''p2'' False"
proof -
  have "\<not> is_open demo_vis" "rq_memberUserId demo_member = Some ''u1''" "rq_viewerScope demo_member \<noteq> Some ''admin''"
    by (simp_all add: demo_vis_def is_open_def demo_member_def)
  note book = closed_workspace_is_own_book [OF this(1) _ _ this(2,3), THEN conjunct1]
  have "in_book demo_vis ''u1'' ''acme''" "\<not> in_book demo_vis ''u1'' ''p2''" by code_simp+
  with book [of "''acme''"] book [of "''p2''"] show ?thesis by simp
qed

section \<open>My book\<close>

lemma ownerByEmail_named: "ownerByEmail ilike db raw = Some w \<Longrightarrow> ow_emails w \<noteq> []"
  by (auto simp: ownerByEmail_def Let_def split: if_splits list.splits prod.splits)

lemma readMapping_named: "readMapping db u = Some w \<Longrightarrow> ow_names w \<noteq> [] \<or> ow_emails w \<noteq> []"
  by (auto simp: readMapping_def split: option.splits prod.splits if_splits)

lemma found_named:
  "opt_or (readMapping db u) (ownerByEmail ilike db raw) = Some w \<Longrightarrow> ow_names w \<noteq> [] \<or> ow_emails w \<noteq> []"
  by (cases "readMapping db u") (auto dest: ownerByEmail_named readMapping_named)

lemma js_uniq_Nil: "js_uniq xs = [] \<longleftrightarrow> xs = []"
  by (metis set_empty set_js_uniq)

text \<open>A list asked for My book never answers with the team's: either it has a filter that names an owner, or
  it says the viewer could not be placed; a read that throws counts as not placed. Asked for the team
  there is no filter, and without a scope the rule is the viewer's own, unfiltered for an admin.\<close>

theorem my_book_is_never_the_team:
  "let so = resolveScopedOwner ilike db rq raw wl threw
   in if raw = Some ''mine'' then so_unmapped so \<or> (\<not> threw \<and> ownerFilter (so_owner so) \<noteq> None)
      else \<not> so_unmapped so \<and> so_owner so = (if raw = Some ''team'' then None else resolveViewerOwner ilike db rq)"
proof (cases "raw = Some ''mine''")
  case True
  define w where "w = resolveOwnOwner ilike db rq wl"
  show ?thesis
  proof (cases "threw \<or> (case w of None \<Rightarrow> True | Some x \<Rightarrow> oo_placed x = Some False)")
    case unplaced: True
    then show ?thesis using True
      by (auto simp: resolveScopedOwner_def readScope_def w_def Let_def split: option.splits)
  next
    case False
    then obtain x where x: "w = Some x" "oo_placed x \<noteq> Some False" "\<not> threw" by (auto split: option.splits)
    then have "ow_names x \<noteq> [] \<or> ow_emails x \<noteq> []"
      by (auto simp: w_def resolveOwnOwner_def Let_def js_uniq_Nil split: if_splits option.splits dest: found_named)
    then have "ownerFilter (Some (owner.truncate x)) \<noteq> None" by (auto simp: ownerFilter_def Let_def owner.truncate_def)
    then show ?thesis using True x by (simp add: resolveScopedOwner_def readScope_def w_def [symmetric] Let_def)
  qed
qed (simp add: resolveScopedOwner_def readScope_def Let_def)

text \<open>In the strict Customer Success book a customer is the viewer's only when its own Customer Success owner,
  by email or by name, is the viewer; the account executive never counts and a customer nobody owns is
  not shown.\<close>

theorem strict_cs_book:
  assumes "csBookMatcher viewer csOwned True row"
  shows "\<exists>w. viewer = Some w \<and>
     ((\<exists>e. cr_health_email row = Some e \<and> e \<noteq> [] \<and> to_lower e \<in> to_lower ` set (ow_emails w))
      \<or> (\<exists>n. cr_health_name row = Some n \<and> n \<noteq> [] \<and> to_lower n \<in> to_lower ` set (ow_names w)))"
proof -
  have l: "to_lower s = [] \<longleftrightarrow> s = []" for s by (simp add: to_lower_def)
  from assms show ?thesis
    by (cases viewer; cases "cr_health_email row"; cases "cr_health_name row")
      (auto simp: csBookMatcher_def Let_def l split: if_splits)
qed

theorem strict_cs_book_witness:
  "\<exists>w. Some \<lparr>ow_names = [''Ann''], ow_emails = []\<rparr> = Some w \<and> to_lower ''ANN'' \<in> to_lower ` set (ow_names w)"
proof -
  define row where "row = \<lparr>cr_health_email = None, cr_health_name = Some ''ANN'', cr_owner_email = Some ''ae@x.com'', cr_owner_name = None\<rparr>"
  have "csBookMatcher (Some \<lparr>ow_names = [''Ann''], ow_emails = []\<rparr>) True True row" unfolding row_def by code_simp
  from strict_cs_book [OF this] show ?thesis by (auto simp: row_def)
qed

text \<open>
  SQL's \<^verbatim>\<open>ILIKE\<close>, on lower-case text. The code matches an email with it and does not escape
  the address, so an underscore, common in addresses, stands for any character: the member
  \<^verbatim>\<open>john_doe\<close> is given the book of \<^verbatim>\<open>johnxdoe\<close>.
\<close>

fun sql_ilike :: "string \<Rightarrow> string \<Rightarrow> bool" where
  "sql_ilike s [] = (s = [])"
| "sql_ilike [] (p # ps) = (p = CHR ''%'' \<and> sql_ilike [] ps)"
| "sql_ilike (c # s) (p # ps) =
     (if p = CHR ''%'' then sql_ilike (c # s) ps \<or> sql_ilike s (p # ps)
      else (p = CHR ''_'' \<or> lower_char p = lower_char c) \<and> sql_ilike s ps)"

lemma underscore_takes_another_book:
  "resolveViewerOwner sql_ilike demo_vis demo_member = Some \<lparr>ow_names = [''Ann''], ow_emails = [''johnxdoe@x.com'']\<rparr>"
  by code_simp

end
