(* ===== verification/RuleChecks.thy ===== *)
theory RuleChecks
  imports Pipeline
begin

text \<open>
  The checks behind a checked rule, \<^verbatim>\<open>packages/core/src/services/ruleChecks.ts\<close>: the
  catalogue, the clamped parameter of a check, what is broken and what was checked and passes, and the
  priority of a broken rule. The rows the worker loads are arguments. The short date inside a message is
  \<^verbatim>\<open>Intl\<close>'s, the parameter \<open>short_day\<close>.
\<close>

abbreviation hour_ms :: int where "hour_ms \<equiv> 3600000"

definition RULE_LOOKBACK_DAYS :: int where "RULE_LOOKBACK_DAYS = 14"

section \<open>The catalogue\<close>

datatype check_param = Hours | Days

record check_spec =
  sp_label :: string
  sp_param :: check_param
  sp_default :: int
  sp_min :: int
  sp_max :: int
  sp_verifies :: string

definition param_name :: "check_param \<Rightarrow> string" where
  "param_name p = (case p of Hours \<Rightarrow> ''hours'' | Days \<Rightarrow> ''days'')"

definition RULE_CHECKS :: "(string \<times> check_spec) list" where
  "RULE_CHECKS =
    [(''next_step_after_meeting'', \<lparr>sp_label = ''Dated next step after every meeting'', sp_param = Hours, sp_default = 48,
       sp_min = 1, sp_max = 24 * 14,
       sp_verifies = ''Within N hours of a meeting you held, the account has a task with a due date from that meeting or later, or a next meeting booked.''\<rparr>),
     (''reply_to_buyer_email'', \<lparr>sp_label = ''Reply to buyer emails'', sp_param = Hours, sp_default = 24,
       sp_min = 1, sp_max = 24 * 14,
       sp_verifies = ''Every email thread where the buyer wrote last gets a reply from you within N hours.''\<rparr>),
     (''stage_without_meeting'', \<lparr>sp_label = ''No deal sits in a stage without a meeting'', sp_param = Days, sp_default = 21,
       sp_min = 1, sp_max = 365,
       sp_verifies = ''An open deal you own has had a meeting within N days of entering its current stage, or more recently than N days ago.''\<rparr>)]"

definition RULE_WEIGHTS :: "string list" where "RULE_WEIGHTS = [''low'', ''normal'', ''high'']"

record rule_check =
  ck_type :: string
  ck_param :: check_param
  ck_value :: int

definition normalizeCheck :: "jsval \<Rightarrow> jsval \<Rightarrow> rule_check option" where
  "normalizeCheck type params =
     (case Option.bind (js_str type) (\<lambda>s. map_option (Pair s) (map_of RULE_CHECKS s)) of
        None \<Rightarrow> None
      | Some (s, spec) \<Rightarrow>
         (let n = (case js_number (js_prop (js_coalesce params (JObj [])) (param_name (sp_param spec))) of
                     None \<Rightarrow> sp_default spec
                   | Some raw \<Rightarrow> if 0 < raw then js_round raw else sp_default spec)
          in Some \<lparr>ck_type = s, ck_param = sp_param spec, ck_value = min (sp_max spec) (max (sp_min spec) n)\<rparr>))"

section \<open>What the worker loads\<close>

record rule_row =
  ru_id :: string
  ru_user :: "string option"
  ru_kind :: string
  ru_check_type :: jsval
  ru_params :: jsval
  ru_status :: "string option"
  ru_removed :: "string option"

record held_meeting =
  hm_account :: string
  hm_key :: string
  hm_at :: string
  hm_owner :: "string option"
  hm_title :: "string option"

record account_task =
  at_account :: string
  at_occurred :: "string option"
  at_due :: "string option"

record booking =
  bk_account :: string
  bk_at :: string

record thread_mail =
  tm_account :: string
  tm_thread :: string
  tm_at :: string
  tm_owner :: "string option"
  tm_subject :: "string option"

record stage_account =
  sa_account :: string
  sa_name :: "string option"
  sa_stage :: string
  sa_entered :: "string option"
  sa_last_meeting :: "string option"
  sa_owner :: "string option"

record rule_data =
  rd_meetings :: "held_meeting list"
  rd_tasks :: "account_task list"
  rd_bookings :: "booking list"
  rd_inbound :: "thread_mail list"
  rd_outbound :: "thread_mail list"
  rd_accounts :: "stage_account list"

record violation =
  vi_rule :: string
  vi_account :: string
  vi_key :: string
  vi_due_at :: string
  vi_overdue :: int
  vi_reason :: string
  vi_task :: string
  vi_evidence :: jsval

text \<open>What the loop does with one instance: nothing, counts it as met, or flags it.\<close>

datatype instance_outcome = Passed_over | Met string | Broken violation

section \<open>The three checks\<close>

definition mine :: "rule_row \<Rightarrow> string option \<Rightarrow> bool" where
  "mine rule w = (\<not> nonempty (ru_user rule) \<or> w = ru_user rule)"

definition at_least :: "string option \<Rightarrow> int \<Rightarrow> bool" where
  "at_least w t = (case ms_of w of None \<Rightarrow> False | Some x \<Rightarrow> t \<le> x)"

definition after :: "string option \<Rightarrow> int \<Rightarrow> bool" where
  "after w t = (case ms_of w of None \<Rightarrow> False | Some x \<Rightarrow> t < x)"

definition in_quotes :: "string \<Rightarrow> string" where
  "in_quotes s = CHR 0x22 # s @ [CHR 0x22]"

definition opt_val :: "string option \<Rightarrow> jsval" where
  "opt_val s = (case s of None \<Rightarrow> JNull | Some x \<Rightarrow> JStr x)"

definition overdue :: "int \<Rightarrow> int \<Rightarrow> int" where
  "overdue now deadline = (now - deadline) div hour_ms"

text \<open>The first row of each key, as the loop's \<^verbatim>\<open>seen\<close> keeps it.\<close>

fun first_by :: "('a \<Rightarrow> 'k) \<Rightarrow> 'k list \<Rightarrow> 'a list \<Rightarrow> 'a list" where
  "first_by key seen [] = []"
| "first_by key seen (x # xs) = (if key x \<in> set seen then first_by key seen xs else x # first_by key (key x # seen) xs)"

definition meeting_key :: "held_meeting \<Rightarrow> string" where
  "meeting_key m = ''next_step_after_meeting:'' @ hm_key m"

definition has_next_step :: "rule_data \<Rightarrow> held_meeting \<Rightarrow> int \<Rightarrow> bool" where
  "has_next_step data m t =
     (list_ex (\<lambda>k. at_account k = hm_account m \<and> nonempty (at_due k) \<and> at_least (at_occurred k) (t - hour_ms)) (rd_tasks data)
      \<or> list_ex (\<lambda>b. bk_account b = hm_account m \<and> after (Some (bk_at b)) (t + hour_ms)) (rd_bookings data))"

definition check_meeting :: "(int \<Rightarrow> string) \<Rightarrow> rule_row \<Rightarrow> rule_data \<Rightarrow> int \<Rightarrow> int \<Rightarrow> held_meeting \<Rightarrow> instance_outcome" where
  "check_meeting short_day rule data now hours m =
     (case ms_of (Some (hm_at m)) of None \<Rightarrow> Passed_over
      | Some t \<Rightarrow>
         (let deadline = t + hours * hour_ms;
              name = (if nonempty (hm_title m) then in_quotes (str_of (hm_title m)) else ''the meeting'')
          in if t < now - RULE_LOOKBACK_DAYS * day_ms then Passed_over
             else if has_next_step data m t then Met (meeting_key m)
             else if now < deadline then Passed_over
             else Broken \<lparr>vi_rule = ru_id rule, vi_account = hm_account m, vi_key = meeting_key m, vi_due_at = iso_of deadline,
                    vi_overdue = overdue now deadline,
                    vi_reason = ''No dated next step after '' @ name @ '' on '' @ short_day t @ '' (your rule: within '' @ show_int hours @ ''h)'',
                    vi_task = ''Agree a dated next step after '' @ name @ '' ('' @ short_day t @ '')'',
                    vi_evidence = JObj [(''meeting'', JStr (hm_key m)), (''meeting_at'', JStr (hm_at m)), (''hours'', JNum (of_int hours))]\<rparr>))"

definition meetings_checked :: "rule_row \<Rightarrow> rule_data \<Rightarrow> held_meeting list" where
  "meetings_checked rule data =
     first_by hm_key [] (filter (\<lambda>m. ms_of (Some (hm_at m)) \<noteq> None \<and> mine rule (hm_owner m)) (rd_meetings data))"

text \<open>The newest mail of each thread; of two at the same instant the first stays.\<close>

definition keep_latest :: "(string \<times> thread_mail) list \<Rightarrow> thread_mail \<Rightarrow> (string \<times> thread_mail) list" where
  "keep_latest m e = (case jm_get m (tm_thread e) of
     None \<Rightarrow> jm_set m (tm_thread e) e
   | Some prev \<Rightarrow> if the (ms_of (Some (tm_at prev))) < the (ms_of (Some (tm_at e))) then jm_set m (tm_thread e) e else m)"

definition latest_inbound :: "rule_row \<Rightarrow> rule_data \<Rightarrow> (string \<times> thread_mail) list" where
  "latest_inbound rule data =
     foldl keep_latest [] (filter (\<lambda>e. mine rule (tm_owner e) \<and> ms_of (Some (tm_at e)) \<noteq> None) (rd_inbound data))"

definition thread_key :: "thread_mail \<Rightarrow> string" where
  "thread_key e = ''reply_to_buyer_email:'' @ tm_thread e"

definition replied :: "rule_data \<Rightarrow> thread_mail \<Rightarrow> int \<Rightarrow> bool" where
  "replied data e t =
     list_ex (\<lambda>r. (tm_thread r = tm_thread e \<or> tm_account r = tm_account e) \<and> after (Some (tm_at r)) t) (rd_outbound data)"

definition check_reply :: "(int \<Rightarrow> string) \<Rightarrow> rule_row \<Rightarrow> rule_data \<Rightarrow> int \<Rightarrow> int \<Rightarrow> thread_mail \<Rightarrow> instance_outcome" where
  "check_reply short_day rule data now hours e =
     (let t = the (ms_of (Some (tm_at e)));
          deadline = t + hours * hour_ms;
          what = (if nonempty (tm_subject e) then in_quotes (str_of (tm_subject e)) else ''their email'')
      in if t < now - RULE_LOOKBACK_DAYS * day_ms then Passed_over
         else if replied data e t then Met (thread_key e)
         else if now < deadline then Passed_over
         else Broken \<lparr>vi_rule = ru_id rule, vi_account = tm_account e, vi_key = thread_key e, vi_due_at = iso_of deadline,
                vi_overdue = overdue now deadline,
                vi_reason = ''No reply to '' @ what @ '' from '' @ short_day t @ '' (your rule: within '' @ show_int hours @ ''h)'',
                vi_task = ''Reply to '' @ what @ '' ('' @ short_day t @ '')'',
                vi_evidence = JObj [(''thread_id'', JStr (tm_thread e)), (''received_at'', JStr (tm_at e)), (''hours'', JNum (of_int hours))]\<rparr>)"

definition stage_key :: "stage_account \<Rightarrow> string" where
  "stage_key a = ''stage_without_meeting:'' @ sa_account a @ '':'' @ sa_stage a"

definition check_stage :: "(int \<Rightarrow> string) \<Rightarrow> rule_row \<Rightarrow> int \<Rightarrow> int \<Rightarrow> stage_account \<Rightarrow> instance_outcome" where
  "check_stage short_day rule now n a =
     (if \<not> mine rule (sa_owner a) \<or> sa_stage a = [] \<or> sa_stage a \<in> set DONE_STAGES then Passed_over
      else case ms_of (sa_entered a) of None \<Rightarrow> Passed_over
      | Some entered \<Rightarrow>
         (let lastm = ms_of (sa_last_meeting a);
              since = (case lastm of None \<Rightarrow> entered | Some x \<Rightarrow> max entered x);
              deadline = since + n * day_ms
          in if now < deadline then Met (stage_key a)
             else Broken \<lparr>vi_rule = ru_id rule, vi_account = sa_account a, vi_key = stage_key a, vi_due_at = iso_of deadline,
                    vi_overdue = overdue now deadline,
                    vi_reason = (case sa_name a of Some nm \<Rightarrow> nm | None \<Rightarrow> ''This deal'') @ '' has sat in '' @ sa_stage a @ '' since '' @ short_day entered
                      @ '' with no meeting'' @ (case lastm of Some x \<Rightarrow> if x = 0 then '''' else '' since '' @ short_day x | None \<Rightarrow> '''')
                      @ '' (your rule: within '' @ show_int n @ '' days)'',
                    vi_task = ''Book a meeting with '' @ (case sa_name a of Some nm \<Rightarrow> nm | None \<Rightarrow> ''this account'') @ '' (in '' @ sa_stage a
                      @ '' since '' @ short_day entered @ '')'',
                    vi_evidence = JObj [(''stage'', JStr (sa_stage a)), (''stage_entered_at'', opt_val (sa_entered a)),
                      (''last_meeting_at'', opt_val (sa_last_meeting a)), (''days'', JNum (of_int n))]\<rparr>))"

definition outcomes :: "(int \<Rightarrow> string) \<Rightarrow> rule_row \<Rightarrow> rule_data \<Rightarrow> int \<Rightarrow> rule_check \<Rightarrow> instance_outcome list" where
  "outcomes short_day rule data now ck =
     (if ck_type ck = ''next_step_after_meeting'' then map (check_meeting short_day rule data now (ck_value ck)) (meetings_checked rule data)
      else if ck_type ck = ''reply_to_buyer_email'' then map (check_reply short_day rule data now (ck_value ck)) (jm_values (latest_inbound rule data))
      else if ck_type ck = ''stage_without_meeting'' then map (check_stage short_day rule now (ck_value ck)) (rd_accounts data)
      else [])"

definition rule_runs :: "rule_row \<Rightarrow> bool" where
  "rule_runs rule = (ru_kind rule = ''checked'' \<and> \<not> nonempty (ru_removed rule) \<and> (case ru_status rule of None \<Rightarrow> True | Some s \<Rightarrow> s = ''active''))"

definition checkRule :: "(int \<Rightarrow> string) \<Rightarrow> rule_row \<Rightarrow> rule_data option \<Rightarrow> int \<Rightarrow> violation list \<times> string list" where
  "checkRule short_day rule data now =
     (if \<not> rule_runs rule then ([], [])
      else case (normalizeCheck (ru_check_type rule) (ru_params rule), data) of
        (Some ck, Some d) \<Rightarrow>
          (let os = outcomes short_day rule d now ck
           in (List.map_filter (\<lambda>oc. case oc of Broken v \<Rightarrow> Some v | _ \<Rightarrow> None) os,
               js_uniq (List.map_filter (\<lambda>oc. case oc of Met k \<Rightarrow> Some k | _ \<Rightarrow> None) os)))
      | _ \<Rightarrow> ([], []))"

definition evaluateRule :: "(int \<Rightarrow> string) \<Rightarrow> rule_row \<Rightarrow> rule_data option \<Rightarrow> int \<Rightarrow> violation list" where
  "evaluateRule short_day rule data now = fst (checkRule short_day rule data now)"

section \<open>Priority\<close>

definition WEIGHT_BASE :: "(string \<times> int) list" where
  "WEIGHT_BASE = [(''low'', 10), (''normal'', 20), (''high'', 30)]"

definition rulePriority :: "string option \<Rightarrow> int \<Rightarrow> int" where
  "rulePriority weight overdueHours =
     (let base = (case map_of WEIGHT_BASE (str_of weight) of Some b \<Rightarrow> b | None \<Rightarrow> 20)
      in base + min 9 (max 0 overdueHours div 24))"

section \<open>What is flagged is overdue and unmet\<close>

text \<open>An outcome speaks about the instance of one key.\<close>

definition speaks_of :: "string \<Rightarrow> instance_outcome \<Rightarrow> bool" where
  "speaks_of k oc = (case oc of Passed_over \<Rightarrow> True | Met k' \<Rightarrow> k' = k | Broken v \<Rightarrow> vi_key v = k)"

lemma speaks_meeting: "speaks_of (meeting_key m) (check_meeting short_day rule data now hours m)"
  by (auto simp: speaks_of_def check_meeting_def Let_def split: option.splits)

lemma speaks_reply: "speaks_of (thread_key e) (check_reply short_day rule data now hours e)"
  by (auto simp: speaks_of_def check_reply_def Let_def)

lemma speaks_stage: "speaks_of (stage_key a) (check_stage short_day rule now n a)"
  by (auto simp: speaks_of_def check_stage_def Let_def split: option.splits)

lemma broken_is_late:
  "check_meeting short_day rule data now hours m = Broken v \<Longrightarrow> vi_rule v = ru_id rule \<and> 0 \<le> vi_overdue v"
  "check_reply short_day rule data now hours e = Broken v \<Longrightarrow> vi_rule v = ru_id rule \<and> 0 \<le> vi_overdue v"
  "check_stage short_day rule now n a = Broken v \<Longrightarrow> vi_rule v = ru_id rule \<and> 0 \<le> vi_overdue v"
  by (auto simp: check_meeting_def check_reply_def check_stage_def overdue_def Let_def
      pos_imp_zdiv_nonneg_iff split: option.splits if_splits)

lemma first_by_key: "distinct (map key (first_by key seen xs)) \<and> key ` set (first_by key seen xs) \<inter> set seen = {}"
proof (induction key seen xs rule: first_by.induct)
  case (2 key seen x xs)
  then show ?case by (cases "key x \<in> set seen") auto
qed simp

lemma distinct_meetings: "distinct (map meeting_key (meetings_checked rule data))"
proof -
  have "distinct (map hm_key (meetings_checked rule data))" by (simp only: meetings_checked_def first_by_key [THEN conjunct1])
  then show ?thesis by (auto simp: distinct_map inj_on_def meeting_key_def)
qed

lemma latest_keys:
  "distinct (jm_keys (foldl keep_latest m es)) \<and> (\<forall>(k, e) \<in> set (foldl keep_latest m es). tm_thread e = k)"
  if "distinct (jm_keys m)" "\<forall>(k, e) \<in> set m. tm_thread e = k"
  using that
proof (induction es arbitrary: m)
  case (Cons e es)
  have "distinct (jm_keys (jm_set m (tm_thread e) e)) \<and> (\<forall>(k, x) \<in> set (jm_set m (tm_thread e) e). tm_thread x = k)"
  proof
    show "distinct (jm_keys (jm_set m (tm_thread e) e))" using Cons.prems(1) by (rule jm_distinct_set)
    show "\<forall>(k, x) \<in> set (jm_set m (tm_thread e) e). tm_thread x = k"
      using Cons.prems(2) by (induction m "tm_thread e" e rule: jm_set.induct) auto
  qed
  with Cons show ?case by (auto simp: keep_latest_def split: option.splits)
qed simp

lemma distinct_threads: "distinct (map thread_key (jm_values (latest_inbound rule data)))"
proof -
  define m where "m = latest_inbound rule data"
  have "distinct (jm_keys m)" "\<forall>(k, e) \<in> set m. tm_thread e = k"
    using latest_keys [of "[]"] by (auto simp: m_def latest_inbound_def jm_keys_def)
  moreover from this(2) have "map thread_key (jm_values m) = map (\<lambda>k. ''reply_to_buyer_email:'' @ k) (jm_keys m)"
    by (auto simp: jm_values_def jm_keys_def thread_key_def)
  ultimately show ?thesis by (simp add: m_def [symmetric] distinct_map inj_on_def)
qed

definition flagged :: "instance_outcome list \<Rightarrow> violation list" where
  "flagged os = List.map_filter (\<lambda>oc. case oc of Broken v \<Rightarrow> Some v | _ \<Rightarrow> None) os"

definition passed :: "instance_outcome list \<Rightarrow> string list" where
  "passed os = List.map_filter (\<lambda>oc. case oc of Met k \<Rightarrow> Some k | _ \<Rightarrow> None) os"

lemma flagged_simps [simp]:
  "flagged [] = []" "flagged (Broken v # os) = v # flagged os" "flagged (Met k # os) = flagged os"
  "flagged (Passed_over # os) = flagged os"
  "passed [] = []" "passed (Broken v # os) = passed os" "passed (Met k # os) = k # passed os"
  "passed (Passed_over # os) = passed os"
  by (simp_all add: flagged_def passed_def List.map_filter_simps)

lemma set_flagged: "v \<in> set (flagged os) \<longleftrightarrow> Broken v \<in> set os"
proof (induction os)
  case (Cons x os)
  then show ?case by (cases x) auto
qed simp

lemma set_passed: "k \<in> set (passed os) \<longleftrightarrow> Met k \<in> set os"
proof (induction os)
  case (Cons x os)
  then show ?case by (cases x) auto
qed simp

lemma once_each:
  assumes "\<And>x. speaks_of (key x) (f x)"
  shows "distinct (map key xs) \<Longrightarrow> distinct (map vi_key (flagged (map f xs)))
    \<and> set (map vi_key (flagged (map f xs))) \<inter> set (passed (map f xs)) = {}
    \<and> set (map vi_key (flagged (map f xs))) \<union> set (passed (map f xs)) \<subseteq> set (map key xs)"
proof (induction xs)
  case (Cons x xs)
  have "key x \<notin> key ` set xs" using Cons.prems by auto
  then show ?case using Cons assms [of x] by (cases "f x") (auto simp: speaks_of_def)
qed simp

lemma outcomes_once:
  assumes "distinct (map stage_key (rd_accounts d))"
  shows "distinct (map vi_key (flagged (outcomes short_day rule d now ck)))
    \<and> set (map vi_key (flagged (outcomes short_day rule d now ck))) \<inter> set (passed (outcomes short_day rule d now ck)) = {}"
  using once_each [OF speaks_meeting [of _ short_day rule d now "ck_value ck"] distinct_meetings [of rule d]]
    once_each [OF speaks_reply [of _ short_day rule d now "ck_value ck"] distinct_threads [of rule d]]
    once_each [OF speaks_stage [of _ short_day rule now "ck_value ck"] assms]
  by (auto simp: outcomes_def)

lemma outcome_flag:
  assumes "Broken v \<in> set (outcomes short_day rule d now ck)"
  shows "vi_rule v = ru_id rule \<and> 0 \<le> vi_overdue v"
  using assms broken_is_late by (auto simp: outcomes_def split: if_splits dest!: sym [of "Broken v"])

lemma checkRule_parts:
  "checkRule short_day rule (Some d) now =
    (if rule_runs rule then (case normalizeCheck (ru_check_type rule) (ru_params rule) of
        None \<Rightarrow> ([], []) | Some ck \<Rightarrow> (flagged (outcomes short_day rule d now ck), js_uniq (passed (outcomes short_day rule d now ck))))
     else ([], []))"
  by (simp add: checkRule_def flagged_def passed_def Let_def split: option.split)

text \<open>C23: A checked rule that runs flags each instance at most once, never one it also counts as met, and only
  for this rule and after its window ran out (never with a negative lateness); a guidance, paused or
  removed rule flags nothing. The rows of the stage check hold each account once.\<close>

theorem flagged_once_overdue_unmet:
  assumes "distinct (map stage_key (rd_accounts d))" "checkRule short_day rule (Some d) now = (broken, met)"
  shows "distinct (map vi_key broken) \<and> set (map vi_key broken) \<inter> set met = {}
    \<and> list_all (\<lambda>v. rule_runs rule \<and> vi_rule v = ru_id rule \<and> 0 \<le> vi_overdue v) broken"
proof (cases "rule_runs rule")
  case True
  show ?thesis
  proof (cases "normalizeCheck (ru_check_type rule) (ru_params rule)")
    case (Some ck)
    with assms(2) True have o: "broken = flagged (outcomes short_day rule d now ck)"
      "met = js_uniq (passed (outcomes short_day rule d now ck))" by (simp_all add: checkRule_parts)
    then show ?thesis using outcomes_once [OF assms(1), of short_day rule now ck] True outcome_flag
      by (auto simp: set_js_uniq list_all_iff set_flagged)
  qed (use assms(2) True in \<open>simp add: checkRule_parts\<close>)
qed (use assms(2) in \<open>simp add: checkRule_parts\<close>)

definition demo_rule :: rule_row where
  "demo_rule = \<lparr>ru_id = ''r1'', ru_user = Some ''u1'', ru_kind = ''checked'', ru_check_type = JStr ''next_step_after_meeting'',
     ru_params = JObj [(''hours'', JNum 24)], ru_status = None, ru_removed = None\<rparr>"

definition demo_rule_data :: rule_data where
  "demo_rule_data = \<lparr>rd_meetings = [\<lparr>hm_account = ''a1'', hm_key = ''m1'', hm_at = ''2026-03-10T09:00:00Z'', hm_owner = Some ''u1'', hm_title = None\<rparr>,
       \<lparr>hm_account = ''a2'', hm_key = ''m2'', hm_at = ''2026-03-10T09:00:00Z'', hm_owner = Some ''u1'', hm_title = None\<rparr>],
     rd_tasks = [\<lparr>at_account = ''a2'', at_occurred = Some ''2026-03-10T09:00:00Z'', at_due = Some ''2026-03-20''\<rparr>],
     rd_bookings = [], rd_inbound = [], rd_outbound = [], rd_accounts = []\<rparr>"

definition demo_now :: int where "demo_now = 1773396000000"

lemma demo_check:
  "map vi_key (fst (checkRule (\<lambda>_. ''10 Mar'') demo_rule (Some demo_rule_data) demo_now)) = [''next_step_after_meeting:m1'']"
  "snd (checkRule (\<lambda>_. ''10 Mar'') demo_rule (Some demo_rule_data) demo_now) = [''next_step_after_meeting:m2'']"
  by code_simp+

theorem flagged_once_overdue_unmet_witness:
  "\<exists>broken met. checkRule (\<lambda>_. ''10 Mar'') demo_rule (Some demo_rule_data) demo_now = (broken, met)
     \<and> map vi_key broken = [''next_step_after_meeting:m1''] \<and> ''next_step_after_meeting:m1'' \<notin> set met \<and> rule_runs demo_rule"
proof -
  obtain broken met where e: "checkRule (\<lambda>_. ''10 Mar'') demo_rule (Some demo_rule_data) demo_now = (broken, met)" by fastforce
  have "distinct (map stage_key (rd_accounts demo_rule_data))" by (simp add: demo_rule_data_def)
  from flagged_once_overdue_unmet [OF this e] demo_check e show ?thesis by (cases broken) auto
qed

section \<open>The meeting rule, exactly\<close>

text \<open>A meeting of the rule's owner is flagged exactly when it is within the last fourteen days, its window has
  run out, and the account has neither a dated task from the meeting or later nor a meeting booked after
  it; it counts as met exactly when it is within those days and has such a next step.\<close>

theorem next_step_rule_exact:
  assumes "rule_runs rule" "normalizeCheck (ru_check_type rule) (ru_params rule) = Some ck"
    and "ck_type ck = ''next_step_after_meeting''" "m \<in> set (meetings_checked rule d)" "ms_of (Some (hm_at m)) = Some t"
    and "checkRule short_day rule (Some d) now = (broken, met)"
  shows "(meeting_key m \<in> set (map vi_key broken) \<longleftrightarrow>
      now - 14 * day_ms \<le> t \<and> \<not> has_next_step d m t \<and> t + ck_value ck * hour_ms \<le> now)
    \<and> (meeting_key m \<in> set met \<longleftrightarrow> now - 14 * day_ms \<le> t \<and> has_next_step d m t)"
proof -
  define f where "f = check_meeting short_day rule d now (ck_value ck)"
  have o: "broken = flagged (map f (meetings_checked rule d))" "met = js_uniq (passed (map f (meetings_checked rule d)))"
    using assms by (simp_all add: checkRule_parts outcomes_def f_def)
  have only: "x = m" if "x \<in> set (meetings_checked rule d)" "meeting_key x = meeting_key m" for x
    using distinct_meetings [of rule d] assms(4) that by (auto simp: distinct_map inj_on_def)
  have speaks: "speaks_of (meeting_key x) (f x)" for x unfolding f_def by (rule speaks_meeting)
  have flag: "meeting_key m \<in> set (map vi_key broken) \<longleftrightarrow> (\<exists>v. f m = Broken v)"
  proof
    assume "meeting_key m \<in> set (map vi_key broken)"
    then obtain v x where v: "vi_key v = meeting_key m" "x \<in> set (meetings_checked rule d)" "f x = Broken v"
      unfolding o(1) by (auto simp: set_flagged)
    then have "x = m" using speaks [of x] by (intro only) (simp_all add: speaks_of_def)
    with v show "\<exists>v. f m = Broken v" by blast
  next
    assume "\<exists>v. f m = Broken v"
    then obtain v where v: "f m = Broken v" ..
    then have "v \<in> set broken" unfolding o(1) set_flagged using assms(4) by (metis image_eqI list.set_map)
    moreover have "vi_key v = meeting_key m" using speaks [of m] v by (simp add: speaks_of_def)
    ultimately show "meeting_key m \<in> set (map vi_key broken)" by (metis image_eqI list.set_map)
  qed
  have met: "meeting_key m \<in> set met \<longleftrightarrow> (\<exists>k. f m = Met k)"
  proof
    assume "meeting_key m \<in> set met"
    then obtain x where x: "x \<in> set (meetings_checked rule d)" "f x = Met (meeting_key m)"
      unfolding o(2) by (auto simp: set_passed set_js_uniq)
    then have "x = m" using speaks [of x] by (intro only) (simp_all add: speaks_of_def)
    with x show "\<exists>k. f m = Met k" by blast
  next
    assume "\<exists>k. f m = Met k"
    then obtain k where k: "f m = Met k" ..
    then have "k = meeting_key m" using speaks [of m] by (simp add: speaks_of_def)
    with k show "meeting_key m \<in> set met" unfolding o(2) set_js_uniq set_passed using assms(4) by (metis image_eqI list.set_map)
  qed
  show ?thesis
    unfolding flag met using assms(5) by (auto simp: f_def check_meeting_def Let_def RULE_LOOKBACK_DAYS_def)
qed

theorem next_step_rule_exact_witness:
  "\<exists>broken met. checkRule (\<lambda>_. ''10 Mar'') demo_rule (Some demo_rule_data) demo_now = (broken, met)
     \<and> ''next_step_after_meeting:m1'' \<in> set (map vi_key broken)"
proof -
  define m where "m = hd (rd_meetings demo_rule_data)"
  obtain broken met where e: "checkRule (\<lambda>_. ''10 Mar'') demo_rule (Some demo_rule_data) demo_now = (broken, met)" by fastforce
  have a: "rule_runs demo_rule" by code_simp
  have b: "normalizeCheck (ru_check_type demo_rule) (ru_params demo_rule)
      = Some \<lparr>ck_type = ''next_step_after_meeting'', ck_param = Hours, ck_value = 24\<rparr>" by code_simp
  have c: "m \<in> set (meetings_checked demo_rule demo_rule_data)" "ms_of (Some (hm_at m)) = Some 1773133200000"
    unfolding m_def by code_simp+
  have "\<not> has_next_step demo_rule_data m 1773133200000" "meeting_key m = ''next_step_after_meeting:m1''" unfolding m_def by code_simp+
  with next_step_rule_exact [OF a b _ c e] e show ?thesis by (simp add: demo_now_def)
qed

text \<open>
  The parameter may be as long as the lookback: a rule of fourteen days, the longest the catalogue
  allows, can flag a meeting only at the very millisecond its window ends.
\<close>

lemma longest_rule_never_flags:
  assumes "check_meeting short_day rule d now 336 m = Broken v" "ms_of (Some (hm_at m)) = Some t"
  shows "t = now - 14 * day_ms"
  using assms by (auto simp: check_meeting_def Let_def RULE_LOOKBACK_DAYS_def split: if_splits)

section \<open>Priority bands\<close>

text \<open>However late they are, a broken high rule outranks a normal one and a normal one a low one, an unknown
  weight counts as normal, and of one weight the later ranks no lower.\<close>

theorem priority_bands:
  "rulePriority (Some ''low'') a < rulePriority (Some ''normal'') b \<and> rulePriority (Some ''normal'') b < rulePriority (Some ''high'') c
   \<and> rulePriority None b = rulePriority (Some ''normal'') b \<and> mono (rulePriority w)"
proof -
  have prio: "rulePriority (Some ''low'') h = 10 + min 9 (max 0 h div 24)" "rulePriority (Some ''normal'') h = 20 + min 9 (max 0 h div 24)"
    "rulePriority (Some ''high'') h = 30 + min 9 (max 0 h div 24)" "rulePriority None h = 20 + min 9 (max 0 h div 24)" for h
    by (simp_all add: rulePriority_def WEIGHT_BASE_def)
  have late: "0 \<le> min 9 (max 0 h div 24) \<and> min 9 (max 0 h div 24) \<le> 9" for h :: int by (simp add: pos_imp_zdiv_nonneg_iff)
  have "mono (rulePriority w)"
    by (rule monoI) (auto simp: rulePriority_def Let_def intro!: min.mono zdiv_mono1)
  moreover have "rulePriority (Some ''low'') a < rulePriority (Some ''normal'') b" unfolding prio using late [of a] late [of b] by linarith
  moreover have "rulePriority (Some ''normal'') b < rulePriority (Some ''high'') c" unfolding prio using late [of b] late [of c] by linarith
  ultimately show ?thesis by (simp add: prio)
qed

end
