(* ===== verification/Identity.thy ===== *)
theory Identity
  imports JsRegex
begin

text \<open>
  Identity keys, \<^verbatim>\<open>packages/core/src/utils/identity.ts\<close>: what an identifier is, the
  domain and the normalised local part of an address, the unique match of an address to an existing
  person, and the key of a company's name. The path of a URL is the platform's \<^verbatim>\<open>URL\<close>, the
  parameter \<open>url_path\<close>, with no path for a text it refuses.
\<close>

section \<open>Identifiers\<close>

definition id_hex :: rx where
  "id_hex = RCls False [(CHR ''0'', CHR ''9''), (CHR ''a'', CHR ''f'')]"

definition ID_UUID_RE :: rx where
  "ID_UUID_RE = rseq [RBeg, rrep 8 8 id_hex, lit ''-'', rrep 4 4 id_hex, lit ''-'', rrep 4 4 id_hex, lit ''-'',
     rrep 4 4 id_hex, lit ''-'', rrep 12 12 id_hex, REnd]"

definition isUUID :: "string \<Rightarrow> bool" where "isUUID v = rx_test_i ID_UUID_RE v"

definition isEmail :: "string \<Rightarrow> bool" where "isEmail v = (CHR ''@'' \<in> set v)"

definition identifierType :: "string \<Rightarrow> string option" where
  "identifierType v = (if isUUID v then Some ''uuid'' else if isEmail v then Some ''email'' else None)"

definition IN_PATH :: rx where
  "IN_PATH = rseq [lit ''/in/'', RGroup 1 (rplus (RCls True [(CHR ''/'', CHR ''/'')]))]"

definition normaliseLinkedInUrl :: "(string \<Rightarrow> string option) \<Rightarrow> string option \<Rightarrow> string option" where
  "normaliseLinkedInUrl url_path raw =
     (if \<not> nonempty raw then None
      else let s = str_of raw in
        Option.bind (url_path (if starts_with ''http'' s then s else ''https://'' @ s)) (\<lambda>path.
        Option.bind (rx_exec False IN_PATH path) (\<lambda>caps.
        map_option (\<lambda>h. ''https://www.linkedin.com/in/'' @ (if starts_with ''acoa'' (to_lower h) then h else to_lower h))
          (rx_cap caps 1))))"

definition URN_SLUG :: rx where
  "URN_SLUG = rseq [lit ''/in/'', RGroup 1 (rplus (RCls True [(CHR ''/'', CHR ''/''), (CHR ''?'', CHR ''?''), (CHR ''#'', CHR ''#'')]))]"

definition isMemberUrnLinkedInUrl :: "string option \<Rightarrow> bool" where
  "isMemberUrnLinkedInUrl raw =
     (nonempty raw \<and> (case Option.bind (rx_exec True URN_SLUG (str_of raw)) (\<lambda>caps. rx_cap caps 1) of
        None \<Rightarrow> False | Some slug \<Rightarrow> starts_with ''acoaa'' (to_lower slug)))"

section \<open>Addresses\<close>

definition FREE_EMAIL_DOMAINS :: "string list" where
  "FREE_EMAIL_DOMAINS =
    [''gmail.com'', ''googlemail.com'', ''outlook.com'', ''hotmail.com'', ''hotmail.co.uk'',
     ''live.com'', ''msn.com'', ''yahoo.com'', ''yahoo.co.uk'', ''ymail.com'', ''icloud.com'',
     ''me.com'', ''mac.com'', ''aol.com'', ''proton.me'', ''protonmail.com'', ''gmx.com'',
     ''gmx.de'', ''gmx.net'', ''web.de'', ''mail.com'', ''zoho.com'', ''pm.me'', ''fastmail.com'']"

definition strip_www :: "string \<Rightarrow> string" where
  "strip_www s = (if starts_with ''www.'' s then drop 4 s else s)"

definition clean_domain :: "string \<Rightarrow> string" where
  "clean_domain s = strip_www (js_trim (to_lower s))"

definition isFreeEmailDomain :: "string option \<Rightarrow> bool" where
  "isFreeEmailDomain d = (nonempty d \<and> clean_domain (str_of d) \<in> set FREE_EMAIL_DOMAINS)"

text \<open>Around the last at sign; \<^verbatim>\<open>lastIndexOf\<close> is -1 when there is none.\<close>

definition after_at :: "string \<Rightarrow> string" where
  "after_at s = rev (takeWhile (\<lambda>c. c \<noteq> CHR ''@'') (rev s))"

definition before_at :: "string \<Rightarrow> string" where
  "before_at s = take (length s - Suc (length (after_at s))) s"

definition emailDomain :: "string option \<Rightarrow> string option" where
  "emailDomain email =
     (if \<not> nonempty email \<or> CHR ''@'' \<notin> set (str_of email) then None
      else let d = clean_domain (after_at (str_of email)) in if d = [] then None else Some d)"

definition companyDomainFromEmail :: "string option \<Rightarrow> string option" where
  "companyDomainFromEmail email =
     (case emailDomain email of None \<Rightarrow> None | Some d \<Rightarrow> if isFreeEmailDomain (Some d) then None else Some d)"

definition lower_letter :: "char \<Rightarrow> bool" where
  "lower_letter c = in_ranges c [(CHR ''a'', CHR ''z'')]"

definition normalizeEmailLocalPart :: "string option \<Rightarrow> string option" where
  "normalizeEmailLocalPart email =
     (let s = str_of email
      in if s = [] \<or> CHR ''@'' \<notin> set s \<or> before_at s = [] then None
         else (let base = takeWhile (\<lambda>c. c \<noteq> CHR ''+'') (to_lower (before_at s)); letters = filter lower_letter base
               in if 4 \<le> length letters then Some letters else None))"

definition TWO_PART :: "string list" where
  "TWO_PART = [''co'', ''com'', ''org'', ''net'', ''gov'', ''edu'', ''ac'']"

definition title_case :: "string \<Rightarrow> string" where
  "title_case w = (case w of [] \<Rightarrow> [] | c # r \<Rightarrow> upper_char c # r)"

text \<open>\<^verbatim>\<open>s.split(/[-_]+/).filter(Boolean)\<close>: the runs between the separators.\<close>

definition dash_words :: "string \<Rightarrow> string list" where
  "dash_words s = filter (\<lambda>w. w \<noteq> []) (concat (map (split_on CHR ''_'') (split_on CHR ''-'' s)))"

definition companyNameFromDomain :: "string option \<Rightarrow> string option" where
  "companyNameFromDomain domain =
     (let d = clean_domain (str_of domain); labels = filter (\<lambda>w. w \<noteq> []) (split_on CHR ''.'' d); n = length labels
      in if \<not> nonempty domain \<or> d = [] \<or> isFreeEmailDomain (Some d) \<or> n < 2 then None
         else (let sld = (if 3 \<le> n \<and> labels ! (n - 2) \<in> set TWO_PART then labels ! (n - 3) else labels ! (n - 2));
                   name = js_join '' '' (map title_case (dash_words sld))
               in if name = [] then None else Some name))"

section \<open>The match on the local part\<close>

definition identity_key :: "string \<Rightarrow> string \<Rightarrow> string" where
  "identity_key lp dm = lp @ ''|'' @ dm"

definition folded :: "string \<Rightarrow> string" where
  "folded e = js_trim (to_lower e)"

definition incoming_key :: "string \<Rightarrow> string option" where
  "incoming_key e = (case (normalizeEmailLocalPart (Some e), emailDomain (Some e)) of
     (Some lp, Some dm) \<Rightarrow> if isFreeEmailDomain (Some dm) then None else Some (identity_key lp dm)
   | _ \<Rightarrow> None)"

definition row_key :: "string \<Rightarrow> string option" where
  "row_key e = (case (normalizeEmailLocalPart (Some e), emailDomain (Some e)) of
     (Some lp, Some dm) \<Rightarrow> Some (identity_key lp dm) | _ \<Rightarrow> None)"

definition incoming_keys :: "string list \<Rightarrow> (string \<times> string) list" where
  "incoming_keys es = foldl (\<lambda>m e. case incoming_key e of None \<Rightarrow> m | Some k \<Rightarrow> jm_set m k (folded e)) [] es"

definition is_candidate :: "(string \<times> string) list \<Rightarrow> string \<Rightarrow> bool" where
  "is_candidate keys email = (case row_key email of None \<Rightarrow> False
     | Some k \<Rightarrow> (case jm_get keys k of None \<Rightarrow> False | Some raw \<Rightarrow> raw \<noteq> folded email))"

definition pickLocalPartMatch :: "string list \<Rightarrow> (string \<times> string) list \<Rightarrow> string option" where
  "pickLocalPartMatch incoming existing =
     (let keys = incoming_keys incoming;
          candidates = js_uniq (map fst (filter (\<lambda>(x, email). is_candidate keys email) existing))
      in if keys = [] then None else (case candidates of [x] \<Rightarrow> Some x | _ \<Rightarrow> None))"

section \<open>The key of a company's name\<close>

definition COMPANY_LEGAL_SUFFIXES :: "string list" where
  "COMPANY_LEGAL_SUFFIXES =
    [''inc'', ''incorporated'', ''llc'', ''l l c'', ''ltd'', ''limited'', ''plc'', ''gmbh'', ''ag'', ''bv'', ''nv'',
     ''sa'', ''sas'', ''srl'', ''spa'', ''ab'', ''as'', ''oy'', ''kk'', ''pty'', ''pte'', ''co'', ''corp'', ''corporation'',
     ''company'', ''holdings'', ''group'', ''labs'', ''technologies'', ''the'']"

definition BRAND_TLDS :: "string list" where
  "BRAND_TLDS = [''ai'', ''io'', ''com'', ''co'', ''app'', ''dev'', ''xyz'', ''net'', ''org'', ''sh'', ''so'', ''tech'']"

text \<open>\<^verbatim>\<open>/\.(ai|io|...)$/i\<close> removed from a word: what follows its last dot, when that is one of the list.\<close>

definition strip_tld :: "string \<Rightarrow> string" where
  "strip_tld w = (let tail = rev (takeWhile (\<lambda>c. c \<noteq> CHR ''.'') (rev w))
     in if length tail < length w \<and> to_lower tail \<in> set BRAND_TLDS then take (length w - Suc (length tail)) w else w)"

definition alnum_lower :: "char \<Rightarrow> bool" where
  "alnum_lower c = in_ranges c [(CHR ''a'', CHR ''z''), (CHR ''0'', CHR ''9'')]"

text \<open>\<^verbatim>\<open>s.split(/\s+/)\<close> of a trimmed text: the runs between white space.\<close>

fun ws_words :: "string \<Rightarrow> string \<Rightarrow> string list" where
  "ws_words w [] = [rev w]"
| "ws_words w (c # s) = (if is_ws c then rev w # ws_words [] s else ws_words (c # w) s)"

definition name_words :: "string \<Rightarrow> string list" where
  "name_words s = filter (\<lambda>w. w \<notin> set COMPANY_LEGAL_SUFFIXES) (filter (\<lambda>w. w \<noteq> [])
     (map (filter alnum_lower \<circ> strip_tld) (ws_words [] s)))"

definition companyNameKey :: "string option \<Rightarrow> string option" where
  "companyNameKey name =
     (let s = js_trim (to_lower (str_of name)); ws = name_words s; key = concat ws
      in if s = [] \<or> ws = [] \<or> length key < 3 then None else Some key)"

section \<open>Never guess\<close>




text \<open>No address of a mailbox provider is ever matched: the case the source's comment names is refused.\<close>

lemma free_domains_never_match: "incoming_key e = Some k \<Longrightarrow> \<not> isFreeEmailDomain (emailDomain (Some e))"
  by (auto simp: incoming_key_def split: option.splits if_splits)

lemma commented_case_not_caught:
  "pickLocalPartMatch [''fakelenaquist9@gmail.com''] [(''p1'', ''fakelenaquist15@gmail.com'')] = None"
  by code_simp

lemma identity_examples:
  "companyNameKey (Some ''Harborline.app'') = Some ''harborline''"
  "companyNameKey (Some ''Harborline, Inc.'') = Some ''harborline''" "companyNameKey (Some ''The Group'') = None"
  "companyNameFromDomain (Some ''mail.north-pine.co.uk'') = Some ''North Pine''"
  "companyDomainFromEmail (Some ''a@www.Acme.io'') = Some ''acme.io''" "companyDomainFromEmail (Some ''a@gmail.com'') = None"
  by code_simp+

end
