(* ===== verification/EmailThreads.thy ===== *)
theory EmailThreads
  imports Identity JsNumber
begin

text \<open>
  Which email threads are read, \<^verbatim>\<open>packages/core/src/services/emailThreadRules.mjs\<close>: machine
  and role senders, the key of a thread, the grouping of messages with duplicates folded, and the
  selection with its reasons. \<^verbatim>\<open>localeCompare\<close> is the engine's collation, the parameter \<open>le\<close>.
\<close>

section \<open>Senders\<close>

datatype machine_reason = Machine | Relay

definition MACHINE_DOMAINS :: "(string \<times> machine_reason) list" where
  "MACHINE_DOMAINS =
    [(''atlassian.net'', Machine), (''bamboohr.com'', Machine), (''fyxer.com'', Machine),
     (''zohosubscriptions.com'', Machine), (''accounts.google.com'', Machine), (''fellow.app'', Relay),
     (''ringcentral.com'', Relay), (''justcall.io'', Relay), (''intercom-mail.com'', Relay)]"

definition nth_or :: "string list \<Rightarrow> nat \<Rightarrow> string" where
  "nth_or xs i = (if i < length xs then xs ! i else [])"

definition machineDomainEntry :: "string option \<Rightarrow> (string \<times> machine_reason) option" where
  "machineDomainEntry fromAddr =
     (let domain = nth_or (split_on CHR ''@'' (to_lower (str_of fromAddr))) 1
      in if domain = [] then None
         else List.find (\<lambda>(suffix, reason). domain = suffix \<or> ends_with (CHR ''.'' # suffix) domain) MACHINE_DOMAINS)"

definition machineSenderReason :: "string option \<Rightarrow> machine_reason option" where
  "machineSenderReason fromAddr = map_option snd (machineDomainEntry fromAddr)"

definition ROLE_LOCAL_RE :: rx where
  "ROLE_LOCAL_RE = rseq [RBeg, RGroup 1 (ralt [lit ''support'', lit ''help'', lit ''info'', lit ''contact'', lit ''sales'', lit ''billing'',
     rseq [lit ''account'', ropt (lit ''s'')], lit ''admin'', lit ''team'', lit ''hello'', lit ''service'',
     rseq [rstar any_char, lit ''support''], rseq [rstar any_char, lit ''service'']]), REnd]"

definition isRoleInbox :: "string option \<Rightarrow> bool" where
  "isRoleInbox fromAddr =
     (let local_part = nth_or (split_on CHR ''@'' (to_lower (str_of fromAddr))) 0
      in local_part \<noteq> [] \<and> rx_test_i ROLE_LOCAL_RE local_part)"

definition MIN_THREAD_CHARS :: nat where "MIN_THREAD_CHARS = 400"

section \<open>The key of a thread\<close>

definition REPLY_PREFIX :: rx where
  "REPLY_PREFIX = rseq [RBeg, rplus (RGroup 1 (rseq [rstar space, RGroup 2 (ralt (map lit [''re'', ''fw'', ''fwd'', ''aw'', ''tr''])),
     rstar space, ropt (RGroup 3 (rseq [lit ''['', rplus digit, lit '']''])), rstar space, lit '':'', rstar space]))]"

definition normalizeSubject :: "string option \<Rightarrow> string" where
  "normalizeSubject subject =
     to_lower (js_trim (rx_replace_all False (rplus space) '' '' (rx_replace1 True REPLY_PREFIX '''' (str_of subject))))"

datatype side = Us | Them

record mail =
  ml_id :: string
  ml_entity :: "string option"
  ml_property :: string
  ml_observed :: "string option"
  ml_thread :: "string option"
  ml_from :: "string option"
  ml_to :: "string option"
  ml_subject :: "string option"
  ml_dedup :: "string option"
  ml_raw :: jsval
  ml_body :: "string option"

definition SENT :: string where "SENT = ''interaction.email_sent''"

definition isOwnEmail :: "string option \<Rightarrow> string list \<Rightarrow> bool" where
  "isOwnEmail email ownDomains = (case emailDomain email of None \<Rightarrow> False | Some d \<Rightarrow> d \<in> set ownDomains)"

definition sideOf :: "mail \<Rightarrow> string list \<Rightarrow> side" where
  "sideOf msg ownDomains =
     (if ml_property msg = SENT \<or> js_prop (ml_raw msg) ''is_outbound'' = JBool True then Us
      else if isOwnEmail (ml_from msg) ownDomains then Us else Them)"

definition threadKeyOf :: "mail \<Rightarrow> side \<Rightarrow> string option" where
  "threadKeyOf msg sd =
     (if nonempty (ml_thread msg) then Some (''tid:'' @ str_of (ml_thread msg))
      else (let subject = normalizeSubject (ml_subject msg); counterpart = (if sd = Us then ml_to msg else ml_from msg)
            in if subject = [] \<or> \<not> nonempty counterpart then None
               else Some (''subj:'' @ subject @ ''|'' @ to_lower (str_of counterpart))))"

section \<open>Grouping\<close>

record thread_mail_entry = mail +
  te_side :: side
  te_entities :: "string list"

record mail_thread =
  mt_key :: string
  mt_messages :: "thread_mail_entry list"
  mt_entities :: "string list"

definition dedup_of :: "('a mail_scheme) \<Rightarrow> string" where
  "dedup_of m = (if nonempty (ml_dedup m) then str_of (ml_dedup m) else ml_id m)"

definition add_id :: "string option \<Rightarrow> string list \<Rightarrow> string list" where
  "add_id x xs = (if nonempty x then (if str_of x \<in> set xs then xs else xs @ [str_of x]) else xs)"

definition entry_of :: "mail \<Rightarrow> side \<Rightarrow> thread_mail_entry" where
  "entry_of m sd = mail.extend m \<lparr>te_side = sd, te_entities = add_id (ml_entity m) []\<rparr>"

text \<open>
  The grouping so far: the threads in the order they were opened, and for each message kept the key of
  its thread under its dedup id. The code holds references to the entry and the thread; an entry is the
  one message of its thread with that dedup id.
\<close>

record grouping =
  gp_threads :: "(string \<times> mail_thread) list"
  gp_seen :: "(string \<times> string) list"

definition touch_thread :: "string \<Rightarrow> string option \<Rightarrow> mail_thread \<Rightarrow> mail_thread" where
  "touch_thread d x t = t\<lparr>mt_entities := add_id x (mt_entities t),
     mt_messages := map (\<lambda>m. if dedup_of m = d then m\<lparr>te_entities := add_id x (te_entities m)\<rparr> else m) (mt_messages t)\<rparr>"

definition add_mail :: "string list \<Rightarrow> mail \<Rightarrow> grouping \<Rightarrow> grouping" where
  "add_mail own m g =
     (let sd = sideOf m own; d = dedup_of m
      in case jm_get (gp_seen g) d of
           Some k \<Rightarrow> (case jm_get (gp_threads g) k of
               Some t \<Rightarrow> g\<lparr>gp_threads := jm_set (gp_threads g) k (touch_thread d (ml_entity m) t)\<rparr>
             | None \<Rightarrow> g)
         | None \<Rightarrow>
            (case threadKeyOf m sd of
               None \<Rightarrow> g
             | Some k \<Rightarrow>
                (let t = (case jm_get (gp_threads g) k of Some t \<Rightarrow> t | None \<Rightarrow> \<lparr>mt_key = k, mt_messages = [], mt_entities = []\<rparr>)
                 in g\<lparr>gp_threads := jm_set (gp_threads g) k
                        (t\<lparr>mt_messages := mt_messages t @ [entry_of m sd], mt_entities := add_id (ml_entity m) (mt_entities t)\<rparr>),
                      gp_seen := jm_set (gp_seen g) d k\<rparr>)))"

definition observed_text :: "('a mail_scheme) \<Rightarrow> string" where
  "observed_text m = (case ml_observed m of None \<Rightarrow> ''undefined'' | Some s \<Rightarrow> s)"

definition groupIntoThreads :: "(string \<Rightarrow> string \<Rightarrow> bool) \<Rightarrow> mail list \<Rightarrow> string list \<Rightarrow> mail_thread list" where
  "groupIntoThreads le messages own =
     map (\<lambda>t. t\<lparr>mt_messages := js_sort (\<lambda>a b. le (observed_text a) (observed_text b)) (mt_messages t)\<rparr>)
       (jm_values (gp_threads (foldl (\<lambda>g m. add_mail own m g) \<lparr>gp_threads = [], gp_seen = []\<rparr> messages)))"

section \<open>Selection\<close>

text \<open>The reasons, and the words a run reports them in.\<close>

datatype thread_skip = RelayedElsewhere | MachineSender | RoleInbox | OutboundOnly | NoExternalCounterpart
  | AlreadyHasClaims | NothingToRead

primrec skip_text :: "thread_skip \<Rightarrow> string" where
  "skip_text RelayedElsewhere = ''relayed from a source we already hold''"
| "skip_text MachineSender = ''machine sender''"
| "skip_text RoleInbox = ''role inbox '' @ [em_dash] @ '' no attributable subject''"
| "skip_text OutboundOnly = ''outbound only '' @ [em_dash] @ '' they never replied''"
| "skip_text NoExternalCounterpart = ''no external counterpart''"
| "skip_text AlreadyHasClaims = ''already has claims''"
| "skip_text NothingToRead = ''nothing to read''"

record thread_unit =
  tu_thread :: mail_thread
  tu_external :: "string list"
  tu_chars :: "nat option"

definition thread_chars :: "mail_thread \<Rightarrow> nat" where
  "thread_chars t = sum_list (map (\<lambda>m. length (str_of (ml_body m))) (mt_messages t))"

definition thread_loaded :: "mail_thread \<Rightarrow> bool" where
  "thread_loaded t = list_ex (\<lambda>m. ml_body m \<noteq> None) (mt_messages t)"

definition select_thread :: "string list \<Rightarrow> string list \<Rightarrow> mail_thread \<Rightarrow> thread_skip + thread_unit" where
  "select_thread externalIds extractedIds t =
     (case List.find (\<lambda>r. r \<noteq> None) (map (machineSenderReason \<circ> ml_from) (mt_messages t)) of
        Some (Some Relay) \<Rightarrow> Inl RelayedElsewhere
      | Some _ \<Rightarrow> Inl MachineSender
      | None \<Rightarrow>
         (let external = filter (\<lambda>i. i \<in> set externalIds) (mt_entities t)
          in if list_ex (isRoleInbox \<circ> ml_from) (mt_messages t) then Inl RoleInbox
             else if \<not> list_ex (\<lambda>m. te_side m = Them) (mt_messages t) then Inl OutboundOnly
             else if external = [] then Inl NoExternalCounterpart
             else if list_all (\<lambda>m. ml_id m \<in> set extractedIds) (mt_messages t) then Inl AlreadyHasClaims
             else if thread_loaded t \<and> thread_chars t < MIN_THREAD_CHARS then Inl NothingToRead
             else Inr \<lparr>tu_thread = t, tu_external = external, tu_chars = (if thread_loaded t then Some (thread_chars t) else None)\<rparr>))"

record selection =
  sl_units :: "thread_unit list"
  sl_skipped :: "(thread_skip \<times> nat) list"
  sl_skipped_threads :: "(mail_thread \<times> thread_skip) list"

definition lastAt :: "mail_thread \<Rightarrow> string option" where
  "lastAt t = (case mt_messages t of [] \<Rightarrow> None | ms \<Rightarrow> ml_observed (last ms))"

definition last_text :: "mail_thread \<Rightarrow> string" where
  "last_text t = (case lastAt t of None \<Rightarrow> ''null'' | Some s \<Rightarrow> s)"

definition count_skip :: "(thread_skip \<times> nat) list \<Rightarrow> thread_skip \<Rightarrow> (thread_skip \<times> nat) list" where
  "count_skip m r = jm_set m r (Suc (case jm_get m r of None \<Rightarrow> 0 | Some n \<Rightarrow> n))"

definition selectEmailThreads :: "(string \<Rightarrow> string \<Rightarrow> bool) \<Rightarrow> mail_thread list \<Rightarrow> string list \<Rightarrow> string list \<Rightarrow> selection" where
  "selectEmailThreads le threads externalIds extractedIds =
     (let judged = map (\<lambda>t. (t, select_thread externalIds extractedIds t)) threads;
          skips = List.map_filter (\<lambda>(t, r). case r of Inl why \<Rightarrow> Some (t, why) | Inr u \<Rightarrow> None) judged;
          units = List.map_filter (\<lambda>(t, r). case r of Inl why \<Rightarrow> None | Inr u \<Rightarrow> Some u) judged
      in \<lparr>sl_units = js_sort (\<lambda>a b. le (last_text (tu_thread b)) (last_text (tu_thread a))) units,
          sl_skipped = foldl count_skip [] (map snd skips), sl_skipped_threads = skips\<rparr>)"

section \<open>Every message is read once\<close>

definition dedups :: "mail_thread \<Rightarrow> string list" where
  "dedups t = map dedup_of (mt_messages t)"

definition grouping_ok :: "grouping \<Rightarrow> bool" where
  "grouping_ok g = (distinct (jm_keys (gp_threads g))
     \<and> (\<forall>k t. jm_get (gp_threads g) k = Some t \<longrightarrow> distinct (dedups t) \<and> (\<forall>d. d \<in> set (dedups t) \<longleftrightarrow> jm_get (gp_seen g) d = Some k))
     \<and> (\<forall>d k. jm_get (gp_seen g) d = Some k \<longrightarrow> jm_get (gp_threads g) k \<noteq> None))"

text \<open>The message, or its duplicate, is in a thread, with the contact it was filed on.\<close>

definition kept_in :: "mail_thread \<Rightarrow> mail \<Rightarrow> bool" where
  "kept_in t m = (\<exists>x \<in> set (mt_messages t). dedup_of x = dedup_of m
     \<and> (nonempty (ml_entity m) \<longrightarrow> str_of (ml_entity m) \<in> set (te_entities x) \<and> str_of (ml_entity m) \<in> set (mt_entities t)))"

definition kept :: "grouping \<Rightarrow> mail \<Rightarrow> bool" where
  "kept g m = (\<exists>k t. jm_get (gp_threads g) k = Some t \<and> kept_in t m)"

lemma set_add_id: "set (add_id x xs) = set xs \<union> (if nonempty x then {str_of x} else {})"
  by (auto simp: add_id_def)

lemma dedup_of_upd [simp]: "dedup_of (m\<lparr>te_entities := xs\<rparr>) = dedup_of m"
  by (simp add: dedup_of_def)

lemma dedup_of_entry [simp]: "dedup_of (entry_of m sd) = dedup_of m"
  by (simp add: dedup_of_def entry_of_def mail.extend_def)

lemma dedups_touch [simp]: "dedups (touch_thread d x t) = dedups t"
  by (simp add: dedups_def touch_thread_def comp_def if_distrib cong: if_cong)

lemma kept_in_touch: "kept_in t m \<Longrightarrow> kept_in (touch_thread d x t) m"
proof -
  assume "kept_in t m"
  then obtain y where y: "y \<in> set (mt_messages t)" "dedup_of y = dedup_of m"
    "nonempty (ml_entity m) \<longrightarrow> str_of (ml_entity m) \<in> set (te_entities y) \<and> str_of (ml_entity m) \<in> set (mt_entities t)"
    by (auto simp: kept_in_def)
  define z where "z = (if dedup_of y = d then y\<lparr>te_entities := add_id x (te_entities y)\<rparr> else y)"
  have "z \<in> set (mt_messages (touch_thread d x t))" using y(1) by (auto simp: z_def touch_thread_def)
  moreover have "dedup_of z = dedup_of m" "set (te_entities y) \<subseteq> set (te_entities z)" using y(2) by (auto simp: z_def set_add_id)
  moreover have "set (mt_entities t) \<subseteq> set (mt_entities (touch_thread d x t))" by (auto simp: touch_thread_def set_add_id)
  ultimately show ?thesis using y(3) unfolding kept_in_def by blast
qed

lemma touch_keeps_new:
  assumes "dedup_of m \<in> set (dedups t)"
  shows "kept_in (touch_thread (dedup_of m) (ml_entity m) t) m"
proof -
  from assms obtain y where y: "y \<in> set (mt_messages t)" "dedup_of y = dedup_of m" by (auto simp: dedups_def)
  define z where "z = y\<lparr>te_entities := add_id (ml_entity m) (te_entities y)\<rparr>"
  have "z \<in> set (mt_messages (touch_thread (dedup_of m) (ml_entity m) t))" using y by (force simp: touch_thread_def z_def)
  moreover have "dedup_of z = dedup_of m" "nonempty (ml_entity m) \<longrightarrow> str_of (ml_entity m) \<in> set (te_entities z)"
    using y(2) by (auto simp: z_def set_add_id)
  moreover have "nonempty (ml_entity m) \<longrightarrow> str_of (ml_entity m) \<in> set (mt_entities (touch_thread (dedup_of m) (ml_entity m) t))"
    by (simp add: touch_thread_def set_add_id)
  ultimately show ?thesis unfolding kept_in_def by blast
qed

lemma jm_set_ok:
  "grouping_ok g \<Longrightarrow> distinct (jm_keys (jm_set (gp_threads g) k t))"
  by (simp add: grouping_ok_def jm_distinct_set)

lemma add_mail_ok:
  assumes "grouping_ok g"
  shows "grouping_ok (add_mail own m g)"
    "threadKeyOf m (sideOf m own) \<noteq> None \<Longrightarrow> kept (add_mail own m g) m"
    "kept g m' \<Longrightarrow> kept (add_mail own m g) m'"
proof -
  define d where "d = dedup_of m"
  have "grouping_ok (add_mail own m g) \<and> (threadKeyOf m (sideOf m own) \<noteq> None \<longrightarrow> kept (add_mail own m g) m)
      \<and> (kept g m' \<longrightarrow> kept (add_mail own m g) m')"
  proof (cases "jm_get (gp_seen g) d")
    case (Some k)
    with assms have "jm_get (gp_threads g) k \<noteq> None" unfolding grouping_ok_def by blast
    then obtain t where t: "jm_get (gp_threads g) k = Some t" by blast
    then have a: "add_mail own m g = g\<lparr>gp_threads := jm_set (gp_threads g) k (touch_thread d (ml_entity m) t)\<rparr>"
      using Some by (simp add: add_mail_def Let_def d_def)
    have "d \<in> set (dedups t)" using assms t Some by (auto simp: grouping_ok_def)
    then have "kept (add_mail own m g) m" using touch_keeps_new [of m t] by (auto simp: a kept_def d_def jm_get_set)
    moreover have "grouping_ok (add_mail own m g)"
      using assms t jm_set_ok [OF assms] by (auto simp: a grouping_ok_def jm_get_set)
    moreover have "kept (add_mail own m g) m'" if "kept g m'"
    proof -
      from that obtain k' t' where "jm_get (gp_threads g) k' = Some t'" "kept_in t' m'" by (auto simp: kept_def)
      then show ?thesis using t kept_in_touch by (cases "k' = k") (auto simp: a kept_def jm_get_set)
    qed
    ultimately show ?thesis by blast
  next
    case None
    show ?thesis
    proof (cases "threadKeyOf m (sideOf m own)")
      case None2: None
      then show ?thesis using None assms by (simp add: add_mail_def Let_def d_def)
    next
      case (Some k)
      define t where "t = (case jm_get (gp_threads g) k of Some t \<Rightarrow> t | None \<Rightarrow> \<lparr>mt_key = k, mt_messages = [], mt_entities = []\<rparr>)"
      define t' where "t' = t\<lparr>mt_messages := mt_messages t @ [entry_of m (sideOf m own)], mt_entities := add_id (ml_entity m) (mt_entities t)\<rparr>"
      have a: "add_mail own m g = g\<lparr>gp_threads := jm_set (gp_threads g) k t', gp_seen := jm_set (gp_seen g) d k\<rparr>"
        using None Some by (simp add: add_mail_def Let_def d_def t_def t'_def)
      have dd: "dedups t' = dedups t @ [d]" by (simp add: dedups_def t'_def d_def)
      have t: "distinct (dedups t) \<and> (\<forall>x. x \<in> set (dedups t) \<longleftrightarrow> jm_get (gp_seen g) x = Some k)"
      proof (cases "jm_get (gp_threads g) k")
        case None2: None
        then have "jm_get (gp_seen g) x \<noteq> Some k" for x using assms unfolding grouping_ok_def by (metis None2)
        then show ?thesis using None2 by (simp add: t_def dedups_def)
      next
        case (Some u)
        then show ?thesis using assms by (auto simp: t_def grouping_ok_def)
      qed
      have ok: "grouping_ok (add_mail own m g)"
        using assms t None jm_set_ok [OF assms, of k t'] unfolding a grouping_ok_def by (auto simp: jm_get_set dd)
      have "kept_in t' m"
        unfolding kept_in_def by (intro bexI [of _ "entry_of m (sideOf m own)"])
          (auto simp: t'_def set_add_id, simp add: entry_of_def mail.extend_def set_add_id)
      then have "kept (add_mail own m g) m" by (auto simp: a kept_def jm_get_set)
      moreover have "kept (add_mail own m g) m'" if "kept g m'"
      proof -
        from that obtain k' u where u: "jm_get (gp_threads g) k' = Some u" "kept_in u m'" by (auto simp: kept_def)
        have "kept_in t' m'" if "k' = k" using u that by (force simp: t_def t'_def kept_in_def set_add_id)
        with u show ?thesis by (cases "k' = k") (auto simp: a kept_def jm_get_set)
      qed
      ultimately show ?thesis using ok by blast
    qed
  qed
  then show "grouping_ok (add_mail own m g)"
    "threadKeyOf m (sideOf m own) \<noteq> None \<Longrightarrow> kept (add_mail own m g) m" "kept g m' \<Longrightarrow> kept (add_mail own m g) m'" by auto
qed

lemma fold_mail_ok:
  "grouping_ok (foldl (\<lambda>g m. add_mail own m g) \<lparr>gp_threads = [], gp_seen = []\<rparr> ms)
   \<and> (\<forall>m \<in> set ms. threadKeyOf m (sideOf m own) \<noteq> None \<longrightarrow> kept (foldl (\<lambda>g m. add_mail own m g) \<lparr>gp_threads = [], gp_seen = []\<rparr> ms) m)"
proof (induction ms rule: rev_induct)
  case Nil
  show ?case by (simp add: grouping_ok_def jm_keys_def)
next
  case (snoc m ms)
  then show ?case using add_mail_ok by simp
qed

text \<open>C25: The messages of the threads are each read once: no two of them, in one thread or in two, are copies of
  the same mail, and every message that can be filed is in a thread, itself or a copy of it, with its
  own contact among those of the message and of the thread. The order of the messages is that of the
  collation.\<close>

theorem every_mail_is_read_once:
  "distinct (concat (map dedups (groupIntoThreads le messages own)))
   \<and> (\<forall>m \<in> set (filter (\<lambda>m. threadKeyOf m (sideOf m own) \<noteq> None) messages). \<exists>t \<in> set (groupIntoThreads le messages own). kept_in t m)"
proof -
  define g where "g = foldl (\<lambda>g m. add_mail own m g) \<lparr>gp_threads = [], gp_seen = []\<rparr> messages"
  define s :: "mail_thread \<Rightarrow> mail_thread" where "s = (\<lambda>t. t\<lparr>mt_messages := js_sort (\<lambda>a b. le (observed_text a) (observed_text b)) (mt_messages t)\<rparr>)"
  have gr: "groupIntoThreads le messages own = map s (jm_values (gp_threads g))" by (simp add: groupIntoThreads_def g_def s_def)
  have ok: "grouping_ok g" and kp: "\<And>m. m \<in> set messages \<Longrightarrow> threadKeyOf m (sideOf m own) \<noteq> None \<Longrightarrow> kept g m"
    using fold_mail_ok [of own messages] by (auto simp: g_def)
  have sd: "mset (dedups (s t)) = mset (dedups t)" for t by (simp add: dedups_def s_def)
  have keys: "distinct (jm_keys (gp_threads g))" using ok by (simp add: grouping_ok_def)
  have get: "jm_get (gp_threads g) k = Some t" if "(k, t) \<in> set (gp_threads g)" for k t
    using that keys by (simp add: jm_get_def jm_keys_def)
  have okD: "distinct (dedups t)" "\<And>d. d \<in> set (dedups t) \<longleftrightarrow> jm_get (gp_seen g) d = Some k" if "(k, t) \<in> set (gp_threads g)" for k t
    using ok get [OF that] unfolding grouping_ok_def by blast+
  have "distinct (concat (map (dedups \<circ> s \<circ> snd) ts))" if "set ts \<subseteq> set (gp_threads g)" "distinct (map fst ts)" for ts
    using that
  proof (induction ts)
    case (Cons kt ts)
    obtain k t where kt: "kt = (k, t)" by fastforce
    have t: "distinct (dedups t)" "\<And>d. d \<in> set (dedups t) \<longleftrightarrow> jm_get (gp_seen g) d = Some k"
      using Cons.prems(1) okD [of k t] by (simp_all add: kt)
    have apart: "d \<notin> set (dedups (s u))" if "(j, u) \<in> set ts" "d \<in> set (dedups t)" for d j u
    proof -
      have "j \<noteq> k" using Cons.prems(2) that(1) by (force simp: kt)
      moreover have "(j, u) \<in> set (gp_threads g)" using Cons.prems(1) that(1) by auto
      ultimately have "d \<notin> set (dedups u)" using okD(2) [of j u d] t(2) that(2) by auto
      then show ?thesis using sd [of u] by (metis set_mset_mset)
    qed
    have "distinct (dedups (s t))" using t(1) sd [of t] by (metis mset_eq_imp_distinct_iff)
    moreover have "set (dedups (s t)) = set (dedups t)" using sd [of t] by (metis set_mset_mset)
    then have "set (dedups (s t)) \<inter> set (concat (map (dedups \<circ> s \<circ> snd) ts)) = {}" using apart by auto
    moreover have "distinct (concat (map (dedups \<circ> s \<circ> snd) ts))" by (rule Cons.IH) (use Cons.prems in auto)
    ultimately show ?case by (simp add: kt comp_def)
  qed simp
  from this [of "gp_threads g"] keys have "distinct (concat (map dedups (groupIntoThreads le messages own)))"
    by (simp add: gr jm_keys_def jm_values_def comp_assoc)
  moreover have "\<exists>t \<in> set (groupIntoThreads le messages own). kept_in t m" if m: "m \<in> set messages" "threadKeyOf m (sideOf m own) \<noteq> None" for m
  proof -
    from kp [OF m] obtain k t where t: "jm_get (gp_threads g) k = Some t" "kept_in t m" by (auto simp: kept_def)
    then have "t \<in> set (jm_values (gp_threads g))" by (force simp: jm_get_def jm_values_def dest: map_of_SomeD)
    moreover have "kept_in (s t) m" using t(2) by (simp add: kept_in_def s_def)
    ultimately show ?thesis by (auto simp: gr)
  qed
  ultimately show ?thesis by auto
qed

section \<open>Every thread is read or skipped for one reason\<close>

definition worth_reading :: "string list \<Rightarrow> string list \<Rightarrow> thread_unit \<Rightarrow> bool" where
  "worth_reading externalIds extractedIds u = (let t = tu_thread u in
     list_all (\<lambda>m. machineSenderReason (ml_from m) = None \<and> \<not> isRoleInbox (ml_from m)) (mt_messages t)
     \<and> list_ex (\<lambda>m. te_side m = Them) (mt_messages t)
     \<and> tu_external u \<noteq> [] \<and> set (tu_external u) = set (mt_entities t) \<inter> set externalIds
     \<and> list_ex (\<lambda>m. ml_id m \<notin> set extractedIds) (mt_messages t)
     \<and> (\<not> thread_loaded t \<or> MIN_THREAD_CHARS \<le> thread_chars t))"

lemma select_unit:
  assumes "select_thread externalIds extractedIds t = Inr u"
  shows "tu_thread u = t \<and> worth_reading externalIds extractedIds u"
proof -
  have machine: "List.find (\<lambda>r. r \<noteq> None) (map (machineSenderReason \<circ> ml_from) (mt_messages t)) = None"
    using assms by (auto simp: select_thread_def split: option.splits machine_reason.splits)
  then have "list_all (\<lambda>m. machineSenderReason (ml_from m) = None) (mt_messages t)"
    by (auto simp: find_None_iff list_all_iff)
  with machine assms show ?thesis
    by (auto simp: select_thread_def worth_reading_def Let_def list_all_iff list_ex_iff filter_empty_conv split: if_splits)
qed

lemma count_skips: "sum_list (map snd (foldl count_skip m rs)) = sum_list (map snd m) + length rs"
proof (induction rs arbitrary: m)
  case (Cons r rs)
  have "sum_list (map snd (count_skip m r)) = Suc (sum_list (map snd m))"
    unfolding count_skip_def by (induction m) (auto simp: jm_get_def)
  then show ?case by (simp add: Cons.IH)
qed simp

lemma mset_map_filter_split:
  "mset (map fst (List.map_filter (\<lambda>(t, r). case r of Inl why \<Rightarrow> Some (t, why) | Inr u \<Rightarrow> None) (map (\<lambda>t. (t, f t)) ts)))
   + mset (map g (List.map_filter (\<lambda>(t, r). case r of Inl why \<Rightarrow> None | Inr u \<Rightarrow> Some u) (map (\<lambda>t. (t, f t)) ts))) = mset ts"
  if "\<And>t u. f t = Inr u \<Longrightarrow> g u = t"
  using that by (induction ts) (auto simp: List.map_filter_simps split: sum.splits)

text \<open>The selection accounts for every thread once: it is a unit to read or it is listed as skipped, and the
  counts by reason add up to the threads skipped. A unit has no machine or role sender, a message of
  theirs, an external contact, a message with no claims yet and, once its bodies are loaded, enough text.\<close>

theorem selection_accounts_for_every_thread:
  "let sel = selectEmailThreads le threads externalIds extractedIds
   in mset (map fst (sl_skipped_threads sel)) + mset (map tu_thread (sl_units sel)) = mset threads
      \<and> sum_list (map snd (sl_skipped sel)) = length (sl_skipped_threads sel)
      \<and> list_all (worth_reading externalIds extractedIds) (sl_units sel)"
proof -
  define f where "f = select_thread externalIds extractedIds"
  define units where "units = List.map_filter (\<lambda>(t, r). case r of Inl why \<Rightarrow> None | Inr u \<Rightarrow> Some u) (map (\<lambda>t. (t, f t)) threads)"
  have "worth_reading externalIds extractedIds u" if "u \<in> set units" for u
  proof -
    from that obtain t where "(case f t of Inl why \<Rightarrow> None | Inr u \<Rightarrow> Some u) = Some u" by (auto simp: units_def set_map_filter)
    then have "f t = Inr u" by (cases "f t") simp_all
    then show ?thesis using select_unit by (simp add: f_def)
  qed
  then have "list_all (worth_reading externalIds extractedIds) (js_sort le' units)" for le' by (simp add: list_all_iff)
  moreover have "f t = Inr u \<Longrightarrow> tu_thread u = t" for t u using select_unit by (simp add: f_def)
  note mset_map_filter_split [of f tu_thread threads, OF this, folded units_def]
  ultimately show ?thesis
    by (simp add: selectEmailThreads_def Let_def f_def units_def count_skips mset_map del: mset_map)
      (simp add: mset_map)
qed

definition demo_mail :: mail where
  "demo_mail = \<lparr>ml_id = ''m1'', ml_entity = Some ''p1'', ml_property = ''interaction.email_received'', ml_observed = Some ''2026-03-01'',
     ml_thread = None, ml_from = Some ''ann@acme.io'', ml_to = Some ''me@us.com'', ml_subject = Some ''Re: Fwd: Pricing'',
     ml_dedup = Some ''d1'', ml_raw = JUndef, ml_body = None\<rparr>"

lemma grouping_examples:
  "normalizeSubject (Some ''Re: Fwd: RE: Networking call'') = ''networking call''"
  "map dedups (groupIntoThreads (\<lambda>a b. True) [demo_mail, demo_mail\<lparr>ml_id := ''m2'', ml_entity := Some ''p2''\<rparr>] [''us.com'']) = [[''d1'']]"
  "map mt_entities (groupIntoThreads (\<lambda>a b. True) [demo_mail, demo_mail\<lparr>ml_id := ''m2'', ml_entity := Some ''p2''\<rparr>] [''us.com''])
    = [[''p1'', ''p2'']]"
  "machineSenderReason (Some ''jira@x.atlassian.net'') = Some Machine" "isRoleInbox (Some ''it-support@x.com'')"
  by code_simp+

theorem every_mail_is_read_once_witness:
  "\<exists>t \<in> set (groupIntoThreads (\<lambda>a b. True) [demo_mail, demo_mail\<lparr>ml_id := ''m2'', ml_entity := Some ''p2''\<rparr>] [''us.com'']).
     kept_in t (demo_mail\<lparr>ml_id := ''m2'', ml_entity := Some ''p2''\<rparr>)"
proof -
  have k: "threadKeyOf (demo_mail\<lparr>ml_id := ''m2'', ml_entity := Some ''p2''\<rparr>)
      (sideOf (demo_mail\<lparr>ml_id := ''m2'', ml_entity := Some ''p2''\<rparr>) [''us.com'']) \<noteq> None" by code_simp
  from every_mail_is_read_once [of "\<lambda>a b. True" "[demo_mail, demo_mail\<lparr>ml_id := ''m2'', ml_entity := Some ''p2''\<rparr>]" "[''us.com'']"]
  show ?thesis using k by simp
qed

end
