(* ===== verification/Access.thy ===== *)
theory Access
  imports Credits
begin

text \<open>
  The gates of the api (\<^verbatim>\<open>apps/api/src/lib/access.mjs\<close>) over the plans and meters: which team a request acts on,
  who may change its billing, the feature gate, the two balance gates, the enrichment quota, the LinkedIn
  slot, and the two counts they read (\<^verbatim>\<open>getTeamOpsUsage\<close>, \<^verbatim>\<open>getTeamEnrichmentUsage\<close> in \<^verbatim>\<open>plans.mjs\<close>).

  The tables a gate reads are a record. \<open>ax_down\<close> says that the database client throws, for the gates that
  catch it (the billing question and the LinkedIn slot let it through); a read that only reports an
  error answers no row, as the code reads it.
\<close>

section \<open>The team of a request\<close>

record log_entry =
  le_workspace :: string
  le_event :: string
  le_at :: int

record access_db =
  ax_down :: bool
  ax_workspaces :: "(string \<times> string option) list"
  ax_teams :: "string list"
  ax_team_members :: "(string \<times> string \<times> string option) list"
  ax_subscription :: "string \<Rightarrow> subscription option"
  ax_log :: "log_entry list option"
  ax_cached_used :: "string \<Rightarrow> jsval option"
  ax_ops_clock :: "string \<Rightarrow> int option"
  ax_accounts_clock :: "string \<Rightarrow> int option"
  ax_linkedin :: "string \<Rightarrow> nat option"

text \<open>The signed-in account, when there is one; making sure it has a team may throw.\<close>

datatype sign_in = ApiKeyAuth | SignInFails | SignedIn string string

record access_req =
  ar_sign_in :: sign_in
  ar_workspace :: "string option"

datatype team_error = ReadThrows | WorkspaceNotFound | NoTeamContext

record request_team =
  rt_team :: string
  rt_user :: "string option"
  rt_home :: "string option"

fun account_of :: "sign_in \<Rightarrow> string option" where
  "account_of (SignedIn u t) = Some u"
| "account_of _ = None"

fun home_of :: "sign_in \<Rightarrow> string option" where
  "home_of (SignedIn u t) = Some t"
| "home_of _ = None"

definition workspace_team :: "access_db \<Rightarrow> string option \<Rightarrow> string option \<Rightarrow> string option" where
  "workspace_team db home tid =
     (if nonempty tid \<and> tid \<noteq> home then (if str_of tid \<in> set (ax_teams db) then tid else home) else home)"

definition resolveRequestTeam :: "access_db \<Rightarrow> access_req \<Rightarrow> team_error + request_team" where
  "resolveRequestTeam db rq =
     (let home = home_of (ar_sign_in rq);
          answer = (\<lambda>team. case team of None \<Rightarrow> Inl NoTeamContext
            | Some t \<Rightarrow> Inr \<lparr>rt_team = t, rt_user = account_of (ar_sign_in rq), rt_home = home\<rparr>)
      in if ar_sign_in rq = SignInFails then Inl ReadThrows
         else if \<not> nonempty (ar_workspace rq) then answer home
         else if ax_down db then Inl ReadThrows
         else (case map_of (ax_workspaces db) (str_of (ar_workspace rq)) of
             None \<Rightarrow> if home = None then Inl WorkspaceNotFound else answer home
           | Some tid \<Rightarrow> answer (workspace_team db home tid)))"

definition BILLING_ROLES :: "string list" where
  "BILLING_ROLES = [''founder'', ''owner'', ''admin'']"

definition member_role :: "access_db \<Rightarrow> string \<Rightarrow> string \<Rightarrow> string option" where
  "member_role db team user = (case List.find (\<lambda>(t, u, _). t = team \<and> u = user) (ax_team_members db) of
     None \<Rightarrow> None | Some (_, _, r) \<Rightarrow> r)"

definition canManageTeamBilling :: "access_db \<Rightarrow> request_team \<Rightarrow> bool" where
  "canManageTeamBilling db r = (case rt_user r of None \<Rightarrow> False
     | Some u \<Rightarrow> rt_home r = Some (rt_team r)
         \<or> (case member_role db (rt_team r) u of None \<Rightarrow> False | Some role \<Rightarrow> role \<in> set BILLING_ROLES))"

record team_plan =
  tp_team :: string
  tp_subscription :: "subscription option"
  tp_plan :: plan

definition resolveTeamAndPlan :: "env \<Rightarrow> access_db \<Rightarrow> access_req \<Rightarrow> int \<Rightarrow> team_error + team_plan" where
  "resolveTeamAndPlan env db rq now = (case resolveRequestTeam db rq of
     Inl e \<Rightarrow> Inl e
   | Inr r \<Rightarrow> if ax_down db then Inl ReadThrows
       else (let sub = ax_subscription db (rt_team r) in
         Inr \<lparr>tp_team = rt_team r, tp_subscription = sub, tp_plan = getPlanFromSubscription env sub now\<rparr>))"

section \<open>The counts the meters read\<close>

definition RETRIEVAL_EVENT_TYPES :: "string list" where
  "RETRIEVAL_EVENT_TYPES = [''v2.context'', ''v2.account.get'', ''v2.query'', ''v2.attention'']"

definition team_workspaces :: "access_db \<Rightarrow> string \<Rightarrow> string list" where
  "team_workspaces db team = map fst (filter (\<lambda>(_, t). t = Some team) (ax_workspaces db))"

definition count_log :: "access_db \<Rightarrow> string \<Rightarrow> string list \<Rightarrow> int \<Rightarrow> nat" where
  "count_log db team events since = (case ax_log db of None \<Rightarrow> 0
     | Some rows \<Rightarrow> if team_workspaces db team = [] then 0
         else length (filter (\<lambda>l. le_workspace l \<in> set (team_workspaces db team) \<and> le_event l \<in> set events
                \<and> since \<le> le_at l) rows))"

record ops_usage =
  ou_used :: nat
  ou_included :: "int option"
  ou_remaining :: "int option"

definition getTeamOpsUsage :: "env \<Rightarrow> access_db \<Rightarrow> string \<Rightarrow> subscription option \<Rightarrow> int \<Rightarrow> ops_usage" where
  "getTeamOpsUsage env db team sub now =
     (let used = count_log db team RETRIEVAL_EVENT_TYPES (periodStartFor sub now);
          included = p_includedOpsPerMonth (getPlanFromSubscription env sub now)
      in \<lparr>ou_used = used, ou_included = included, ou_remaining = map_option (\<lambda>i. max 0 (i - int used)) included\<rparr>)"

record enrichment_usage =
  eu_used :: nat
  eu_included :: int
  eu_remaining :: int

definition getTeamEnrichmentUsage :: "env \<Rightarrow> access_db \<Rightarrow> string \<Rightarrow> subscription option \<Rightarrow> int \<Rightarrow> enrichment_usage" where
  "getTeamEnrichmentUsage env db team sub now =
     (let used = count_log db team [''enrichment_run''] (periodStartFor sub now);
          included = p_enrichmentsPerMonth (getPlanFromSubscription env sub now)
      in \<lparr>eu_used = used, eu_included = included, eu_remaining = max 0 (included - int used)\<rparr>)"

section \<open>Gates\<close>

datatype gate_body =
    CloudOnlyFeature string
  | FeatureNotInPlan string string
  | OpsLimitReached string "int option" nat "int option"
  | AccountsLimitReached string "int option" rat "int option"
  | EnrichmentQuotaExhausted string int
  | InternalError

fun gate_status :: "gate_body \<Rightarrow> nat" where
  "gate_status (CloudOnlyFeature _) = 403"
| "gate_status InternalError = 500"
| "gate_status _ = 402"

datatype stash = NoStash | StashPlan plan | StashState meter_state | StashRemaining "int option"

datatype gate_answer = Next stash | Refused gate_body

fun lets_through :: "gate_answer \<Rightarrow> bool" where
  "lets_through (Next _) = True"
| "lets_through (Refused _) = False"

definition CLOUD_ONLY_FEATURES :: "string list" where
  "CLOUD_ONLY_FEATURES = [''reports'', ''inAppAgent'', ''playground'', ''tasks'', ''skills'', ''slack'', ''forecasting'', ''revboxes'']"

definition isSelfHosted :: "env \<Rightarrow> bool \<Rightarrow> bool" where
  "isSelfHosted env hasCloud = (env ''SELF_HOSTED'' = Some ''true'' \<or> \<not> hasCloud)"

definition requireFeature :: "env \<Rightarrow> bool \<Rightarrow> access_db \<Rightarrow> access_req \<Rightarrow> int \<Rightarrow> string \<Rightarrow> gate_answer" where
  "requireFeature env selfHosted db rq now feature =
     (if selfHosted then (if feature \<in> set CLOUD_ONLY_FEATURES then Refused (CloudOnlyFeature feature) else Next NoStash)
      else (case resolveTeamAndPlan env db rq now of
          Inl _ \<Rightarrow> Refused InternalError
        | Inr tp \<Rightarrow> if \<not> hasFeature (Some (p_id (tp_plan tp))) feature
            then Refused (FeatureNotInPlan feature (p_id (tp_plan tp))) else Next (StashPlan (tp_plan tp))))"

definition blockOnSelfHost :: "bool \<Rightarrow> string \<Rightarrow> gate_answer" where
  "blockOnSelfHost selfHosted feature =
     (if selfHosted \<and> feature \<in> set CLOUD_ONLY_FEATURES then Refused (CloudOnlyFeature feature) else Next NoStash)"

definition assertFeature :: "bool \<Rightarrow> string option \<Rightarrow> string \<Rightarrow> gate_body option" where
  "assertFeature selfHosted planId feature =
     (if selfHosted then (if feature \<in> set CLOUD_ONLY_FEATURES then Some (CloudOnlyFeature feature) else None)
      else if \<not> hasFeature planId feature then Some (FeatureNotInPlan feature (str_of planId)) else None)"

text \<open>A balance gate answers with the persisted clock after its reading.\<close>

definition requireOpsBalance :: "env \<Rightarrow> bool \<Rightarrow> access_db \<Rightarrow> access_req \<Rightarrow> int \<Rightarrow> gate_answer" where
  "requireOpsBalance env selfHosted db rq now =
     (if selfHosted then Next NoStash
      else (case resolveTeamAndPlan env db rq now of
          Inl _ \<Rightarrow> Next NoStash
        | Inr tp \<Rightarrow>
            (let usage = getTeamOpsUsage env db (tp_team tp) (tp_subscription tp) now;
                 ops = fst (getTeamOpsState now (of_nat (ou_used usage)) (map_option of_int (ou_included usage))
                              (ax_ops_clock db (tp_team tp)))
             in if cv_state ops = MRestricted
                then Refused (OpsLimitReached (p_id (tp_plan tp)) (ou_included usage) (ou_used usage) (cv_graceUntil ops))
                else Next (StashState (cv_state ops)))))"

definition requireAccountsBalance :: "env \<Rightarrow> bool \<Rightarrow> access_db \<Rightarrow> access_req \<Rightarrow> int \<Rightarrow> gate_answer" where
  "requireAccountsBalance env selfHosted db rq now =
     (if selfHosted then Next NoStash
      else (case resolveTeamAndPlan env db rq now of
          Inl _ \<Rightarrow> Next NoStash
        | Inr tp \<Rightarrow>
            (let usage = getTeamActiveAccounts selfHosted (tp_plan tp) (ax_cached_used db (tp_team tp));
                 accounts = fst (getTeamAccountsState now (au_used usage) (map_option of_int (au_included usage))
                                   (ax_accounts_clock db (tp_team tp)))
             in if cv_state accounts = MRestricted
                then Refused (AccountsLimitReached (p_id (tp_plan tp)) (au_included usage) (au_used usage) (cv_graceUntil accounts))
                else Next (StashState (cv_state accounts)))))"

text \<open>No stashed number is an infinite one.\<close>

definition requireEnrichmentQuota :: "env \<Rightarrow> bool \<Rightarrow> access_db \<Rightarrow> access_req \<Rightarrow> int \<Rightarrow> gate_answer" where
  "requireEnrichmentQuota env selfHosted db rq now =
     (if selfHosted then Next NoStash
      else (case resolveTeamAndPlan env db rq now of
          Inl _ \<Rightarrow> Refused InternalError
        | Inr tp \<Rightarrow>
            if p_enrichmentsPerMonth (tp_plan tp) = 0 then Next (StashRemaining None)
            else (let enrich = getTeamEnrichmentUsage env db (tp_team tp) (tp_subscription tp) now in
              if eu_remaining enrich \<le> 0 then Refused (EnrichmentQuotaExhausted (p_id (tp_plan tp)) (eu_included enrich))
              else Next (StashRemaining (Some (eu_remaining enrich))))))"

record linkedin_slot =
  ls_allowed :: bool
  ls_limit :: "int option"
  ls_used :: nat
  ls_plan :: string

definition checkLinkedinSlot :: "env \<Rightarrow> bool \<Rightarrow> access_db \<Rightarrow> string \<Rightarrow> int \<Rightarrow> linkedin_slot" where
  "checkLinkedinSlot env selfHosted db workspaceId now =
     (if selfHosted then \<lparr>ls_allowed = True, ls_limit = None, ls_used = 0, ls_plan = ''self_hosted''\<rparr>
      else (case map_of (ax_workspaces db) workspaceId of
          None \<Rightarrow> \<lparr>ls_allowed = True, ls_limit = Some 0, ls_used = 0, ls_plan = ''api''\<rparr>
        | Some tid \<Rightarrow>
            (let p = getPlanFromSubscription env (Option.bind tid (ax_subscription db)) now;
                 limit = (case p_linkedinProfiles p of None \<Rightarrow> 0 | Some l \<Rightarrow> l);
                 used = (case ax_linkedin db workspaceId of None \<Rightarrow> 0 | Some n \<Rightarrow> n)
             in \<lparr>ls_allowed = (int used < limit), ls_limit = Some limit, ls_used = used, ls_plan = p_id p\<rparr>)))"

section \<open>What the gates answer\<close>

lemma getPlan_one: "getPlan i \<in> {plan_api, plan_free, plan_custom}"
proof -
  have "normalizePlanId i \<in> {''api'', ''custom'', ''free''}"
    by (auto simp: normalizePlanId_def PLAN_IDS_def LEGACY_PLAN_IDS_def Let_def)
  then show ?thesis by (auto simp: getPlan_def PLANS_def)
qed

text \<open>What every plan a subscription can resolve to has in common.\<close>

lemma plan_facts:
  "p_includedOpsPerMonth (getPlanFromSubscription env sub now) = None"
  "p_enrichmentsPerMonth (getPlanFromSubscription env sub now) = 0"
  "p_activeAccountsLimit (getPlanFromSubscription env sub now) \<in> {None, Some 10000}"
proof -
  have g: "p_includedOpsPerMonth (getPlan i) = None \<and> p_enrichmentsPerMonth (getPlan i) = 0
      \<and> p_activeAccountsLimit (getPlan i) \<in> {None, Some 10000}" for i
    using getPlan_one [of i] by (auto simp: plan_api_def plan_free_def plan_custom_def)
  have w: "p_includedOpsPerMonth (withTier env p s) = p_includedOpsPerMonth p"
    "p_enrichmentsPerMonth (withTier env p s) = p_enrichmentsPerMonth p"
    "p_activeAccountsLimit (withTier env p s) = p_activeAccountsLimit p" for p s
    by (simp_all add: withTier_def split: option.split)
  show "p_includedOpsPerMonth (getPlanFromSubscription env sub now) = None"
    "p_enrichmentsPerMonth (getPlanFromSubscription env sub now) = 0"
    "p_activeAccountsLimit (getPlanFromSubscription env sub now) \<in> {None, Some 10000}"
    using g by (auto simp: getPlanFromSubscription_def w plan_api_def split: option.split)
qed

text \<open>Retrieval is never refused, in any state of any plan: the balance gate on operations always lets the
  request through, also when its team cannot be read.\<close>

theorem retrieval_never_refused: "lets_through (requireOpsBalance env selfHosted db rq now)"
proof -
  have "ou_included (getTeamOpsUsage env db t sub now) = None" for t sub
    by (simp add: getTeamOpsUsage_def Let_def plan_facts)
  then show ?thesis
    by (simp add: requireOpsBalance_def Let_def getTeamOpsState_def grace_reading_def split: sum.split)
qed

lemma accounts_state_restricted:
  assumes "0 < i"
  shows "cv_state (fst (getTeamAccountsState now used (Some i) clock)) = MRestricted
    \<longleftrightarrow> i \<le> used \<and> (\<exists>started. clock = Some started \<and> started + 3 * day_ms \<le> now)"
  using assms
  by (auto simp: getTeamAccountsState_def grace_reading_def OPS_GRACE_DAYS_def Let_def split: option.split)

text \<open>Creating accounts is refused exactly when the instance is in the cloud, the team and its plan can be read,
  the plan has a limit the remembered count has reached, and the persisted clock says that the limit was
  first crossed at least three days ago. In every other case, an error included, the request goes on.\<close>

theorem accounts_refused_exactly:
  "\<not> lets_through (requireAccountsBalance env selfHosted db rq now) \<longleftrightarrow>
     \<not> selfHosted \<and> (\<exists>tp limit started. resolveTeamAndPlan env db rq now = Inr tp
       \<and> p_activeAccountsLimit (tp_plan tp) = Some limit
       \<and> of_int limit \<le> (case ax_cached_used db (tp_team tp) of None \<Rightarrow> 0 | Some v \<Rightarrow> number_or_0 v)
       \<and> ax_accounts_clock db (tp_team tp) = Some started \<and> started + 3 * day_ms \<le> now)"
proof (cases "selfHosted \<or> (\<exists>e. resolveTeamAndPlan env db rq now = Inl e)")
  case True
  then show ?thesis by (auto simp: requireAccountsBalance_def)
next
  case False
  then obtain tp where tp: "resolveTeamAndPlan env db rq now = Inr tp" and c: "\<not> selfHosted"
    by (cases "resolveTeamAndPlan env db rq now") auto
  have "tp_plan tp = getPlanFromSubscription env (tp_subscription tp) now"
    using tp by (auto simp: resolveTeamAndPlan_def Let_def split: sum.splits if_splits)
  with plan_facts(3) have "p_activeAccountsLimit (tp_plan tp) \<in> {None, Some 10000}" by metis
  moreover have "cv_state (fst (getTeamAccountsState now u None k)) = MOk" for u k
    by (simp add: getTeamAccountsState_def)
  ultimately show ?thesis using c
    by (auto simp: requireAccountsBalance_def tp Let_def getTeamActiveAccounts_def accounts_included_def
        accounts_state_restricted)
qed

text \<open>In a workspace another team owns, the request acts on the owning team, whatever the caller's home team,
  and the caller may change its billing exactly when they hold one of the paying roles there.\<close>

theorem client_workspace_is_its_teams:
  assumes "ar_sign_in rq = SignedIn u h" and "ar_workspace rq = Some ws" and "ws \<noteq> []" and "\<not> ax_down db"
    and "map_of (ax_workspaces db) ws = Some (Some t)" and "t \<in> set (ax_teams db)" and "t \<noteq> []" and "t \<noteq> h"
  shows "\<exists>r. resolveRequestTeam db rq = Inr r \<and> rt_team r = t
    \<and> (canManageTeamBilling db r \<longleftrightarrow> (\<exists>role. member_role db t u = Some role \<and> role \<in> {''founder'', ''owner'', ''admin''}))"
  using assms
  by (auto simp: resolveRequestTeam_def Let_def workspace_team_def canManageTeamBilling_def BILLING_ROLES_def
      split: option.split)

definition demo_access :: access_db where
  "demo_access = \<lparr>ax_down = False, ax_workspaces = [(''w'', Some ''client'')], ax_teams = [''client'', ''agency''],
     ax_team_members = [(''client'', ''u'', Some ''member'')], ax_subscription = (\<lambda>_. None), ax_log = Some [],
     ax_cached_used = (\<lambda>_. None), ax_ops_clock = (\<lambda>_. None), ax_accounts_clock = (\<lambda>_. None), ax_linkedin = (\<lambda>_. None)\<rparr>"

theorem client_workspace_is_its_teams_witness:
  "\<exists>r. resolveRequestTeam demo_access \<lparr>ar_sign_in = SignedIn ''u'' ''agency'', ar_workspace = Some ''w''\<rparr> = Inr r
     \<and> rt_team r = ''client'' \<and> \<not> canManageTeamBilling demo_access r"
proof -
  let ?rq = "\<lparr>ar_sign_in = SignedIn ''u'' ''agency'', ar_workspace = Some ''w''\<rparr>"
  have "member_role demo_access ''client'' ''u'' = Some ''member''"
    by (simp add: member_role_def demo_access_def)
  with client_workspace_is_its_teams [of ?rq "''u''" "''agency''" "''w''" demo_access "''client''"]
  show ?thesis by (auto simp: demo_access_def)
qed

text \<open>On a self-hosted instance every gate answers alike: only the workspace layer is refused.\<close>

lemma self_hosted_gates:
  "lets_through (requireFeature env True db rq now f) \<longleftrightarrow> f \<notin> set CLOUD_ONLY_FEATURES"
  "requireFeature env True db rq now f = blockOnSelfHost True f"
  "assertFeature True pid f = None \<longleftrightarrow> f \<notin> set CLOUD_ONLY_FEATURES"
  "lets_through (requireAccountsBalance env True db rq now)" "lets_through (requireEnrichmentQuota env True db rq now)"
  by (simp_all add: requireFeature_def blockOnSelfHost_def assertFeature_def requireAccountsBalance_def requireEnrichmentQuota_def)

text \<open>When the team cannot be read in the cloud, the feature gate and the enrichment quota stay shut and the
  accounts gate stays open.\<close>

lemma unknown_team_answers:
  assumes "resolveTeamAndPlan env db rq now = Inl e"
  shows "requireFeature env False db rq now f = Refused InternalError"
    and "requireEnrichmentQuota env False db rq now = Refused InternalError"
    and "requireAccountsBalance env False db rq now = Next NoStash"
  using assms by (simp_all add: requireFeature_def requireEnrichmentQuota_def requireAccountsBalance_def)

text \<open>The custom plan's number of LinkedIn accounts is null, for no limit; the slot check reads it as none at all.\<close>

lemma custom_plan_has_no_linkedin_slot:
  assumes "map_of (ax_workspaces db) ws = Some (Some t)" and "ax_subscription db t = Some s"
    and "su_plan_id s = Some ''custom''" and "su_status s = Some ''active''"
  shows "\<not> ls_allowed (checkLinkedinSlot env False db ws now)"
proof -
  have "getPlanFromSubscription env (Some s) now = plan_custom"
    using assms(3,4)
    by (simp add: getPlanFromSubscription_def isNoCardTrial_def withTier_def getPlan_def normalizePlanId_def PLANS_def
        PLAN_IDS_def to_lower_def lower_char_def plan_custom_def)
  with assms(1,2) show ?thesis by (simp add: checkLinkedinSlot_def plan_custom_def)
qed

end
