(* ===== verification/Membership.thy ===== *)
theory Membership
  imports Access ApiKeys JsRegex
begin

text \<open>
  Who is on a team (\<^verbatim>\<open>apps/api/src/lib/teamMembership.mjs\<close>), and the routes that change it: inviting, accepting
  (\<^verbatim>\<open>routes/api/invitations.mjs\<close>), changing a role, removing and cancelling (\<^verbatim>\<open>routes/api/teams.mjs\<close>,
  \<^verbatim>\<open>routes/v2/members.mjs\<close>), as operations on one state and as steps of a relation.

  The tables are the state. The random token, the ids of new rows, the mail provider and the answers of the
  sign-in provider are arguments. Recognising the new member as internal and adopting the CRM's records
  are best effort and not modelled.
\<close>

section \<open>State\<close>

record member_row =
  mr_team :: string
  mr_user :: string
  mr_role :: string

record ws_member =
  wm_workspace :: string
  wm_user :: string
  wm_role :: string
  wm_department :: "string option"

record user_row =
  ur_id :: string
  ur_email :: string
  ur_name :: "string option"
  ur_team :: "string option"
  ur_onboarded :: bool

record invitation =
  in_id :: string
  in_team :: string
  in_email :: string
  in_role :: "string option"
  in_department :: "string option"
  in_token :: string
  in_status :: string
  in_invited_by :: "string option"
  in_expires_at :: int

record team_db =
  mb_members :: "member_row list"
  mb_ws_members :: "ws_member list"
  mb_users :: "user_row list"
  mb_workspaces :: "(string \<times> string) list"
  mb_departments :: "(string \<times> string) list"
  mb_invitations :: "invitation list"
  mb_keys :: key_store
  mb_subscription :: "string \<Rightarrow> subscription option"
  mb_team_name :: "string \<Rightarrow> string option"

text \<open>\<^verbatim>\<open>maybeSingle\<close> and \<^verbatim>\<open>single\<close>: the row when there is exactly one.\<close>

fun maybe_single :: "'a list \<Rightarrow> 'a option" where
  "maybe_single [x] = Some x"
| "maybe_single _ = None"

definition ADMIN_TEAM_ROLES :: "string list" where
  "ADMIN_TEAM_ROLES = [''founder'', ''owner'', ''admin'']"

definition ALL_TEAM_ROLES :: "string list" where
  "ALL_TEAM_ROLES = [''founder'', ''owner'', ''admin'', ''member'', ''viewer'']"

definition membership_rows :: "team_db \<Rightarrow> string \<Rightarrow> string \<Rightarrow> member_row list" where
  "membership_rows db team user = filter (\<lambda>m. mr_team m = team \<and> mr_user m = user) (mb_members db)"

definition member_of :: "team_db \<Rightarrow> string \<Rightarrow> string \<Rightarrow> member_row option" where
  "member_of db team user = maybe_single (membership_rows db team user)"

definition user_by_id :: "team_db \<Rightarrow> string \<Rightarrow> user_row option" where
  "user_by_id db u = maybe_single (filter (\<lambda>r. ur_id r = u) (mb_users db))"

definition team_workspace_ids :: "team_db \<Rightarrow> string \<Rightarrow> string list" where
  "team_workspace_ids db team = map fst (filter (\<lambda>(_, t). t = team) (mb_workspaces db))"

text \<open>The role of a person on a team; a person without a membership row whose home team it is counts as its owner.\<close>

definition checkTeamMembership :: "team_db \<Rightarrow> string \<Rightarrow> string \<Rightarrow> string list \<Rightarrow> string option" where
  "checkTeamMembership db user team requiredRoles = (case member_of db team user of
     None \<Rightarrow> (case user_by_id db user of
         None \<Rightarrow> None
       | Some u \<Rightarrow> if ur_team u \<noteq> Some team then None
           else (case maybe_single (filter (\<lambda>m. mr_role m = ''founder'') (membership_rows db team user)) of
               Some fc \<Rightarrow> Some (mr_role fc) | None \<Rightarrow> Some ''owner''))
   | Some m \<Rightarrow> if mr_role m \<in> set requiredRoles then Some (mr_role m) else None)"

section \<open>Removing\<close>

text \<open>Which of the writes of a removal the database refuses; the code does not look at their errors.\<close>

record removal_faults =
  rf_team :: bool
  rf_workspaces :: bool
  rf_keys :: bool
  rf_tokens :: bool

definition removeTeamMember :: "removal_faults \<Rightarrow> int \<Rightarrow> string \<Rightarrow> string \<Rightarrow> team_db \<Rightarrow> team_db" where
  "removeTeamMember rf now team user db =
     (let db1 = (if rf_team rf then db
            else db\<lparr>mb_members := filter (\<lambda>m. \<not> (mr_team m = team \<and> mr_user m = user)) (mb_members db)\<rparr>);
          wss = team_workspace_ids db1 team
      in if wss = [] then db1
         else
           (let db2 = (if rf_workspaces rf then db1
                 else db1\<lparr>mb_ws_members := filter (\<lambda>w. \<not> (wm_workspace w \<in> set wss \<and> wm_user w = user)) (mb_ws_members db1)\<rparr>)
            in db2\<lparr>mb_keys := snd (revokeMemberKeys (rf_keys rf) (rf_tokens rf) now (Some user) (Some wss) (mb_keys db2))\<rparr>))"

datatype member_error = InsufficientPermissions | CannotRemoveFounder | CannotRemoveSelf | CannotRemoveLastAdmin
  | InvalidRole | MemberNotFound | CannotChangeFounder | CannotChangeOwnRole | InvitationMissing | InvitationProcessed

fun member_error_status :: "member_error \<Rightarrow> nat" where
  "member_error_status InsufficientPermissions = 403"
| "member_error_status MemberNotFound = 404"
| "member_error_status InvitationMissing = 404"
| "member_error_status _ = 400"

definition delete_member :: "removal_faults \<Rightarrow> int \<Rightarrow> string \<Rightarrow> string \<Rightarrow> string \<Rightarrow> team_db \<Rightarrow> member_error + team_db" where
  "delete_member rf now caller team user db =
     (if checkTeamMembership db caller team ADMIN_TEAM_ROLES = None then Inl InsufficientPermissions
      else if map_option mr_role (member_of db team user) = Some ''founder'' then Inl CannotRemoveFounder
      else if user = caller then Inl CannotRemoveSelf
      else Inr (removeTeamMember rf now team user db))"

text \<open>The public api: \<open>acting\<close> is the person the key is bound to, when there is one.\<close>

definition delete_member_v2 ::
  "removal_faults \<Rightarrow> int \<Rightarrow> string option \<Rightarrow> string \<Rightarrow> string \<Rightarrow> team_db \<Rightarrow> member_error + team_db" where
  "delete_member_v2 rf now acting team user db =
     (case member_of db team user of
        None \<Rightarrow> Inl MemberNotFound
      | Some target \<Rightarrow>
          if nonempty acting \<and> checkTeamMembership db (str_of acting) team ADMIN_TEAM_ROLES = None then Inl InsufficientPermissions
          else if mr_role target = ''founder'' then Inl CannotRemoveFounder
          else if nonempty acting \<and> user = str_of acting then Inl CannotRemoveSelf
          else if mr_role target \<in> set ADMIN_TEAM_ROLES
            \<and> \<not> list_ex (\<lambda>a. mr_user a \<noteq> user)
                  (filter (\<lambda>m. mr_team m = team \<and> mr_role m \<in> set ADMIN_TEAM_ROLES) (mb_members db))
          then Inl CannotRemoveLastAdmin
          else Inr (removeTeamMember rf now team user db))"

section \<open>Roles and invitations\<close>

definition change_role :: "string \<Rightarrow> string \<Rightarrow> string \<Rightarrow> string option \<Rightarrow> team_db \<Rightarrow> member_error + team_db" where
  "change_role caller team user role db =
     (if role \<notin> {Some ''admin'', Some ''member''} then Inl InvalidRole
      else if checkTeamMembership db caller team ADMIN_TEAM_ROLES = None then Inl InsufficientPermissions
      else (case member_of db team user of
          None \<Rightarrow> Inl MemberNotFound
        | Some target \<Rightarrow>
            if mr_role target = ''founder'' then Inl CannotChangeFounder
            else if user = caller then Inl CannotChangeOwnRole
            else
              (let db1 = db\<lparr>mb_members := map (\<lambda>m. if mr_team m = team \<and> mr_user m = user
                         then m\<lparr>mr_role := str_of role\<rparr> else m) (mb_members db)\<rparr>;
                   wss = team_workspace_ids db1 team
               in Inr (if wss = [] then db1
                  else db1\<lparr>mb_ws_members := map (\<lambda>w. if wm_workspace w \<in> set wss \<and> wm_user w = user
                         then w\<lparr>wm_role := str_of role\<rparr> else w) (mb_ws_members db1)\<rparr>))))"

definition set_status :: "string \<Rightarrow> string \<Rightarrow> team_db \<Rightarrow> team_db" where
  "set_status i st db = db\<lparr>mb_invitations := map (\<lambda>v. if in_id v = i then v\<lparr>in_status := st\<rparr> else v) (mb_invitations db)\<rparr>"

definition cancel_invitation :: "string \<Rightarrow> string \<Rightarrow> string \<Rightarrow> team_db \<Rightarrow> member_error + team_db" where
  "cancel_invitation caller team i db =
     (if checkTeamMembership db caller team ADMIN_TEAM_ROLES = None then Inl InsufficientPermissions
      else (case maybe_single (filter (\<lambda>v. in_id v = i \<and> in_team v = team) (mb_invitations db)) of
          None \<Rightarrow> Inl InvitationMissing
        | Some v \<Rightarrow> if in_status v \<noteq> ''pending'' then Inl InvitationProcessed
            else Inr (set_status i ''cancelled'' db)))"

datatype invite_error = EmailRequired | InvalidEmailFormat | UnsupportedRole "string list" | InvalidDepartment
  | InviteNotAllowed | InviteRequiresTeamPlan string | SeatLimitReached nat | InvitationAlreadyExists | InsertFailed

definition EMAIL_RE :: rx where
  "EMAIL_RE = (let part = rplus (RCls True [(CHR '' '', CHR '' ''), (CHR 0x09, CHR 0x0D), (CHR 0xA0, CHR 0xA0), (CHR ''@'', CHR ''@'')])
     in rseq [RBeg, part, rchar (CHR ''@''), part, rchar (CHR ''.''), part, REnd])"

definition department_ok :: "team_db \<Rightarrow> string \<Rightarrow> string \<Rightarrow> bool" where
  "department_ok db team d = (case maybe_single (filter (\<lambda>(i, _). i = d) (mb_departments db)) of
     None \<Rightarrow> False
   | Some (_, ws) \<Rightarrow> maybe_single (filter (\<lambda>(i, t). i = ws \<and> t = team) (mb_workspaces db)) \<noteq> None)"

text \<open>Every plan of the table has \<^verbatim>\<open>memberLimit: null\<close>.\<close>

definition plan_memberLimit :: "plan \<Rightarrow> nat option" where
  "plan_memberLimit p = None"

definition effectiveMemberLimit :: "bool \<Rightarrow> plan \<Rightarrow> nat option" where
  "effectiveMemberLimit selfHosted p = (if selfHosted then None else plan_memberLimit p)"

definition seat_refused :: "nat option \<Rightarrow> nat \<Rightarrow> nat \<Rightarrow> bool" where
  "seat_refused limit members pending = (case limit of None \<Rightarrow> False | Some l \<Rightarrow> l \<le> members + pending)"

definition pending_of :: "team_db \<Rightarrow> string \<Rightarrow> invitation list" where
  "pending_of db team = filter (\<lambda>v. in_team v = team \<and> in_status v = ''pending'') (mb_invitations db)"

definition INVITE_MS :: int where "INVITE_MS = 7 * 24 * 60 * 60 * 1000"

record invite_req =
  ir_team :: string
  ir_inviter :: "string option"
  ir_email :: jsval
  ir_role :: string
  ir_department :: "string option"
  ir_allowed :: "string list"
  ir_authorized :: bool

text \<open>The id, the token and the success of the insert come from outside.\<close>

definition createTeamInvitation ::
  "env \<Rightarrow> bool \<Rightarrow> int \<Rightarrow> (string \<times> string) option \<Rightarrow> invite_req \<Rightarrow> team_db \<Rightarrow> invite_error + invitation \<times> team_db" where
  "createTeamInvitation env selfHosted now fresh ir db =
     (let email = (case ir_email ir of JStr s \<Rightarrow> to_lower (js_trim s) | _ \<Rightarrow> []);
          team = ir_team ir;
          p = getPlanFromSubscription env (mb_subscription db team) now;
          dept = (if nonempty (ir_department ir) then ir_department ir else None);
          limit = effectiveMemberLimit selfHosted p
      in if email = [] then Inl EmailRequired
         else if \<not> rx_test EMAIL_RE email then Inl InvalidEmailFormat
         else if ir_role ir \<notin> set (ir_allowed ir) then Inl (UnsupportedRole (ir_allowed ir))
         else if dept \<noteq> None \<and> \<not> department_ok db team (str_of dept) then Inl InvalidDepartment
         else if \<not> ir_authorized ir then Inl InviteNotAllowed
         else if selfHosted \<or> \<not> hasFeature (Some (p_id p)) ''inAppAgent'' \<and> \<not> isApiTier (Some (p_id p))
           then Inl (InviteRequiresTeamPlan (p_id p))
         else if seat_refused limit (length (filter (\<lambda>m. mr_team m = team) (mb_members db))) (length (pending_of db team))
           then Inl (SeatLimitReached (the limit))
         else if maybe_single (filter (\<lambda>v. in_email v = email) (pending_of db team)) \<noteq> None
           then Inl InvitationAlreadyExists
         else (case fresh of None \<Rightarrow> Inl InsertFailed
           | Some (i, token) \<Rightarrow>
               (let v = \<lparr>in_id = i, in_team = team, in_email = email, in_role = Some (ir_role ir), in_department = dept,
                     in_token = token, in_status = ''pending'', in_invited_by = ir_inviter ir,
                     in_expires_at = now + INVITE_MS\<rparr>
                in Inr (v, db\<lparr>mb_invitations := mb_invitations db @ [v]\<rparr>))))"

section \<open>The mail\<close>

datatype send_reason = NotConfigured | SendFailed | SendException

record send_result =
  sr_sent :: bool
  sr_reason :: "send_reason option"
  sr_error :: "string option"
  sr_link :: string

record invite_mail =
  im_key :: string
  im_from :: string
  im_to :: string
  im_subject :: string
  im_inviter :: string
  im_team :: string
  im_link :: string

datatype mail_answer = FetchThrows string | Accepted | Rejected nat "string option"

definition env_or :: "env \<Rightarrow> string \<Rightarrow> string \<Rightarrow> string" where
  "env_or env k d = (if nonempty (env k) then str_of (env k) else d)"

definition sendInviteEmail ::
  "env \<Rightarrow> (invite_mail \<Rightarrow> mail_answer) \<Rightarrow> string \<Rightarrow> string \<Rightarrow> string \<Rightarrow> string \<Rightarrow> send_result" where
  "sendInviteEmail env post to inviterName teamName token =
     (let link = ''https://'' @ env_or env ''APP_DOMAIN'' ''app.opennous.cloud'' @ ''/accept-invitation?token='' @ token
      in if \<not> nonempty (env ''RESEND_API_KEY'')
         then \<lparr>sr_sent = False, sr_reason = Some NotConfigured, sr_error = None, sr_link = link\<rparr>
         else (case post \<lparr>im_key = str_of (env ''RESEND_API_KEY''),
                   im_from = env_or env ''RESEND_FROM_EMAIL'' ''Nous <noreply@opennous.cloud>'', im_to = to,
                   im_subject = ''You'' @ [CHR 0x27] @ ''ve been invited to join '' @ teamName @ '' on Nous'',
                   im_inviter = inviterName, im_team = teamName, im_link = link\<rparr> of
             FetchThrows e \<Rightarrow> \<lparr>sr_sent = False, sr_reason = Some SendException, sr_error = Some e, sr_link = link\<rparr>
           | Rejected status body \<Rightarrow> \<lparr>sr_sent = False, sr_reason = Some SendFailed,
               sr_error = Some (''Resend '' @ show_nat status @ '': '' @ take 300 (str_of body)), sr_link = link\<rparr>
           | Accepted \<Rightarrow> \<lparr>sr_sent = True, sr_reason = None, sr_error = None, sr_link = link\<rparr>))"

definition mail_invitation ::
  "env \<Rightarrow> (invite_mail \<Rightarrow> mail_answer) \<Rightarrow> string option \<Rightarrow> string \<Rightarrow> invitation \<Rightarrow> team_db \<Rightarrow> send_result" where
  "mail_invitation env post inviterName inviterEmail v db =
     sendInviteEmail env post (in_email v) (if nonempty inviterName then str_of inviterName else inviterEmail)
       (if nonempty (mb_team_name db (in_team v)) then str_of (mb_team_name db (in_team v)) else ''Your Team'') (in_token v)"

section \<open>Accepting\<close>

record accept_req =
  aq_token :: string
  aq_user :: "string option"
  aq_signed_email :: "string option"
  aq_supabase :: bool
  aq_confirmed_without_mail :: bool
  aq_proven :: "string \<Rightarrow> bool"
  aq_provisioned :: "user_row option"

text \<open>\<open>aq_user\<close> is the account's row, when it has one; \<open>aq_provisioned\<close> the row made for an invited sign-in that has
  none; \<open>aq_proven\<close> the provider's answer whether the account owns the address.\<close>

datatype accept_error = InvitationNotFound | InvitationExpired | EmailMismatch | AlreadyProcessed string
  | EmailUnverified | Provisioning

definition same_address :: "string \<Rightarrow> string \<Rightarrow> bool" where
  "same_address a b = (to_lower a = to_lower b)"

definition address_ok :: "accept_req \<Rightarrow> string \<Rightarrow> bool" where
  "address_ok aq e = (aq_confirmed_without_mail aq \<or> aq_proven aq e)"

text \<open>The account that accepts: its row, or one provisioned for it where the provider is Supabase.\<close>

definition accept_user :: "accept_req \<Rightarrow> invitation \<Rightarrow> team_db \<Rightarrow> accept_error + user_row \<times> team_db" where
  "accept_user aq v db =
     (let known = Option.bind (aq_user aq) (user_by_id db) in
      case known of
        Some u \<Rightarrow> Inr (u, db)
      | None \<Rightarrow>
          if \<not> aq_supabase aq then Inl Provisioning
          else if \<not> same_address (str_of (aq_signed_email aq)) (in_email v) then Inl EmailMismatch
          else if in_status v \<noteq> ''pending'' then Inl (AlreadyProcessed (in_status v))
          else if \<not> address_ok aq (str_of (aq_signed_email aq)) then Inl EmailUnverified
          else (case aq_provisioned aq of
              None \<Rightarrow> Inl Provisioning
            | Some u \<Rightarrow> Inr (u, db\<lparr>mb_users := mb_users db @ [u]\<rparr>)))"

definition ws_role_for :: "string \<Rightarrow> string" where
  "ws_role_for role = (if role \<in> {''founder'', ''owner'', ''admin''} then ''admin''
     else if role = ''member'' then ''member'' else ''viewer'')"

text \<open>An insert against the unique key of a table leaves an existing row.\<close>

definition add_member :: "string \<Rightarrow> string \<Rightarrow> string \<Rightarrow> member_row list \<Rightarrow> member_row list" where
  "add_member team user role ms =
     (if list_ex (\<lambda>m. mr_team m = team \<and> mr_user m = user) ms then ms
      else ms @ [\<lparr>mr_team = team, mr_user = user, mr_role = role\<rparr>])"

definition add_ws_member :: "string \<Rightarrow> string \<Rightarrow> (string \<times> string) option \<Rightarrow> string \<Rightarrow> ws_member list \<Rightarrow> ws_member list" where
  "add_ws_member user role dept ws ms =
     (if list_ex (\<lambda>w. wm_workspace w = ws \<and> wm_user w = user) ms then ms
      else ms @ [\<lparr>wm_workspace = ws, wm_user = user, wm_role = role,
        wm_department = (case dept of None \<Rightarrow> None | Some (d, dws) \<Rightarrow> if dws = ws then Some d else None)\<rparr>])"

definition dept_workspace :: "team_db \<Rightarrow> string option \<Rightarrow> (string \<times> string) option" where
  "dept_workspace db d = (if \<not> nonempty d then None
     else map_option (\<lambda>(_, ws). (str_of d, ws)) (maybe_single (filter (\<lambda>(i, _). i = str_of d) (mb_departments db))))"

definition join_team :: "invitation \<Rightarrow> string \<Rightarrow> user_row \<Rightarrow> team_db \<Rightarrow> team_db" where
  "join_team v role u db =
     (let db1 = db\<lparr>mb_members := add_member (in_team v) (ur_id u) role (mb_members db),
             mb_ws_members := fold (add_ws_member (ur_id u) (ws_role_for role) (dept_workspace db (in_department v)))
               (team_workspace_ids db (in_team v)) (mb_ws_members db),
             mb_users := map (\<lambda>r. if ur_id r = ur_id u then r\<lparr>ur_team := Some (in_team v), ur_onboarded := True\<rparr> else r) (mb_users db)\<rparr>
      in set_status (in_id v) ''accepted'' db1)"

text \<open>The rest of the handler, once the account is known; accepting again is no error.\<close>

definition invited_role :: "invitation \<Rightarrow> string" where
  "invited_role v = (if nonempty (in_role v) then str_of (in_role v) else ''member'')"

definition accept_as :: "accept_req \<Rightarrow> invitation \<Rightarrow> user_row \<Rightarrow> team_db \<Rightarrow> (accept_error + string) \<times> team_db" where
  "accept_as aq v u db =
     (if \<not> same_address (ur_email u) (in_email v) then (Inl EmailMismatch, db)
      else if \<not> address_ok aq (ur_email u) then (Inl EmailUnverified, db)
      else (case member_of db (in_team v) (ur_id u) of
          Some m \<Rightarrow> (Inr (if mr_role m \<noteq> [] then mr_role m else invited_role v), set_status (in_id v) ''accepted'' db)
        | None \<Rightarrow> if in_status v \<noteq> ''pending'' then (Inl (AlreadyProcessed (in_status v)), db)
            else (Inr (invited_role v), join_team v (invited_role v) u db)))"

definition accept_invitation :: "int \<Rightarrow> accept_req \<Rightarrow> team_db \<Rightarrow> (accept_error + string) \<times> team_db" where
  "accept_invitation now aq db =
     (case maybe_single (filter (\<lambda>v. in_token v = aq_token aq) (mb_invitations db)) of
        None \<Rightarrow> (Inl InvitationNotFound, db)
      | Some v \<Rightarrow>
          if in_expires_at v < now then (Inl InvitationExpired, set_status (in_id v) ''expired'' db)
          else (case accept_user aq v db of Inl e \<Rightarrow> (Inl e, db) | Inr (u, db1) \<Rightarrow> accept_as aq v u db1))"

section \<open>Steps\<close>

inductive team_step :: "team_db \<Rightarrow> team_db \<Rightarrow> bool" where
  Invite: "createTeamInvitation env selfHosted now fresh ir db = Inr (v, db') \<Longrightarrow> team_step db db'"
| Accept: "accept_invitation now aq db = (r, db') \<Longrightarrow> team_step db db'"
| ChangeRole: "change_role caller team user role db = Inr db' \<Longrightarrow> team_step db db'"
| Delete: "delete_member rf now caller team user db = Inr db' \<Longrightarrow> team_step db db'"
| DeleteV2: "delete_member_v2 rf now acting team user db = Inr db' \<Longrightarrow> team_step db db'"
| Cancel: "cancel_invitation caller team i db = Inr db' \<Longrightarrow> team_step db db'"

inductive_cases team_stepE: "team_step db db'"

lemma maybe_single_Some: "maybe_single xs = Some x \<longleftrightarrow> xs = [x]"
  by (cases xs rule: maybe_single.cases) auto

lemma set_status_keeps [simp]:
  "mb_members (set_status i st db) = mb_members db" "mb_ws_members (set_status i st db) = mb_ws_members db"
  "mb_users (set_status i st db) = mb_users db"
  by (simp_all add: set_status_def)

text \<open>What each operation does to the membership rows.\<close>

lemma removeTeamMember_members:
  "mb_members (removeTeamMember rf now t u db) =
     (if rf_team rf then mb_members db else filter (\<lambda>m. \<not> (mr_team m = t \<and> mr_user m = u)) (mb_members db))"
  "mb_invitations (removeTeamMember rf now t u db) = mb_invitations db"
  "mb_users (removeTeamMember rf now t u db) = mb_users db"
  "mb_workspaces (removeTeamMember rf now t u db) = mb_workspaces db"
  by (simp_all add: removeTeamMember_def Let_def)

lemma change_role_members:
  assumes "change_role caller t u role db = Inr db'"
  shows "mb_members db' = map (\<lambda>m. if mr_team m = t \<and> mr_user m = u then m\<lparr>mr_role := str_of role\<rparr> else m) (mb_members db)"
    and "mb_invitations db' = mb_invitations db"
  using assms by (auto simp: change_role_def Let_def split: if_splits option.splits)

lemma accept_user_keeps:
  assumes "accept_user aq v db = Inr (x, db')"
  shows "mb_members db' = mb_members db" and "mb_invitations db' = mb_invitations db"
    and "mb_workspaces db' = mb_workspaces db"
  using assms by (auto simp: accept_user_def Let_def split: if_splits option.splits)

definition joined :: "int \<Rightarrow> accept_req \<Rightarrow> team_db \<Rightarrow> invitation \<Rightarrow> user_row \<Rightarrow> team_db \<Rightarrow> bool" where
  "joined now aq db v x db1 \<longleftrightarrow> v \<in> set (mb_invitations db) \<and> in_token v = aq_token aq \<and> in_status v = ''pending''
     \<and> now \<le> in_expires_at v \<and> accept_user aq v db = Inr (x, db1) \<and> same_address (ur_email x) (in_email v)
     \<and> address_ok aq (ur_email x)"

lemma accept_as_cases:
  "snd (accept_as aq v x db) = db \<or> snd (accept_as aq v x db) = set_status (in_id v) ''accepted'' db
   \<or> in_status v = ''pending'' \<and> same_address (ur_email x) (in_email v) \<and> address_ok aq (ur_email x)
     \<and> snd (accept_as aq v x db) = join_team v (invited_role v) x db"
  by (simp add: accept_as_def split: option.split)

lemma accept_cases:
  assumes "accept_invitation now aq db = (r, db')"
  obtains (same) v st where "v \<in> set (mb_invitations db)" "st \<noteq> ''pending''" "db' = set_status (in_id v) st db"
  | (unread) "db' = db"
  | (known) v x db1 where "accept_user aq v db = Inr (x, db1)" "db' = db1 \<or> db' = set_status (in_id v) ''accepted'' db1"
  | (joins) v x db1 where "joined now aq db v x db1" "db' = join_team v (invited_role v) x db1"
proof (cases "maybe_single (filter (\<lambda>v. in_token v = aq_token aq) (mb_invitations db))")
  case None
  then show ?thesis using assms unread by (simp add: accept_invitation_def)
next
  case (Some v)
  then have v: "v \<in> set (mb_invitations db)" "in_token v = aq_token aq"
    by (auto simp: maybe_single_Some filter_eq_Cons_iff)
  show ?thesis
  proof (cases "in_expires_at v < now")
    case True
    then show ?thesis using assms Some v same [of v "''expired''"] by (simp add: accept_invitation_def)
  next
    case live: False
    show ?thesis
    proof (cases "accept_user aq v db")
      case (Inl e)
      then show ?thesis using assms Some live unread by (simp add: accept_invitation_def)
    next
      case (Inr p)
      obtain x db1 where p: "p = (x, db1)" by fastforce
      have db': "db' = snd (accept_as aq v x db1)"
        using assms Some live Inr by (simp add: accept_invitation_def p)
      from accept_as_cases [of aq v x db1] Inr live v db' show ?thesis
        unfolding p using known [of v x db1] joins [of v x db1] by (auto simp: joined_def)
    qed
  qed
qed










definition demo_user :: "string \<Rightarrow> string \<Rightarrow> string \<Rightarrow> user_row" where
  "demo_user i e t = \<lparr>ur_id = i, ur_email = e, ur_name = None, ur_team = Some t, ur_onboarded = False\<rparr>"

definition demo_invitation :: invitation where
  "demo_invitation = \<lparr>in_id = ''i1'', in_team = ''t'', in_email = ''vi@x.io'', in_role = Some ''viewer'', in_department = None,
     in_token = ''tok'', in_status = ''pending'', in_invited_by = Some ''f'', in_expires_at = 100\<rparr>"

definition demo_team :: team_db where
  "demo_team = \<lparr>mb_members = [\<lparr>mr_team = ''t'', mr_user = ''f'', mr_role = ''founder''\<rparr>], mb_ws_members = [],
     mb_users = [demo_user ''f'' ''fo@x.io'' ''t'', demo_user ''v'' ''vi@x.io'' ''home''], mb_workspaces = [(''w'', ''t'')],
     mb_departments = [], mb_invitations = [demo_invitation],
     mb_keys = \<lparr>api_keys = [\<lparr>ak_id = ''k'', ak_owner = Some ''v'', ak_workspace = ''w'', ak_revoked_at = None\<rparr>], oauth_tokens = []\<rparr>,
     mb_subscription = (\<lambda>_. None), mb_team_name = (\<lambda>_. Some ''X'')\<rparr>"

definition demo_accept :: accept_req where
  "demo_accept = \<lparr>aq_token = ''tok'', aq_user = Some ''v'', aq_signed_email = Some ''vi@x.io'', aq_supabase = False,
     aq_confirmed_without_mail = False, aq_proven = (\<lambda>_. True), aq_provisioned = None\<rparr>"

definition no_faults :: removal_faults where
  "no_faults = \<lparr>rf_team = False, rf_workspaces = False, rf_keys = False, rf_tokens = False\<rparr>"





text \<open>When its writes are saved, a removal leaves the person with no membership row of the team, no seat in any
  of its workspaces and no live api key there, and keeps every other person's rows as they were.\<close>

theorem removal_complete:
  assumes u: "u \<noteq> []" and ws: "team_workspace_ids db t \<noteq> []"
    and db': "db' = removeTeamMember no_faults now t u db"
  shows "member_of db' t u = None
    \<and> \<not> (\<exists>w \<in> set (mb_ws_members db'). wm_user w = u \<and> wm_workspace w \<in> set (team_workspace_ids db t))
    \<and> \<not> (\<exists>k \<in> set (api_keys (mb_keys db')). ak_owner k = Some u \<and> ak_workspace k \<in> set (team_workspace_ids db t) \<and> ak_revoked_at k = None)
    \<and> filter (\<lambda>m. mr_user m \<noteq> u) (mb_members db') = filter (\<lambda>m. mr_user m \<noteq> u) (mb_members db)
    \<and> filter (\<lambda>w. wm_user w \<noteq> u) (mb_ws_members db') = filter (\<lambda>w. wm_user w \<noteq> u) (mb_ws_members db)"
proof (intro conjI)
  have wss: "team_workspace_ids (db\<lparr>mb_members := ms\<rparr>) t = team_workspace_ids db t" for ms
    by (simp add: team_workspace_ids_def)
  have wsm: "mb_ws_members db' = filter (\<lambda>w. \<not> (wm_workspace w \<in> set (team_workspace_ids db t) \<and> wm_user w = u)) (mb_ws_members db)"
    using ws by (simp add: db' removeTeamMember_def no_faults_def Let_def wss)
  have keys: "mb_keys db' = snd (revokeMemberKeys False False now (Some u) (Some (team_workspace_ids db t)) (mb_keys db))"
    using ws by (simp add: db' removeTeamMember_def no_faults_def Let_def wss)
  have mem: "mb_members db' = filter (\<lambda>m. \<not> (mr_team m = t \<and> mr_user m = u)) (mb_members db)"
    by (simp add: db' removeTeamMember_members no_faults_def)
  have "membership_rows db' t u = []" by (auto simp: membership_rows_def mem filter_empty_conv)
  then show "member_of db' t u = None" by (simp add: member_of_def)
  show "\<not> (\<exists>w \<in> set (mb_ws_members db'). wm_user w = u \<and> wm_workspace w \<in> set (team_workspace_ids db t))"
    by (auto simp: wsm)
  show "\<not> (\<exists>k \<in> set (api_keys (mb_keys db')). ak_owner k = Some u \<and> ak_workspace k \<in> set (team_workspace_ids db t) \<and> ak_revoked_at k = None)"
    using no_live_key_left [of u "Some (team_workspace_ids db t)" False now "mb_keys db"] u ws by (auto simp: keys revoke_match_def)
  show "filter (\<lambda>m. mr_user m \<noteq> u) (mb_members db') = filter (\<lambda>m. mr_user m \<noteq> u) (mb_members db)"
    unfolding mem filter_filter by (rule filter_cong) auto
  show "filter (\<lambda>w. wm_user w \<noteq> u) (mb_ws_members db') = filter (\<lambda>w. wm_user w \<noteq> u) (mb_ws_members db)"
    unfolding wsm filter_filter by (rule filter_cong) auto
qed

theorem removal_complete_witness:
  "member_of (removeTeamMember no_faults 60 ''t'' ''v'' (snd (accept_invitation 50 demo_accept demo_team))) ''t'' ''v'' = None"
proof -
  have "team_workspace_ids (snd (accept_invitation 50 demo_accept demo_team)) ''t'' \<noteq> []" by code_simp
  from removal_complete [OF _ this refl, of "''v''" 60] show ?thesis by simp
qed

section \<open>One pending invitation per address\<close>

definition one_pending :: "team_db \<Rightarrow> bool" where
  "one_pending db \<longleftrightarrow> (\<forall>t e. length (filter (\<lambda>v. in_email v = e) (pending_of db t)) \<le> 1)"

lemma pending_set_status:
  assumes "st \<noteq> ''pending''"
  shows "\<exists>P. pending_of (set_status i st db) t = filter P (pending_of db t)"
proof -
  have "filter (\<lambda>v. in_team v = t \<and> in_status v = ''pending'') (map (\<lambda>v. if in_id v = i then v\<lparr>in_status := st\<rparr> else v) vs)
      = filter (\<lambda>v. in_id v \<noteq> i) (filter (\<lambda>v. in_team v = t \<and> in_status v = ''pending'') vs)" for vs
    using assms by (induction vs) auto
  then show ?thesis unfolding pending_of_def set_status_def by (intro exI [of _ "\<lambda>v. in_id v \<noteq> i"]) simp
qed

lemma one_pending_status: "one_pending db \<Longrightarrow> st \<noteq> ''pending'' \<Longrightarrow> one_pending (set_status i st db)"
proof -
  assume o: "one_pending db" and st: "st \<noteq> ''pending''"
  have "length (filter (\<lambda>v. in_email v = e) (pending_of (set_status i st db) t)) \<le> 1" for t e
  proof -
    obtain P where "pending_of (set_status i st db) t = filter P (pending_of db t)" using pending_set_status [OF st] by blast
    then have "length (filter (\<lambda>v. in_email v = e) (pending_of (set_status i st db) t))
        \<le> length (filter (\<lambda>v. in_email v = e) (pending_of db t))"
      using length_filter_le [of P "filter (\<lambda>v. in_email v = e) (pending_of db t)"] by (simp add: conj_commute)
    then show ?thesis using o by (auto simp: one_pending_def intro: order_trans)
  qed
  then show ?thesis by (simp add: one_pending_def)
qed

lemma one_pending_cong: "mb_invitations db' = mb_invitations db \<Longrightarrow> one_pending db' = one_pending db"
  by (simp add: one_pending_def pending_of_def)

lemma one_pending_invite:
  assumes "createTeamInvitation env selfHosted now fresh ir db = Inr (v, db')" and o: "one_pending db"
  shows "one_pending db'"
proof -
  have db': "db' = db\<lparr>mb_invitations := mb_invitations db @ [v]\<rparr>"
    and none: "maybe_single (filter (\<lambda>x. in_email x = in_email v) (pending_of db (in_team v))) = None"
    using assms(1) by (auto simp: createTeamInvitation_def Let_def split: if_splits option.splits)
  have "filter (\<lambda>x. in_email x = in_email v) (pending_of db (in_team v)) = []"
    using none o [unfolded one_pending_def, rule_format, of "in_email v" "in_team v"]
    by (cases "filter (\<lambda>x. in_email x = in_email v) (pending_of db (in_team v))" rule: maybe_single.cases) auto
  then have "length (filter (\<lambda>x. in_email x = e) (pending_of db' t)) \<le> 1" for t e
    using o [unfolded one_pending_def, rule_format, of e t] by (auto simp: pending_of_def db')
  then show ?thesis by (simp add: one_pending_def)
qed

lemma one_pending_join: "one_pending db \<Longrightarrow> one_pending (join_team v role x db)"
  unfolding join_team_def Let_def by (rule one_pending_status) (simp_all add: one_pending_def pending_of_def)

lemma one_pending_accept:
  assumes "accept_invitation now aq db = (r, db')" and "one_pending db"
  shows "one_pending db'"
  using assms
proof (cases rule: accept_cases)
  case (known v x db1)
  then have "one_pending db1" using assms(2) one_pending_cong accept_user_keeps(2) by metis
  with known show ?thesis by (auto intro: one_pending_status)
next
  case (joins v x db1)
  then have "one_pending db1" using assms(2) one_pending_cong accept_user_keeps(2) joined_def by metis
  with joins show ?thesis by (simp add: one_pending_join)
qed (auto intro: one_pending_status assms(2))

text \<open>A team has at most one pending invitation for an address, and every operation on it keeps that, so the
  check for an existing one never reads two and lets a third through.\<close>

theorem one_pending_invitation:
  assumes "team_step\<^sup>*\<^sup>* db db'" and "one_pending db"
  shows "one_pending db'"
  using assms
proof (induction rule: rtranclp_induct)
  case (step y z)
  from step.hyps(2) step.IH [OF step.prems] show ?case
    by (cases rule: team_step.cases)
      (auto dest: one_pending_invite one_pending_accept simp: delete_member_def delete_member_v2_def cancel_invitation_def
        change_role_members(2) removeTeamMember_members one_pending_cong [OF change_role_members(2)]
        one_pending_cong [OF removeTeamMember_members(2)] split: if_splits option.splits intro: one_pending_status)
qed simp

theorem one_pending_invitation_witness: "one_pending (snd (accept_invitation 50 demo_accept demo_team))"
proof (rule one_pending_invitation)
  show "team_step\<^sup>*\<^sup>* demo_team (snd (accept_invitation 50 demo_accept demo_team))"
    by (rule r_into_rtranclp, rule team_step.Accept, rule surjective_pairing)
qed (simp add: one_pending_def pending_of_def demo_team_def)

section \<open>What removal leaves behind\<close>

text \<open>Accepting sets the account's home team and removing does not unset it, and a person with no membership row whose
  home team it is counts as its owner: a removed viewer can then do what only an owner may.\<close>

lemma removed_member_reads_as_owner:
  assumes "user_by_id db u = Some x" and "ur_team x = Some t"
  shows "checkTeamMembership (removeTeamMember no_faults now t u db) u t roles = Some ''owner''"
proof -
  let ?db = "removeTeamMember no_faults now t u db"
  have "membership_rows ?db t u = []" by (auto simp: membership_rows_def removeTeamMember_members no_faults_def filter_empty_conv)
  moreover have "user_by_id ?db u = Some x" using assms(1) by (simp add: user_by_id_def removeTeamMember_members)
  ultimately show ?thesis using assms(2) by (simp add: checkTeamMembership_def member_of_def)
qed

lemma removed_viewer_takes_over:
  "\<exists>db. delete_member no_faults 60 ''f'' ''t'' ''v'' (snd (accept_invitation 50 demo_accept demo_team)) = Inr db
     \<and> checkTeamMembership (snd (accept_invitation 50 demo_accept demo_team)) ''v'' ''t'' ADMIN_TEAM_ROLES = None
     \<and> checkTeamMembership db ''v'' ''t'' ADMIN_TEAM_ROLES = Some ''owner''"
proof -
  define db where "db = removeTeamMember no_faults 60 ''t'' ''v'' (snd (accept_invitation 50 demo_accept demo_team))"
  have "delete_member no_faults 60 ''f'' ''t'' ''v'' (snd (accept_invitation 50 demo_accept demo_team)) = Inr db"
  proof -
    have "checkTeamMembership (snd (accept_invitation 50 demo_accept demo_team)) ''f'' ''t'' ADMIN_TEAM_ROLES \<noteq> None" by code_simp
    moreover have "map_option mr_role (member_of (snd (accept_invitation 50 demo_accept demo_team)) ''t'' ''v'') \<noteq> Some ''founder''"
      by code_simp
    ultimately show ?thesis by (simp add: delete_member_def db_def)
  qed
  moreover have "checkTeamMembership (snd (accept_invitation 50 demo_accept demo_team)) ''v'' ''t'' ADMIN_TEAM_ROLES = None"
    by code_simp
  moreover have "checkTeamMembership db ''v'' ''t'' ADMIN_TEAM_ROLES = Some ''owner''"
    unfolding db_def by (rule removed_member_reads_as_owner, code_simp, code_simp)
  ultimately show ?thesis by blast
qed

end
