(* ===== verification/DocOps.thy ===== *)
theory DocOps
  imports LivingRoundTrip JsNumber
begin

text \<open>
  The model's edits of a living document, before they are applied (\<^verbatim>\<open>parseOps\<close>, \<^verbatim>\<open>OP_SHAPES\<close> and
  \<^verbatim>\<open>checkValue\<close> in \<^verbatim>\<open>apps/api/src/lib/livingDoc.mjs\<close>), and the change log of what was applied
  (\<^verbatim>\<open>changelogOf\<close>).

  Reading JSON is a parameter; the theorems hold for any reading. An error's wording is a constructor. The
  lookup of an operation by its name is the language's, so names every object inherits are found as well.
\<close>

section \<open>Shapes\<close>

datatype field_kind = KId | KIdOpt | KIdNull | KText | KTexts | KHeading | KLevel | KRefs

definition OP_SHAPES :: "(string \<times> (string \<times> field_kind) list) list" where
  "OP_SHAPES =
    [(''append_block'', [(''section_id'', KId), (''text'', KText), (''based_on'', KRefs)]),
     (''insert_block'', [(''section_id'', KId), (''after_block_id'', KIdNull), (''text'', KText), (''based_on'', KRefs)]),
     (''replace_block'', [(''section_id'', KId), (''block_id'', KId), (''text'', KText), (''based_on'', KRefs)]),
     (''remove_block'', [(''section_id'', KId), (''block_id'', KId)]),
     (''add_section'', [(''heading'', KHeading), (''level'', KLevel), (''blocks'', KTexts), (''after_section_id'', KIdOpt), (''based_on'', KRefs)]),
     (''remove_section'', [(''section_id'', KId)]),
     (''replace_section_blocks'', [(''section_id'', KId), (''blocks'', KTexts), (''based_on'', KRefs)]),
     (''rename_section'', [(''section_id'', KId), (''new_heading'', KHeading)])]"

definition OPTIONAL :: "field_kind list" where
  "OPTIONAL = [KIdOpt, KRefs]"

text \<open>The keys a function, or the constructor, answers to besides those of every object.\<close>

definition FUNCTION_KEYS :: "string list" where
  "FUNCTION_KEYS = [''length'', ''name'', ''arguments'', ''caller'', ''apply'', ''bind'', ''call'']"

definition CONSTRUCTOR_KEYS :: "string list" where
  "CONSTRUCTOR_KEYS = [''prototype'', ''assign'', ''getOwnPropertyDescriptor'', ''getOwnPropertyDescriptors'',
     ''getOwnPropertyNames'', ''getOwnPropertySymbols'', ''hasOwn'', ''is'', ''preventExtensions'', ''seal'', ''create'',
     ''defineProperties'', ''defineProperty'', ''freeze'', ''getPrototypeOf'', ''setPrototypeOf'', ''isExtensible'',
     ''isFrozen'', ''isSealed'', ''keys'', ''entries'', ''fromEntries'', ''values'', ''groupBy'']"

text \<open>A shape: its own entries, and the keys \<^verbatim>\<open>in\<close> finds on it beside them.\<close>

record op_shape =
  os_entries :: "(string \<times> field_kind) list"
  os_inherited :: "string list"

text \<open>The name is turned into a property key, so \<^verbatim>\<open>["append_block"]\<close> finds a shape too.\<close>

definition shape_of :: "jsval \<Rightarrow> op_shape option" where
  "shape_of name =
     (let s = js_tostring name in
      case map_of OP_SHAPES s of
        Some fs \<Rightarrow> Some \<lparr>os_entries = fs, os_inherited = OBJECT_KEYS\<rparr>
      | None \<Rightarrow>
          if s = ''__proto__'' then Some \<lparr>os_entries = [], os_inherited = OBJECT_KEYS\<rparr>
          else if s = ''constructor'' then Some \<lparr>os_entries = [], os_inherited = OBJECT_KEYS @ FUNCTION_KEYS @ CONSTRUCTOR_KEYS\<rparr>
          else if s \<in> set OBJECT_KEYS then Some \<lparr>os_entries = [], os_inherited = OBJECT_KEYS @ FUNCTION_KEYS\<rparr>
          else None)"

section \<open>Values\<close>

datatype value_fault = NotId | NotIdOrNull | HeadingMarked | NotOneLine | NotRefs | NotLevel
  | EmptyText | HoldsHeading | OpensFence | NotTexts | InText nat value_fault

fun is_str :: "jsval \<Rightarrow> bool" where
  "is_str (JStr s) = (js_trim s \<noteq> [])"
| "is_str _ = False"

fun is_integer :: "jsval \<Rightarrow> bool" where
  "is_integer (JNum n) = (of_int \<lfloor>n\<rfloor> = n)"
| "is_integer _ = False"

fun item_number :: "jsval \<Rightarrow> bool" where
  "item_number (JNum n) = (of_int \<lfloor>n\<rfloor> = n \<and> 1 \<le> n)"
| "item_number (JStr s) = (s \<noteq> [] \<and> list_all is_digit s)"
| "item_number _ = False"

definition text_fault :: "jsval \<Rightarrow> value_fault option" where
  "text_fault v = (if \<not> is_str v then Some EmptyText
     else (case v of JStr t \<Rightarrow>
         if list_ex (\<lambda>s. rs_heading s \<noteq> []) (splitRaw t) then Some HoldsHeading
         else if unclosedFence t then Some OpensFence else None
       | _ \<Rightarrow> Some EmptyText))"

fun first_fault :: "nat \<Rightarrow> jsval list \<Rightarrow> value_fault option" where
  "first_fault i [] = None"
| "first_fault i (v # vs) = (case text_fault v of Some e \<Rightarrow> Some (InText i e) | None \<Rightarrow> first_fault (Suc i) vs)"

fun checkValue :: "field_kind \<Rightarrow> jsval \<Rightarrow> value_fault option" where
  "checkValue KId v = (if is_str v then None else Some NotId)"
| "checkValue KIdOpt v = (if v = JNull \<or> is_str v then None else Some NotIdOrNull)"
| "checkValue KIdNull v = (if v = JNull \<or> is_str v then None else Some NotIdOrNull)"
| "checkValue KHeading v = (case v of
     JStr h \<Rightarrow> if js_trim h \<noteq> [] \<and> nl \<notin> set h then (if hd (js_trim h) = CHR ''#'' then Some HeadingMarked else None)
       else Some NotOneLine
   | _ \<Rightarrow> Some NotOneLine)"
| "checkValue KRefs v = (case v of
     JNull \<Rightarrow> None
   | JArr ns \<Rightarrow> if length ns \<le> 50 \<and> list_all item_number ns then None else Some NotRefs
   | _ \<Rightarrow> Some NotRefs)"
| "checkValue KLevel v = (case v of
     JNum n \<Rightarrow> if of_int \<lfloor>n\<rfloor> = n \<and> 1 \<le> n \<and> n \<le> 6 then None else Some NotLevel
   | _ \<Rightarrow> Some NotLevel)"
| "checkValue KText v = text_fault v"
| "checkValue KTexts v = (case v of
     JArr vs \<Rightarrow> if vs = [] then Some NotTexts else first_fault 0 vs
   | _ \<Rightarrow> Some NotTexts)"

section \<open>Reading the reply\<close>

datatype op_error = NotAnObjectReply | NotValidJson | NoOperations | NotAnObject nat | UnknownOpName nat
  | ExtraKey nat string | MissingKey nat string | BadValue nat string value_fault

fun own_keys :: "jsval \<Rightarrow> string list" where
  "own_keys (JObj kvs) = map fst kvs"
| "own_keys _ = []"

definition has_key :: "jsval \<Rightarrow> string \<Rightarrow> bool" where
  "has_key op k = (k \<in> set (own_keys op) \<or> k \<in> set OBJECT_KEYS)"

definition extra_keys :: "nat \<Rightarrow> op_shape \<Rightarrow> jsval \<Rightarrow> op_error list" where
  "extra_keys i sh op = map (ExtraKey i)
     (filter (\<lambda>k. k \<noteq> ''op'' \<and> k \<notin> set (map fst (os_entries sh) @ os_inherited sh)) (own_keys op))"

definition field_error :: "nat \<Rightarrow> jsval \<Rightarrow> string \<times> field_kind \<Rightarrow> op_error list" where
  "field_error i op f = (case f of (k, kind) \<Rightarrow>
     if \<not> has_key op k then (if kind \<in> set OPTIONAL then [] else [MissingKey i k])
     else (case checkValue kind (js_prop op k) of Some e \<Rightarrow> [BadValue i k e] | None \<Rightarrow> []))"

definition op_errors :: "nat \<times> jsval \<Rightarrow> op_error list" where
  "op_errors iop = (case iop of (i, op) \<Rightarrow>
     if \<not> (case op of JObj _ \<Rightarrow> True | _ \<Rightarrow> False) then [NotAnObject i]
     else (case shape_of (js_prop op ''op'') of
         None \<Rightarrow> [UnknownOpName i]
       | Some sh \<Rightarrow> extra_keys i sh op @ concat (map (field_error i op) (os_entries sh))))"

text \<open>From the first opening to the last closing brace.\<close>

definition outer_braces :: "string \<Rightarrow> string option" where
  "outer_braces s =
     (let a = length (takeWhile (\<lambda>c. c \<noteq> CHR ''{'') s);
          b = length s - Suc (length (takeWhile (\<lambda>c. c \<noteq> CHR ''}'') (rev s)))
      in if CHR ''{'' \<notin> set s \<or> CHR ''}'' \<notin> set s \<or> b \<le> a then None else Some (take (Suc b - a) (drop a s)))"

definition check_ops :: "jsval list \<Rightarrow> op_error list + jsval list" where
  "check_ops ops = (let errors = concat (map op_errors (enumerate 0 ops)) in if errors = [] then Inr ops else Inl errors)"

definition parseOps :: "(string \<Rightarrow> jsval option) \<Rightarrow> string option \<Rightarrow> op_error list + jsval list" where
  "parseOps json text =
     (case outer_braces (str_of text) of
        None \<Rightarrow> Inl [NotAnObjectReply]
      | Some body \<Rightarrow> (case json body of
          None \<Rightarrow> Inl [NotValidJson]
        | Some j \<Rightarrow> (case js_prop j ''operations'' of
            JArr ops \<Rightarrow> check_ops ops
          | _ \<Rightarrow> Inl [NoOperations])))"

section \<open>The operation an accepted value stands for\<close>

text \<open>What applying reads from it. \<^verbatim>\<open>citesOf\<close>: the numbers or ids it rests on, without repetition.\<close>

definition citesOf :: "jsval \<Rightarrow> string list option" where
  "citesOf op = (case js_prop op ''based_on'' of
     JArr (r # rs) \<Rightarrow> Some (js_uniq (map js_tostring (r # rs))) | _ \<Rightarrow> None)"

definition str_field :: "jsval \<Rightarrow> string \<Rightarrow> string" where
  "str_field op k = str_of (js_str (js_prop op k))"

fun str_elems :: "jsval \<Rightarrow> string list" where
  "str_elems (JArr vs) = map (\<lambda>v. str_of (js_str v)) vs"
| "str_elems _ = []"

definition level_field :: "jsval \<Rightarrow> nat" where
  "level_field op = (case js_prop op ''level'' of JNum n \<Rightarrow> nat \<lfloor>n\<rfloor> | _ \<Rightarrow> 0)"

definition decode_op :: "jsval \<Rightarrow> edit_op" where
  "decode_op op =
     (let name = str_field op ''op''; sid = str_field op ''section_id''; text = str_field op ''text''; c = citesOf op in
      if name = ''append_block'' then AppendBlock sid text c
      else if name = ''insert_block'' then InsertBlock sid (js_str (js_prop op ''after_block_id'')) text c
      else if name = ''replace_block'' then ReplaceBlock sid (str_field op ''block_id'') text c
      else if name = ''remove_block'' then RemoveBlock sid (str_field op ''block_id'')
      else if name = ''add_section'' then AddSection (str_field op ''heading'') (level_field op) (str_elems (js_prop op ''blocks''))
        (js_str (js_prop op ''after_section_id'')) c
      else if name = ''remove_section'' then RemoveSection sid
      else if name = ''replace_section_blocks'' then ReplaceSectionBlocks sid (str_elems (js_prop op ''blocks'')) c
      else if name = ''rename_section'' then RenameSection sid (str_field op ''new_heading'')
      else OtherOp)"

section \<open>Accepted operations are well typed\<close>

definition id_typed :: "string \<Rightarrow> bool" where
  "id_typed s = (js_trim s \<noteq> [])"

definition text_typed :: "string \<Rightarrow> bool" where
  "text_typed t = (js_trim t \<noteq> [] \<and> list_all (\<lambda>s. rs_heading s = []) (splitRaw t) \<and> \<not> unclosedFence t)"

definition heading_typed :: "string \<Rightarrow> bool" where
  "heading_typed h = (js_trim h \<noteq> [] \<and> nl \<notin> set h \<and> hd (js_trim h) \<noteq> CHR ''#'')"

fun op_typed :: "edit_op \<Rightarrow> bool" where
  "op_typed (AppendBlock sid t c) = (id_typed sid \<and> text_typed t)"
| "op_typed (InsertBlock sid after t c) = (id_typed sid \<and> pred_option id_typed after \<and> text_typed t)"
| "op_typed (ReplaceBlock sid b t c) = (id_typed sid \<and> id_typed b \<and> text_typed t)"
| "op_typed (RemoveBlock sid b) = (id_typed sid \<and> id_typed b)"
| "op_typed (AddSection h l ts after c) =
     (heading_typed h \<and> 1 \<le> l \<and> l \<le> 6 \<and> ts \<noteq> [] \<and> list_all text_typed ts \<and> pred_option id_typed after)"
| "op_typed (RemoveSection sid) = id_typed sid"
| "op_typed (ReplaceSectionBlocks sid ts c) = (id_typed sid \<and> ts \<noteq> [] \<and> list_all text_typed ts)"
| "op_typed (RenameSection sid h) = (id_typed sid \<and> heading_typed h)"
| "op_typed OtherOp = True"

text \<open>A field without a fault, by its kind.\<close>

lemma field_errorD:
  assumes "field_error i op (k, kind) = []"
  shows "checkValue kind (js_prop op k) = None \<or> (kind \<in> {KIdOpt, KRefs} \<and> js_prop op k = JUndef)"
proof (cases "has_key op k")
  case True
  then show ?thesis using assms by (auto simp: field_error_def split: option.splits)
next
  case False
  then have "js_prop op k = JUndef"
    by (cases op) (auto simp: has_key_def dest: map_of_SomeD split: option.split intro!: image_eqI [of k fst])
  with False assms show ?thesis by (auto simp: field_error_def OPTIONAL_def split: if_splits)
qed

lemma is_strD: "is_str v \<Longrightarrow> \<exists>s. v = JStr s \<and> id_typed s"
  by (cases v) (auto simp: id_typed_def)

lemma text_faultD: "text_fault v = None \<Longrightarrow> \<exists>t. v = JStr t \<and> text_typed t"
  by (cases v) (auto simp: text_fault_def text_typed_def list_ex_iff list_all_iff split: if_splits)

lemma first_faultD: "first_fault i vs = None \<Longrightarrow> list_all text_typed (map (\<lambda>v. str_of (js_str v)) vs)"
proof (induction vs arbitrary: i)
  case (Cons v vs)
  then show ?case using text_faultD [of v] by (auto split: option.splits)
qed simp

lemma no_fault:
  "checkValue KId v = None \<Longrightarrow> id_typed (str_of (js_str v))"
  "checkValue KText v = None \<Longrightarrow> text_typed (str_of (js_str v))"
  "checkValue KHeading v = None \<Longrightarrow> heading_typed (str_of (js_str v))"
  "checkValue KIdNull v = None \<Longrightarrow> pred_option id_typed (js_str v)"
  "checkValue KIdOpt v = None \<Longrightarrow> pred_option id_typed (js_str v)"
  "checkValue KTexts v = None \<Longrightarrow> str_elems v \<noteq> [] \<and> list_all text_typed (str_elems v)"
  by (cases v; auto dest: is_strD text_faultD first_faultD simp: id_typed_def heading_typed_def split: if_splits)+

lemma level_no_fault:
  assumes "checkValue KLevel (js_prop op ''level'') = None"
  shows "1 \<le> level_field op \<and> level_field op \<le> 6"
proof -
  obtain n where n: "js_prop op ''level'' = JNum n" "of_int \<lfloor>n\<rfloor> = n" "1 \<le> n" "n \<le> 6"
    using assms by (cases "js_prop op ''level''") (auto split: if_splits)
  then have "1 \<le> \<lfloor>n\<rfloor>" "\<lfloor>n\<rfloor> \<le> 6" by (auto simp: le_floor_iff floor_le_iff)
  then have "1 \<le> nat \<lfloor>n\<rfloor> \<and> nat \<lfloor>n\<rfloor> \<le> 6" by linarith
  then show ?thesis by (simp only: level_field_def n(1) jsval.case)
qed

lemma field_typed:
  "field_error i op (k, KId) = [] \<Longrightarrow> id_typed (str_field op k)"
  "field_error i op (k, KText) = [] \<Longrightarrow> text_typed (str_field op k)"
  "field_error i op (k, KHeading) = [] \<Longrightarrow> heading_typed (str_field op k)"
  "field_error i op (k, KIdNull) = [] \<Longrightarrow> pred_option id_typed (js_str (js_prop op k))"
  "field_error i op (k, KIdOpt) = [] \<Longrightarrow> pred_option id_typed (js_str (js_prop op k))"
  "field_error i op (k, KTexts) = [] \<Longrightarrow> str_elems (js_prop op k) \<noteq> [] \<and> list_all text_typed (str_elems (js_prop op k))"
  "field_error i op (''level'', KLevel) = [] \<Longrightarrow> 1 \<le> level_field op \<and> level_field op \<le> 6"
  unfolding str_field_def
  by (drule field_errorD, (elim disjE, (erule no_fault level_no_fault), simp)+)+

lemma typed_by_shape:
  assumes shape: "map_of OP_SHAPES name = Some fs" and name: "js_prop op ''op'' = JStr name"
    and ok: "concat (map (field_error i op) fs) = []"
  shows "op_typed (decode_op op)"
  using shape ok unfolding OP_SHAPES_def
  by (auto simp: decode_op_def name Let_def str_field_def [of op "''op''"] dest!: field_typed split: if_splits)

lemma op_errors_typed:
  assumes "op_errors (i, op) = []"
  shows "op_typed (decode_op op)"
proof -
  from assms obtain sh where sh: "shape_of (js_prop op ''op'') = Some sh" "concat (map (field_error i op) (os_entries sh)) = []"
    by (cases op) (auto simp: op_errors_def split: option.splits)
  show ?thesis
  proof (cases "js_prop op ''op''")
    case (JStr name)
    show ?thesis
    proof (cases "map_of OP_SHAPES name")
      case None
      then have "name \<notin> fst ` set OP_SHAPES" by (simp add: map_of_eq_None_iff)
      then show ?thesis by (simp add: decode_op_def str_field_def JStr OP_SHAPES_def)
    next
      case (Some fs)
      then show ?thesis using sh typed_by_shape [OF Some JStr, of i] by (auto simp: shape_of_def JStr)
    qed
  qed (simp_all add: decode_op_def str_field_def)
qed

lemma parseOps_Inr: "parseOps json text = Inr ops \<Longrightarrow> check_ops ops = Inr ops"
proof -
  have same: "check_ops xs = Inr ops \<Longrightarrow> xs = ops" for xs by (simp add: check_ops_def Let_def split: if_splits)
  show "parseOps json text = Inr ops \<Longrightarrow> check_ops ops = Inr ops"
    unfolding parseOps_def by (auto split: option.split_asm jsval.split_asm dest: same)
qed

lemma parseOps_typed:
  assumes "parseOps json text = Inr ops" and "op \<in> set ops"
  shows "op_typed (decode_op op)"
proof -
  have "concat (map op_errors (enumerate 0 ops)) = []"
    using parseOps_Inr [OF assms(1)] by (simp add: check_ops_def Let_def split: if_splits)
  moreover obtain i where "i < length ops" "ops ! i = op" using assms(2) by (auto simp: in_set_conv_nth)
  then have "(i, op) \<in> set (enumerate 0 ops)" by (simp add: in_set_enumerate_eq)
  ultimately have "op_errors (i, op) = []" by fastforce
  then show ?thesis by (rule op_errors_typed)
qed

text \<open>C9: Every operation of an accepted reply is well typed for the code that applies it: the ids are non-empty, a
  text is non-empty, holds no heading and closes its fences, a heading is one line of text, a level is
  between one and six and a list of texts is not empty. An operation the applier does not know is
  accepted only under a name it skips.\<close>

theorem accepted_ops_are_typed:
  assumes "parseOps json text = Inr ops" and "op \<in> set ops"
  shows "op_typed (decode_op op)"
  using assms by (rule parseOps_typed)

definition demo_op :: jsval where
  "demo_op = JObj [(''op'', JStr ''append_block''), (''section_id'', JStr ''intro''),
     (''text'', JStr ''Pricing came up twice''), (''based_on'', JArr [JNum 1, JStr ''3''])]"

definition demo_reply :: jsval where
  "demo_reply = JObj [(''operations'', JArr [demo_op])]"

theorem accepted_ops_are_typed_witness:
  "parseOps (\<lambda>_. Some demo_reply) (Some ''{..}'') = Inr [demo_op] \<and> text_typed ''Pricing came up twice''"
proof -
  have p: "parseOps (\<lambda>_. Some demo_reply) (Some ''{..}'') = Inr [demo_op]" by code_simp
  from accepted_ops_are_typed [OF p, of demo_op] have "op_typed (decode_op demo_op)" by simp
  then show ?thesis using p by (simp add: decode_op_def demo_op_def str_field_def Let_def)
qed

text \<open>The reply is meant to hold nothing but the eight operations with exactly their keys. A name that every object
  inherits passes for an operation without fields, and such a key for one that is taken.\<close>

lemma inherited_names_accepted:
  "parseOps (\<lambda>_. Some (JObj [(''operations'', JArr [JObj [(''op'', JStr ''toString'')]])])) (Some ''{..}'')
     = Inr [JObj [(''op'', JStr ''toString'')]]"
  "extra_keys 0 \<lparr>os_entries = [(''section_id'', KId)], os_inherited = OBJECT_KEYS\<rparr> (JObj [(''op'', JNull), (''valueOf'', JNull)]) = []"
  by code_simp+

section \<open>The change log\<close>







definition more_text :: "nat \<Rightarrow> string" where
  "more_text n = '', and '' @ show_nat n @ '' more''"

fun log_line :: "string \<Rightarrow> string list \<Rightarrow> string" where
  "log_line line [] = line"
| "log_line line (t # ts) =
     (let cand = (if line = [] then t else line @ '', '' @ t);
          tail = (if ts = [] then [] else more_text (length ts))
      in if 120 < length (cand @ tail) then take 120 ((if line = [] then take 100 t else line) @ more_text (length (t # ts)))
         else log_line cand ts)"







text \<open>One change that does not fit is shown cut and counted as well.\<close>

lemma changelog_counts_the_shown_one:
  "log_line [] [replicate 121 CHR ''x''] = replicate 100 CHR ''x'' @ '', and 1 more''"
  by code_simp

end
