(* ===== verification/DocEdits.thy ===== *)
theory DocEdits
  imports DocOps
begin

text \<open>
  The edit path of a living document as a whole (\<^verbatim>\<open>apps/api/src/lib/livingDoc.mjs\<close>): a reply is accepted
  (\<open>parseOps\<close>), its operations are applied (\<open>applyOps\<close>), the document is written (\<open>renderDoc\<close>) and read
  back (\<open>parseDoc\<close>). What the check of a value promises is what the splitter needs, so a document
  edited this way is written and read back without a change. No definition here models code of its own.
\<close>

section \<open>Texts that were checked\<close>

lemma good_secs_headings: "good_secs rs \<Longrightarrow> s \<in> set rs \<Longrightarrow> rs_heading s \<noteq> []"
  by (induction rs) (auto simp: good_heading_def)

lemma split_no_headings:
  assumes "frag False None p" and "fence_end None p = f" and "clean p" and "clean ls"
    and "\<forall>s \<in> set (split_from None p f ls). rs_heading s = []"
  shows "frag False f ls \<and> split_from None p f ls = close_section None (p @ ls)"
  using assms
proof (induction ls arbitrary: p f)
  case (Cons l ls)
  show ?case
  proof (cases "fence_mark l")
    case (Some m)
    with Cons.prems Cons.IH [of "p @ [l]" "fenceStep f m"] show ?thesis by (simp add: fence_after_def)
  next
    case None
    show ?thesis
    proof (cases "if f = None then heading_line l else None")
      case hn: None
      then have "f \<noteq> None \<or> heading_line l = None" by (auto split: if_splits)
      with Cons.prems Cons.IH [of "p @ [l]" f] None hn show ?thesis by (simp add: fence_after_def)
    next
      case (Some x)
      obtain n h where x: "x = (n, h)" by (cases x)
      have f: "f = None" and hl: "heading_line l = Some (n, h)" using Some x by (auto split: if_splits)
      have "good_heading \<lparr>rs_heading = h, rs_level = n, rs_blocks = []\<rparr>"
        using heading_line_good [OF hl] Cons.prems by simp
      from split_from_some [of "[]" None ls, OF _ _ _ _ this] Cons.prems
      have rec: "good_secs (split_from (Some (h, n)) [] None ls)" "split_from (Some (h, n)) [] None ls \<noteq> []" by simp_all
      then obtain s where s: "s \<in> set (split_from (Some (h, n)) [] None ls)" "rs_heading s \<noteq> []"
        using good_secs_headings by (metis list.set_intros(1) neq_Nil_conv)
      have "s \<in> set (split_from None p f (l # ls))" using s(1) None hl f by simp
      with Cons.prems(5) s(2) show ?thesis by blast
    qed
  qed
qed simp

definition block_ok :: "string \<Rightarrow> bool" where
  "block_ok t = (good_text t \<and> closed t)"

lemma good_blocks_False: "good_blocks False ts \<longleftrightarrow> (\<forall>t \<in> set ts. block_ok t)"
  by (induction ts) (auto simp: block_ok_def)

lemma good_blocks_ok: "\<forall>t \<in> set ts. block_ok t \<Longrightarrow> good_blocks b ts"
  using good_blocks_mono good_blocks_False by blast

lemma clean_lines: "CR \<notin> set t \<Longrightarrow> clean (lines_of t)"
  using lines_no_nl [of _ t] join_set [of CR _ "lines_of t" "[nl]"] by (auto simp: clean_def)

lemma all_blank_join: "\<forall>l \<in> set ls. blank l \<Longrightarrow> js_trim (js_join [nl] ls) = []"
  unfolding blank_all_ws trim_empty by (induction "[nl]" ls rule: js_join.induct) (auto simp: nl_def is_ws_def)

text \<open>A checked text becomes blocks that can stand anywhere.\<close>

lemma checked_text_blocks:
  assumes t: "text_typed t" and cr: "CR \<notin> set t" and f: "f \<in> set (fragments t)"
  shows "block_ok f"
proof -
  have split: "splitRaw t = split_from None [] None (lines_of t)" by (simp add: splitRaw_def drop_crlf_id [OF cr])
  have h: "\<forall>s \<in> set (split_from None [] None (lines_of t)). rs_heading s = []"
    using t by (auto simp: text_typed_def split list_all_iff)
  from split_no_headings [OF _ _ _ clean_lines [OF cr], of "[]" None] h
  have fr: "frag False None (lines_of t)" and s: "splitRaw t = close_section None (lines_of t)" by (simp_all add: split)
  have "fence_end None (lines_of t) = None" using t by (simp add: text_typed_def unclosedFence_def fence_end_def)
  then have "good_blocks False (blocksOf (lines_of t))" using blocksOf_good(1) [OF fr clean_lines [OF cr]] by simp
  moreover have "f \<in> set (blocksOf (lines_of t))" using f by (auto simp: fragments_def s close_section_def split: if_splits)
  ultimately show ?thesis by (simp add: good_blocks_False)
qed

lemma checked_text_nonempty:
  assumes t: "text_typed t" and cr: "CR \<notin> set t"
  shows "fragments t \<noteq> []"
proof -
  have split: "splitRaw t = split_from None [] None (lines_of t)" by (simp add: splitRaw_def drop_crlf_id [OF cr])
  have h: "\<forall>s \<in> set (split_from None [] None (lines_of t)). rs_heading s = []"
    using t by (auto simp: text_typed_def split list_all_iff)
  from split_no_headings [OF _ _ _ clean_lines [OF cr], of "[]" None] h
  have fr: "frag False None (lines_of t)" and s: "splitRaw t = close_section None (lines_of t)" by (simp_all add: split)
  have "js_trim (js_join [nl] (lines_of t)) \<noteq> []" using t by (simp add: text_typed_def)
  then have "list_ex (\<lambda>l. \<not> blank l) (lines_of t)" using all_blank_join by (fastforce simp: list_ex_iff)
  then show ?thesis using blocksOf_good(2) [OF fr clean_lines [OF cr]] by (simp add: fragments_def s close_section_def)
qed

definition heading_ok :: "string \<Rightarrow> bool" where
  "heading_ok h = (h \<noteq> [] \<and> js_trim h = h \<and> nl \<notin> set h \<and> CR \<notin> set h)"

lemma checked_heading: "heading_typed h \<Longrightarrow> CR \<notin> set h \<Longrightarrow> heading_ok (js_trim h)"
  using js_trim_sub [of h] by (auto simp: heading_typed_def heading_ok_def js_trim_idem)

section \<open>Stable documents\<close>

definition sec_ok :: "doc_section \<Rightarrow> bool" where
  "sec_ok s = ((\<forall>b \<in> set (ds_blocks s). block_ok (bl_text b))
     \<and> (if ds_heading s = [] then ds_level s = 2 else heading_ok (ds_heading s) \<and> 1 \<le> ds_level s \<and> ds_level s \<le> 6))"

definition stable_doc :: "doc_section list \<Rightarrow> bool" where
  "stable_doc doc = ((\<forall>s \<in> set doc. sec_ok s) \<and> (\<forall>s \<in> set (tl doc). ds_heading s \<noteq> []))"

lemma stable_upd:
  assumes "stable_doc doc" and "k < length doc" and "sec_ok s" and "ds_heading s = [] \<Longrightarrow> ds_heading (doc ! k) = []"
  shows "stable_doc (doc[k := s])"
proof -
  have "\<forall>x \<in> set (doc[k := s]). sec_ok x" using assms(1,3) by (auto simp: stable_doc_def dest!: set_update_subset_insert [THEN subsetD])
  moreover have "ds_heading x \<noteq> []" if x: "x \<in> set (tl (doc[k := s]))" for x
  proof (cases k)
    case 0
    then show ?thesis using assms(1) x by (cases doc) (auto simp: stable_doc_def)
  next
    case (Suc j)
    have "tl (doc[k := s]) = (tl doc)[j := s]" using Suc by (cases doc) auto
    then have "x = s \<or> x \<in> set (tl doc)" using x set_update_subset_insert [of "tl doc" j s] by auto
    moreover have "doc ! k \<in> set (tl doc)" using assms(2) Suc by (cases doc) auto
    ultimately show ?thesis using assms(1,4) by (auto simp: stable_doc_def)
  qed
  ultimately show ?thesis by (simp add: stable_doc_def)
qed

lemma stable_blocks:
  assumes "stable_doc doc" and "k < length doc" and "\<forall>b \<in> set bs. block_ok (bl_text b)"
  shows "stable_doc (doc[k := (doc ! k)\<lparr>ds_blocks := bs\<rparr>])"
proof -
  have "sec_ok (doc ! k)" using assms(1,2) by (simp add: stable_doc_def)
  then show ?thesis using assms by (intro stable_upd) (auto simp: sec_ok_def)
qed

lemma stable_blocks_at: "stable_doc doc \<Longrightarrow> k < length doc \<Longrightarrow> b \<in> set (ds_blocks (doc ! k)) \<Longrightarrow> block_ok (bl_text b)"
  unfolding stable_doc_def sec_ok_def using nth_mem by blast

fun op_clean :: "edit_op \<Rightarrow> bool" where
  "op_clean (AppendBlock _ t _) = (CR \<notin> set t)"
| "op_clean (InsertBlock _ _ t _) = (CR \<notin> set t)"
| "op_clean (ReplaceBlock _ _ t _) = (CR \<notin> set t)"
| "op_clean (AddSection h _ ts _ _) = (CR \<notin> set h \<and> (\<forall>t \<in> set ts. CR \<notin> set t))"
| "op_clean (ReplaceSectionBlocks _ ts _) = (\<forall>t \<in> set ts. CR \<notin> set t)"
| "op_clean (RenameSection _ h) = (CR \<notin> set h)"
| "op_clean _ = True"

lemma minted_ok:
  assumes "mint_texts sha8 c ts used = (bs, used')" and "\<forall>t \<in> set ts. block_ok t"
  shows "\<forall>b \<in> set bs. block_ok (bl_text b)"
proof -
  have "bl_text ` set bs = set ts" using mint_texts_fresh [OF assms(1)] by (metis list.set_map)
  with assms(2) show ?thesis by blast
qed

lemma mint_ok: "mint sha8 t c used = (bs, used') \<Longrightarrow> text_typed t \<Longrightarrow> CR \<notin> set t \<Longrightarrow> \<forall>b \<in> set bs. block_ok (bl_text b)"
  using minted_ok checked_text_blocks unfolding mint_def by blast

lemma reuse_sub: "reuse_blocks free ts = (r, f) \<Longrightarrow> Some b \<in> set r \<Longrightarrow> b \<in> set free"
proof (induction free ts arbitrary: r f rule: reuse_blocks.induct)
  case (2 free t ts)
  then show ?case
    by (fastforce split: option.splits prod.splits dest: find_index_Some set_remove_at [THEN subsetD])
qed simp

lemma fill_ok:
  "fill_blocks sha8 c tb used = (bs, used') \<Longrightarrow> \<forall>(t, o') \<in> set tb. block_ok t \<and> (\<forall>b. o' = Some b \<longrightarrow> block_ok (bl_text b))
    \<Longrightarrow> \<forall>b \<in> set bs. block_ok (bl_text b)"
  by (induction sha8 c tb used arbitrary: bs used' rule: fill_blocks.induct) (fastforce simp: Let_def split: prod.splits)+

lemma set_remove: "x \<in> set (remove_at xs i) \<Longrightarrow> x \<in> set xs"
  using set_remove_at by fastforce

lemma texts_ok: "list_all text_typed ts \<Longrightarrow> \<forall>t \<in> set ts. CR \<notin> set t \<Longrightarrow> \<forall>f \<in> set (concat (map fragments ts)). block_ok f"
  using checked_text_blocks by (fastforce simp: list_all_iff)

section \<open>Every accepted operation keeps it\<close>

lemma splice_ok: "\<forall>b \<in> set xs. P b \<Longrightarrow> \<forall>b \<in> set ys. P b \<Longrightarrow> \<forall>b \<in> set (splice_in xs i ys). P b"
  by auto

lemma fragments_ok: "text_typed t \<Longrightarrow> CR \<notin> set t \<Longrightarrow> \<forall>f \<in> set (fragments t). block_ok f"
  using checked_text_blocks by blast

lemma stable_in_section:
  assumes doc: "stable_doc doc" and k: "k < length doc" and ty: "op_typed op" and cl: "op_clean op"
    and run: "op_in_section sha8 required doc used k op = Inr (doc', used', a)"
  shows "stable_doc doc'"
proof (cases op)
  case (AppendBlock sid t c)
  obtain nb u where m: "mint sha8 t c used = (nb, u)" by force
  have "\<forall>b \<in> set nb. block_ok (bl_text b)" using mint_ok [OF m] ty cl AppendBlock by simp
  then have "\<forall>b \<in> set (ds_blocks (doc ! k) @ nb). block_ok (bl_text b)" using stable_blocks_at [OF doc k] by auto
  from stable_blocks [OF doc k this] run m AppendBlock show ?thesis by (simp add: Let_def)
next
  case (InsertBlock sid after t c)
  obtain nb u where m: "mint sha8 t c used = (nb, u)" by force
  have "\<forall>b \<in> set nb. block_ok (bl_text b)" using mint_ok [OF m] ty cl InsertBlock by simp
  with stable_blocks [OF doc k splice_ok] stable_blocks_at [OF doc k] run m InsertBlock show ?thesis
    by (auto simp: Let_def split: sum.splits)
next
  case (ReplaceBlock sid bid t c)
  obtain i where i: "findBlock doc (doc ! k) bid = Inr i"
    using run ReplaceBlock by (auto simp: Let_def split: sum.splits)
  obtain nb u where m: "mint_texts sha8 c (tl (fragments t)) used = (nb, u)" by force
  have fs: "\<forall>f \<in> set (fragments t). block_ok f" using ty cl ReplaceBlock by (intro fragments_ok) auto
  have "fragments t \<noteq> []" using ty ReplaceBlock checked_text_nonempty cl by simp
  then obtain g gs where g: "fragments t = g # gs" by (cases "fragments t") auto
  have nb: "\<forall>b \<in> set nb. block_ok (bl_text b)" using minted_ok [OF m] fs by (simp add: g)
  define b where "b = \<lparr>bl_id = bl_id (ds_blocks (doc ! k) ! i), bl_text = g, bl_cites = unionCites (bl_cites (ds_blocks (doc ! k) ! i)) c\<rparr>"
  have "doc' = doc[k := (doc ! k)\<lparr>ds_blocks := splice_in ((ds_blocks (doc ! k))[i := b]) (Suc i) nb\<rparr>]"
    using run m i by (auto simp: ReplaceBlock Let_def g b_def split: if_splits)
  moreover have "block_ok (bl_text x)" if "x \<in> set ((ds_blocks (doc ! k))[i := b])" for x
    using that set_update_subset_insert [of "ds_blocks (doc ! k)" i b] stable_blocks_at [OF doc k] fs g by (auto simp: b_def)
  ultimately show ?thesis using nb stable_blocks [OF doc k splice_ok] by blast
next
  case (RemoveBlock sid bid)
  with run obtain i where "doc' = doc[k := (doc ! k)\<lparr>ds_blocks := remove_at (ds_blocks (doc ! k)) i\<rparr>]"
    by (auto simp: Let_def split: sum.splits)
  then show ?thesis using stable_blocks [OF doc k] stable_blocks_at [OF doc k] set_remove by metis
next
  case (RemoveSection sid)
  with run have d: "doc' = remove_at doc k" and h: "ds_heading (doc ! k) \<noteq> []" by (auto simp: Let_def split: if_splits)
  have "x \<in> set (tl doc)" if "x \<in> set (tl doc')" for x
  proof (cases k)
    case 0
    have "set (tl xs) \<subseteq> set xs" for xs :: "doc_section list" by (cases xs) auto
    then show ?thesis using that d 0 by (cases doc) (auto simp: remove_at_def)
  next
    case (Suc j)
    have "tl doc' = remove_at (tl doc) j" using k Suc d by (cases doc) (auto simp: remove_at_def)
    then show ?thesis using that set_remove by metis
  qed
  moreover have "x \<in> set doc" if "x \<in> set doc'" for x using that d set_remove by metis
  ultimately show ?thesis using doc by (auto simp: stable_doc_def)
next
  case (ReplaceSectionBlocks sid ts c)
  let ?fs = "concat (map fragments ts)"
  obtain r free where r: "reuse_blocks (ds_blocks (doc ! k)) ?fs = (r, free)" by force
  obtain nb u where m: "fill_blocks sha8 c (zip ?fs r) used = (nb, u)" by force
  have fs: "\<forall>f \<in> set ?fs. block_ok f" using ty cl ReplaceSectionBlocks by (intro texts_ok) auto
  have "\<forall>(t, o') \<in> set (zip ?fs r). block_ok t \<and> (\<forall>b. o' = Some b \<longrightarrow> block_ok (bl_text b))"
  proof (clarify, intro conjI allI impI)
    fix x o' assume z: "(x, o') \<in> set (zip ?fs r)"
    show "block_ok x" using fs set_zip_leftD [OF z] by blast
    show "block_ok (bl_text b)" if "o' = Some b" for b
      using that set_zip_rightD [OF z] reuse_sub [OF r] stable_blocks_at [OF doc k] by blast
  qed
  from fill_ok [OF m this] stable_blocks [OF doc k] run m r ReplaceSectionBlocks show ?thesis
    by (auto simp: Let_def split: if_splits)
next
  case (RenameSection sid h)
  with run have d: "doc' = doc[k := (doc ! k)\<lparr>ds_heading := js_trim h\<rparr>]" by (auto simp: Let_def split: if_splits)
  have s: "sec_ok (doc ! k)" using doc k by (simp add: stable_doc_def)
  have h: "heading_ok (js_trim h)" using ty cl RenameSection checked_heading by simp
  then have "js_trim h \<noteq> []" by (simp add: heading_ok_def)
  with s h have "sec_ok ((doc ! k)\<lparr>ds_heading := js_trim h\<rparr>)" by (auto simp: sec_ok_def split: if_splits)
  then show ?thesis unfolding d using \<open>js_trim h \<noteq> []\<close> by (intro stable_upd [OF doc k]) auto
qed (use run in auto)

lemma stable_add_section:
  assumes doc: "stable_doc doc" and ty: "op_typed (AddSection h n ts after c)" and cl: "op_clean (AddSection h n ts after c)"
    and run: "op_add_section sha8 doc used h n ts after c = Inr (doc', used', a)"
  shows "stable_doc doc'"
proof -
  obtain bs u where m: "mint_texts sha8 c (concat (map fragments ts)) used = (bs, u)" by force
  obtain i s where d: "doc' = splice_in doc i [s]" and s: "ds_heading s = js_trim h" "ds_level s = n" "ds_blocks s = bs"
    and i: "i = length doc \<or> (\<exists>j. i = Suc j)"
    using run m by (auto simp: op_add_section_def Let_def split: option.splits if_splits)
  have "\<forall>b \<in> set bs. block_ok (bl_text b)" using ty cl by (intro minted_ok [OF m texts_ok]) auto
  moreover have hd: "heading_ok (js_trim h)" using ty cl checked_heading by simp
  ultimately have ok: "sec_ok s" using ty s by (auto simp: sec_ok_def heading_ok_def)
  have "set (tl doc') \<subseteq> insert s (set (tl doc))"
    using i by (cases doc) (auto simp: d splice_in_def dest: in_set_takeD in_set_dropD)
  then show ?thesis using doc ok hd by (auto simp: stable_doc_def d s heading_ok_def)
qed

lemma stable_apply:
  assumes "stable_doc doc" and "op_typed op" and "op_clean op" and "apply_op sha8 required op doc used = Inr (doc', used', a)"
  shows "stable_doc doc'"
  using assms(4)
proof (cases rule: apply_op_cases)
  case (add h n texts after c)
  then show ?thesis using stable_add_section assms by blast
next
  case (inside sid k)
  then show ?thesis using stable_in_section assms by blast
qed

lemma stable_run:
  assumes "stable_doc doc" and "\<forall>op \<in> set ops. op_typed op \<and> op_clean op"
  shows "stable_doc (es_doc (applyOps sha8 required doc ops))"
  unfolding applyOps_def
proof (rule edit_steps_keep)
  show "stable_doc doc'" if "op \<in> snd ` set (enumerate 0 ops)" "stable_doc d" "apply_op sha8 required op d used = Inr (doc', used', a)"
    for op d used doc' used' a
    using stable_apply [OF that(2) _ _ that(3)] that(1) assms(2) by (auto simp: in_set_enumerate_eq)
qed (use assms(1) in simp)

section \<open>Writing and reading back\<close>

definition shown :: "doc_section list \<Rightarrow> raw_section list" where
  "shown doc = filter (\<lambda>r. rs_heading r \<noteq> [] \<or> rs_blocks r \<noteq> []) (map raw_of doc)"

lemma shown_good:
  assumes "stable_doc doc"
  shows "good_doc (shown doc)"
proof -
  have raw: "good_heading (raw_of s) \<and> good_blocks b (rs_blocks (raw_of s))" if "sec_ok s" "ds_heading s \<noteq> []" for s b
    using that good_blocks_ok [of "map bl_text (ds_blocks s)"] by (auto simp: sec_ok_def raw_of_def good_heading_def heading_ok_def)
  have secs: "good_secs (filter (\<lambda>r. rs_heading r \<noteq> [] \<or> rs_blocks r \<noteq> []) (map raw_of ss))"
    if "\<forall>s \<in> set ss. sec_ok s \<and> ds_heading s \<noteq> []" for ss
    using that raw by (induction ss) auto
  have nonempty: "good_secs rs \<Longrightarrow> good_doc rs" for rs by (cases rs) (auto simp: good_heading_def)
  show ?thesis
  proof (cases doc)
    case (Cons s ss)
    have ss: "\<forall>x \<in> set ss. sec_ok x \<and> ds_heading x \<noteq> []" and s: "sec_ok s" using assms Cons by (auto simp: stable_doc_def)
    show ?thesis
    proof (cases "ds_heading s = []")
      case False
      then have "good_secs (shown doc)" using secs [of doc] ss s by (simp add: shown_def Cons)
      then show ?thesis by (rule nonempty)
    next
      case True
      show ?thesis
      proof (cases "ds_blocks s = []")
        case True
        then show ?thesis using secs [OF ss] nonempty \<open>ds_heading s = []\<close> by (simp add: shown_def Cons raw_of_def)
      next
        case False
        have "good_blocks b (map bl_text (ds_blocks s))" for b using s by (intro good_blocks_ok) (auto simp: sec_ok_def)
        then show ?thesis using secs [OF ss] s False True by (simp add: shown_def Cons raw_of_def sec_ok_def)
      qed
    qed
  qed (simp add: shown_def)
qed

lemma render_shown: "renderDoc doc = render_raws (shown doc)"
proof -
  have e: "render_part [] n [] = []" for n by (simp add: render_part_def)
  have "filter (\<lambda>p. p \<noteq> []) (map (\<lambda>r. render_part (rs_heading r) (rs_level r) (rs_blocks r)) (filter (\<lambda>r. rs_heading r \<noteq> [] \<or> rs_blocks r \<noteq> []) rs))
      = filter (\<lambda>p. p \<noteq> []) (map (\<lambda>r. render_part (rs_heading r) (rs_level r) (rs_blocks r)) rs)" for rs :: "raw_section list"
    by (induction rs) (auto simp: e)
  then show ?thesis by (simp only: renderDoc_raws render_raws_def render_parts_def shown_def)
qed

lemma stable_render:
  assumes "stable_doc doc"
  shows "splitRaw (renderDoc doc) = shown doc" and "renderDoc (parseDoc sha8 (renderDoc doc) prior) = renderDoc doc"
proof -
  show s: "splitRaw (renderDoc doc) = shown doc" using split_render [OF shown_good [OF assms]] by (simp add: render_shown)
  show "renderDoc (parseDoc sha8 (renderDoc doc) prior) = renderDoc doc"
    by (simp add: renderDoc_raws [of "parseDoc sha8 (renderDoc doc) prior"] parseDoc_raw s) (simp add: render_shown)
qed

text \<open>C6: A document survives the model's edits: start from a document whose headings are one line and whose blocks
  hold no heading and close their fences, take any reply that is accepted, whose texts hold no carriage
  return, and apply its operations, whichever of them are skipped. The result is such a document again,
  and what is written reads back to the same sections and blocks and is written the same again.\<close>

theorem accepted_edits_stay_stable:
  assumes "stable_doc doc" and "parseOps json text = Inr ops" and "\<forall>op \<in> set ops. op_clean (decode_op op)"
    and d: "d = es_doc (applyOps sha8 required doc (map decode_op ops))"
  shows "stable_doc d \<and> splitRaw (renderDoc d) = shown d \<and> renderDoc (parseDoc sha8 (renderDoc d) prior) = renderDoc d"
proof -
  have "\<forall>op \<in> set (map decode_op ops). op_typed op \<and> op_clean op"
    using op_errors_typed parseOps_typed [OF assms(2)] assms(3) by auto
  then have "stable_doc d" unfolding d using assms(1) by (rule stable_run [rotated])
  then show ?thesis using stable_render by blast
qed

lemma demo_stable: "stable_doc demo_doc"
  by code_simp

theorem accepted_edits_stay_stable_witness:
  "renderDoc (parseDoc (\<lambda>_. ''0'') (renderDoc (es_doc (applyOps (\<lambda>_. ''0'') [] demo_doc [decode_op demo_op]))) demo_doc)
     = renderDoc (es_doc (applyOps (\<lambda>_. ''0'') [] demo_doc [decode_op demo_op]))"
proof -
  have p: "parseOps (\<lambda>_. Some demo_reply) (Some ''{..}'') = Inr [demo_op]" by code_simp
  have "op_clean (decode_op demo_op)" by code_simp
  with accepted_edits_stay_stable [OF demo_stable p _ refl, of "\<lambda>_. ''0''" "[]" demo_doc] show ?thesis by simp
qed

end
