(* ===== verification/CanonicalAxes.thy ===== *)
theory CanonicalAxes
  imports JsRegex JsNumber
begin

text \<open>
  The canonical axes, \<^verbatim>\<open>packages/core/src/db/canonicalAxes.ts\<close>: which properties are
  reconciled by source authority and which raise a conflict, when two values genuinely differ,
  the field map and the authority table with their workspace overrides, and the projection of a
  source's raw value onto an axis. The rows of the two tables are arguments; the pattern of a
  \<^verbatim>\<open>regex\<close> row is data, so its test is the parameter \<open>rx\<close>.
\<close>

section \<open>The axes\<close>

definition AUTHORITY_AXES :: "string list" where
  "AUTHORITY_AXES = [''lifecycle'', ''reachability_status'', ''job_title'', ''employee_count'', ''company'', ''seniority'']"

definition isAuthorityAxis :: "string \<Rightarrow> bool" where
  "isAuthorityAxis p = (p \<in> set AUTHORITY_AXES)"

definition CONFLICT_AXES :: "string list" where
  "CONFLICT_AXES = [''lifecycle'', ''reachability_status'', ''employee_count'', ''company'', ''job_title'', ''seniority'']"

definition isConflictAxis :: "string \<Rightarrow> bool" where
  "isConflictAxis p = (p \<in> set CONFLICT_AXES)"

text \<open>The comment on the conflict axes leaves job titles out; the set holds them, and the two sets are equal.\<close>

lemma conflict_axis_iff: "isConflictAxis p \<longleftrightarrow> isAuthorityAxis p"
  by (auto simp: isConflictAxis_def isAuthorityAxis_def CONFLICT_AXES_def AUTHORITY_AXES_def)

section \<open>When two values differ\<close>

definition FILLER :: rx where
  "FILLER = rseq [RWordB, words_rx [''of'', ''the'', ''and'', ''at'', ''inc'', ''llc'', ''ltd'', ''limited'', ''corp'',
     ''corporation'', ''co'', ''gmbh'', ''bv'', ''sa''], RWordB]"

definition not_alnum :: rx where
  "not_alnum = RCls True [(CHR ''a'', CHR ''z''), (CHR ''0'', CHR ''9'')]"

definition bare_value :: "jsval \<Rightarrow> string" where
  "bare_value v = js_trim (rx_replace_all False (rplus not_alnum) []
     (rx_replace_all False FILLER '' '' (to_lower (js_tostring (js_coalesce v (JStr []))))))"

definition valuesGenuinelyDiffer :: "jsval \<Rightarrow> jsval \<Rightarrow> bool" where
  "valuesGenuinelyDiffer a b =
     (let x = bare_value a; y = bare_value b in if x = [] \<or> y = [] then False else x \<noteq> y)"

lemma differ_sym: "valuesGenuinelyDiffer a b = valuesGenuinelyDiffer b a"
  by (auto simp: valuesGenuinelyDiffer_def Let_def)

lemma differ_irrefl [simp]: "\<not> valuesGenuinelyDiffer a a"
  by (simp add: valuesGenuinelyDiffer_def)

lemma differ_iff:
  "valuesGenuinelyDiffer a b \<longleftrightarrow> bare_value a \<noteq> [] \<and> bare_value b \<noteq> [] \<and> bare_value a \<noteq> bare_value b"
  by (auto simp: valuesGenuinelyDiffer_def Let_def)

lemma differ_examples:
  "\<not> valuesGenuinelyDiffer (JStr ''VP Sales'') (JStr ''V.P. of Sales'')"
  "\<not> valuesGenuinelyDiffer (JStr ''Acme, Inc.'') (JStr ''acme'')"
  "valuesGenuinelyDiffer (JStr ''Director'') (JStr ''VP'')"
  "\<not> valuesGenuinelyDiffer JNull (JStr ''VP'')"
  by code_simp+

text \<open>Filler words are dropped wherever they stand, so two firms told apart only by one read alike.\<close>

lemma filler_only_name: "\<not> valuesGenuinelyDiffer (JStr ''The Co'') (JStr ''Acme'')"
  by code_simp

section \<open>The field map\<close>

datatype field_map_kind = StateField | EventField

datatype field_match_type = MatchEq | MatchPrefix | MatchRegex

record field_map =
  fm_workspace :: "string option"
  fm_source :: string
  fm_kind :: field_map_kind
  fm_key :: string
  fm_match :: "string option"
  fm_match_type :: field_match_type
  fm_property :: string
  fm_value :: string
  fm_validity :: "rat option"

text \<open>A workspace reads the global rows and its own. A global row is dropped when a row of the workspace has its key.\<close>

definition own_or_global :: "string \<Rightarrow> string option \<Rightarrow> bool" where
  "own_or_global ws w = (w = None \<or> w = Some ws)"

definition fm_id :: "field_map \<Rightarrow> string" where
  "fm_id r = fm_source r @ ''|'' @ fm_key r @ ''|'' @ str_of (fm_match r)"

definition loadFieldMap :: "field_map list \<Rightarrow> string \<Rightarrow> field_map list" where
  "loadFieldMap table ws =
     (let rows = filter (\<lambda>r. own_or_global ws (fm_workspace r)) table;
          wsKeys = map fm_id (filter (\<lambda>r. nonempty (fm_workspace r)) rows)
      in filter (\<lambda>r. nonempty (fm_workspace r) \<or> fm_id r \<notin> set wsKeys) rows)"

lemma own_row_kept: "r \<in> set table \<Longrightarrow> fm_workspace r = Some ws \<Longrightarrow> ws \<noteq> [] \<Longrightarrow> r \<in> set (loadFieldMap table ws)"
  by (simp add: loadFieldMap_def own_or_global_def Let_def)

lemma overridden_row_dropped:
  "r \<in> set (loadFieldMap table ws) \<Longrightarrow> fm_workspace r = None \<Longrightarrow> o' \<in> set table \<Longrightarrow> fm_workspace o' = Some ws \<Longrightarrow>
   ws \<noteq> [] \<Longrightarrow> fm_id o' \<noteq> fm_id r"
  by (auto simp: loadFieldMap_def own_or_global_def Let_def) (metis (mono_tags, lifting) image_eqI mem_Collect_eq nonempty_simps(2))

lemma no_foreign_row: "r \<in> set (loadFieldMap table ws) \<Longrightarrow> fm_workspace r \<in> {None, Some ws}"
  by (auto simp: loadFieldMap_def own_or_global_def Let_def)

section \<open>Source authority\<close>

record authority_row =
  ar_workspace :: "string option"
  ar_property :: string
  ar_source :: string
  ar_authority :: rat
  ar_event_truth :: bool

record authority_info =
  au_authority :: rat
  au_event_truth :: bool

type_synonym authority_map = "(string \<times> authority_info) list"

definition put_authority :: "authority_map \<Rightarrow> authority_row \<Rightarrow> authority_map" where
  "put_authority m r = jm_set m (ar_source r) \<lparr>au_authority = ar_authority r, au_event_truth = ar_event_truth r\<rparr>"

definition loadAuthority :: "authority_row list \<Rightarrow> string \<Rightarrow> string \<Rightarrow> authority_map" where
  "loadAuthority table ws property =
     (let rows = filter (\<lambda>r. ar_property r = property \<and> own_or_global ws (ar_workspace r)) table
      in foldl put_authority (foldl put_authority [] (filter (\<lambda>r. \<not> nonempty (ar_workspace r)) rows))
           (filter (\<lambda>r. nonempty (ar_workspace r)) rows))"

lemma foldl_put_authority:
  "jm_get (foldl put_authority m rs) s =
     (case List.find (\<lambda>r. ar_source r = s) (rev rs) of
        Some r \<Rightarrow> Some \<lparr>au_authority = ar_authority r, au_event_truth = ar_event_truth r\<rparr> | None \<Rightarrow> jm_get m s)"
proof (induction rs rule: rev_induct)
  case Nil
  show ?case by simp
next
  case (snoc r rs)
  then show ?case by (auto simp: put_authority_def jm_get_set)
qed

text \<open>What a workspace says of a source wins over the global default.\<close>

lemma workspace_authority_wins:
  assumes r: "r \<in> set table" "ar_workspace r = Some ws" "ws \<noteq> []" "ar_property r = p"
    and uniq: "\<forall>x \<in> set table. ar_workspace x = Some ws \<and> ar_property x = p \<and> ar_source x = ar_source r \<longrightarrow> x = r"
  shows "jm_get (loadAuthority table ws p) (ar_source r) =
    Some \<lparr>au_authority = ar_authority r, au_event_truth = ar_event_truth r\<rparr>"
proof -
  let ?own = "filter (\<lambda>r. nonempty (ar_workspace r)) (filter (\<lambda>r. ar_property r = p \<and> own_or_global ws (ar_workspace r)) table)"
  have mem: "r \<in> set ?own" using r by (simp add: own_or_global_def)
  have only: "x = r" if "x \<in> set ?own" "ar_source x = ar_source r" for x
    using that uniq by (auto simp: own_or_global_def)
  obtain x where f: "List.find (\<lambda>x. ar_source x = ar_source r) (rev ?own) = Some x"
    using mem by (cases "List.find (\<lambda>x. ar_source x = ar_source r) (rev ?own)") (auto simp: find_None_iff)
  then have "x \<in> set ?own \<and> ar_source x = ar_source r" using find_Some_D [OF f] by simp
  with only have "x = r" by blast
  with f show ?thesis by (simp add: loadAuthority_def Let_def foldl_put_authority)
qed

section \<open>Projection onto an axis\<close>

record canonical_match =
  cm_property :: string
  cm_value :: string
  cm_validity :: rat

definition norm_text :: "jsval \<Rightarrow> string" where
  "norm_text v = (if js_nullish v then [] else to_lower (js_trim (js_tostring v)))"

text \<open>\<open>rx pattern text\<close> is \<^verbatim>\<open>new RegExp(pattern, 'i').test(text)\<close>, \<open>None\<close> for an invalid pattern.\<close>

definition row_matches :: "(string \<Rightarrow> string \<Rightarrow> bool option) \<Rightarrow> field_map \<Rightarrow> string \<Rightarrow> bool" where
  "row_matches rx r raw =
     (if fm_kind r = EventField then True
      else let m = norm_text (case fm_match r of None \<Rightarrow> JNull | Some s \<Rightarrow> JStr s) in
        if m = [] then False
        else case fm_match_type r of
            MatchPrefix \<Rightarrow> starts_with m raw
          | MatchRegex \<Rightarrow> (case rx (str_of (fm_match r)) raw of None \<Rightarrow> False | Some b \<Rightarrow> b)
          | MatchEq \<Rightarrow> raw = m)"

definition row_applies :: "(string \<Rightarrow> string \<Rightarrow> bool option) \<Rightarrow> string \<Rightarrow> field_map_kind \<Rightarrow> string \<Rightarrow> string \<Rightarrow> field_map \<Rightarrow> bool" where
  "row_applies rx source kind key val r =
     (norm_text (JStr (fm_source r)) = norm_text (JStr source) \<and> fm_kind r = kind
      \<and> norm_text (JStr (fm_key r)) = key \<and> row_matches rx r val)"

definition mapToCanonicalAxis ::
  "(string \<Rightarrow> string \<Rightarrow> bool option) \<Rightarrow> field_map list \<Rightarrow> string \<Rightarrow> field_map_kind \<Rightarrow> string \<Rightarrow> jsval \<Rightarrow> canonical_match option" where
  "mapToCanonicalAxis rx fieldMap source kind sourceKey rawValue =
     map_option (\<lambda>r. \<lparr>cm_property = fm_property r, cm_value = fm_value r,
         cm_validity = (case fm_validity r of None \<Rightarrow> 1 | Some x \<Rightarrow> x)\<rparr>)
       (List.find (row_applies rx source kind (norm_text (JStr sourceKey)) (norm_text rawValue)) fieldMap)"

lemma norm_text_case: "to_lower s = to_lower t \<Longrightarrow> js_trim s = s \<Longrightarrow> js_trim t = t \<Longrightarrow> norm_text (JStr s) = norm_text (JStr t)"
  by (simp add: norm_text_def)

lemma projection_sound:
  "mapToCanonicalAxis rx fm s k key raw = Some m \<Longrightarrow>
   \<exists>r \<in> set fm. row_applies rx s k (norm_text (JStr key)) (norm_text raw) r
     \<and> cm_property m = fm_property r \<and> cm_value m = fm_value r"
  by (auto simp: mapToCanonicalAxis_def dest: find_Some_D)

text \<open>A row of the workspace that applies is not shadowed by the global row it overrides, nor by another workspace's row.\<close>

lemma override_is_read:
  assumes m: "mapToCanonicalAxis rx (loadFieldMap table ws) s k key raw = Some m"
    and own: "o' \<in> set table" "fm_workspace o' = Some ws" "ws \<noteq> []"
  shows "\<exists>r \<in> set table. fm_workspace r \<in> {None, Some ws} \<and> cm_value m = fm_value r
    \<and> (fm_id r = fm_id o' \<longrightarrow> fm_workspace r = Some ws)"
proof -
  from projection_sound [OF m] obtain r where r: "r \<in> set (loadFieldMap table ws)" "cm_value m = fm_value r" by auto
  have "r \<in> set table" using r(1) by (auto simp: loadFieldMap_def Let_def)
  moreover have "fm_workspace r \<in> {None, Some ws}" using no_foreign_row [OF r(1)] .
  moreover have "fm_workspace r \<noteq> None" if "fm_id r = fm_id o'"
    using overridden_row_dropped [OF r(1) _ own(1,2,3)] that by auto
  ultimately show ?thesis using r(2) by auto
qed

text \<open>The keys compared for an override are the raw texts, the keys matched are folded: a workspace row
  written in another case leaves the global row in force, and the first of the two in the table decides.\<close>

lemma override_misses_other_case:
  "let g = \<lparr>fm_workspace = None, fm_source = ''hubspot'', fm_kind = StateField, fm_key = ''lifecyclestage'', fm_match = Some ''customer'',
          fm_match_type = MatchEq, fm_property = ''lifecycle'', fm_value = ''customer'', fm_validity = None\<rparr>;
       own = g\<lparr>fm_workspace := Some ''w'', fm_match := Some ''Customer'', fm_value := ''prospect''\<rparr>
   in map_option cm_value (mapToCanonicalAxis (\<lambda>p t. None) (loadFieldMap [g, own] ''w'') ''hubspot'' StateField ''lifecyclestage''
        (JStr ''Customer'')) = Some ''customer''"
  by code_simp

end
