(* ===== verification/Claims.thy ===== *)
theory Claims
  imports CanonicalAxes JsDate
begin

text \<open>
  Deriving a claim from its observations, \<^verbatim>\<open>packages/core/src/db/claims.ts\<close>: the
  recency engine, the authority engine of the canonical axes, and the point-in-time derivation over
  a flat list of observations. Instants are read with \<^verbatim>\<open>new Date\<close>; the columns are not
  null, so a text that does not parse is not met. Values are what a \<^verbatim>\<open>jsonb\<close> column
  holds, on which \<^verbatim>\<open>JSON.stringify\<close> is injective: the code groups by that text, the
  model by the value. Confidences and weights are exact rationals for the code's doubles.
\<close>

section \<open>Observations and derived claims\<close>

record observation =
  on_id :: string
  on_entity :: string
  on_kind :: string
  on_property :: "string option"
  on_value :: jsval
  on_source :: string
  on_method :: string
  on_confidence :: "rat option"
  on_at :: string

datatype epistemic_class = Observed | Inferred | Predicted | Asserted

datatype freshness = Fresh | Aging | Suspect | Expired

record derived_claim =
  dc_value :: jsval
  dc_distribution :: "(jsval \<times> rat) list"
  dc_confidence :: rat
  dc_class :: epistemic_class
  dc_freshness :: freshness
  dc_decays_at :: string
  dc_support :: "string list"
  dc_count :: nat
  dc_last :: string

definition obs_ms :: "observation \<Rightarrow> int" where
  "obs_ms o' = (case date_parse (on_at o') of None \<Rightarrow> 0 | Some t \<Rightarrow> t)"

definition DECAY_DAYS :: int where
  "DECAY_DAYS = 180"

definition freshnessFor :: "rat \<Rightarrow> freshness" where
  "freshnessFor ageDays = (if ageDays < 30 then Fresh else if ageDays < 90 then Aging
     else if ageDays < of_int DECAY_DAYS then Suspect else Expired)"

definition age_days :: "int \<Rightarrow> observation \<Rightarrow> rat" where
  "age_days now o' = of_int (now - obs_ms o') / of_int day_ms"

definition live_state :: "observation \<Rightarrow> bool" where
  "live_state o' = (on_kind o' = ''state'' \<and> \<not> js_nullish (on_value o'))"

definition decays_after :: "observation \<Rightarrow> string" where
  "decays_after o' = iso_of (obs_ms o' + DECAY_DAYS * day_ms)"

definition class_of :: "observation list \<Rightarrow> epistemic_class" where
  "class_of supporting = (if list_all (\<lambda>o'. on_method o' = ''inference'') supporting then Inferred else Observed)"

section \<open>Recency\<close>

definition base_confidence :: "nat \<Rightarrow> nat \<Rightarrow> freshness \<Rightarrow> rat" where
  "base_confidence supporting contradicting f =
     max (1 / 5) (min (19 / 20)
       (11 / 20 + of_nat (min (supporting - 1) 4) * (2 / 25) - of_nat (min contradicting 3) * (1 / 10)
         - (if f = Suspect then 1 / 10 else if f = Expired then 1 / 4 else 0)))"

definition deriveClaim :: "int \<Rightarrow> observation list \<Rightarrow> derived_claim option" where
  "deriveClaim now observations =
     (case js_sort (desc_by obs_ms) (filter live_state observations) of
        [] \<Rightarrow> None
      | newest # older \<Rightarrow>
         (let states = newest # older;
              groups = js_group_by on_value states;
              supporting = the (jm_get groups (on_value newest));
              contradicting = length states - length supporting;
              freshness = freshnessFor (age_days now newest)
          in Some \<lparr>dc_value = on_value newest,
               dc_distribution = map (\<lambda>(v, g). (v, of_nat (length g) / of_nat (length states))) groups,
               dc_confidence = base_confidence (length supporting) contradicting freshness,
               dc_class = class_of supporting,
               dc_freshness = freshness,
               dc_decays_at = decays_after newest,
               dc_support = map on_id supporting,
               dc_count = length states,
               dc_last = on_at newest\<rparr>))"

definition same_value :: "observation \<Rightarrow> observation list \<Rightarrow> observation list" where
  "same_value w obs = filter (\<lambda>o'. on_value o' = on_value w) obs"

lemma group_of_member: "w \<in> set obs \<Longrightarrow> jm_get (js_group_by on_value obs) (on_value w) = Some (same_value w obs)"
  by (auto simp: js_group_by_get same_value_def Let_def filter_empty_conv)

lemma deriveClaim_None_iff: "deriveClaim now obs = None \<longleftrightarrow> filter live_state obs = []"
  by (cases "js_sort (desc_by obs_ms) (filter live_state obs)")
     (simp_all add: deriveClaim_def Let_def, (metis js_sort_Nil_iff list.distinct(1))+)

text \<open>The observation that decides: the newest live state, the first of the array among equals.\<close>

lemma deriveClaim_newest:
  assumes "deriveClaim now obs = Some c"
  obtains w rest where "js_sort (desc_by obs_ms) (filter live_state obs) = w # rest"
    and "w \<in> set obs" and "live_state w" and "\<forall>o' \<in> set obs. live_state o' \<longrightarrow> obs_ms o' \<le> obs_ms w"
    and "dc_value c = on_value w" and "dc_last c = on_at w"
    and "dc_freshness c = freshnessFor (age_days now w)" and "dc_decays_at c = decays_after w"
    and "dc_support c = map on_id (same_value w (w # rest))" and "dc_count c = length (w # rest)"
    and "dc_class c = class_of (same_value w (w # rest))"
    and "dc_distribution c = map (\<lambda>(v, g). (v, of_nat (length g) / of_nat (length (w # rest)))) (js_group_by on_value (w # rest))"
    and "dc_confidence c = base_confidence (length (same_value w (w # rest)))
           (length (w # rest) - length (same_value w (w # rest))) (dc_freshness c)"
proof (cases "js_sort (desc_by obs_ms) (filter live_state obs)")
  case Nil
  with assms show ?thesis by (simp add: deriveClaim_def)
next
  case (Cons w rest)
  have g: "jm_get (js_group_by on_value (w # rest)) (on_value w) = Some (same_value w (w # rest))"
    by (rule group_of_member) simp
  have w: "w \<in> set (filter live_state obs)"
    using set_js_sort [of "desc_by obs_ms" "filter live_state obs"] Cons by auto
  have "\<forall>o' \<in> set obs. live_state o' \<longrightarrow> obs_ms o' \<le> obs_ms w"
    using desc.sort_head_least [OF Cons] by simp
  with w show ?thesis
    using assms by (intro that [OF Cons]) (auto simp: deriveClaim_def Let_def Cons g)
qed

lemma clamp_bounds: "(lo :: rat) \<le> hi \<Longrightarrow> lo \<le> max lo (min hi x) \<and> max lo (min hi x) \<le> hi"
  by (simp add: max_def min_def)

lemma base_confidence_bounds: "1 / 5 \<le> base_confidence s k f \<and> base_confidence s k f \<le> 19 / 20"
  unfolding base_confidence_def by (rule clamp_bounds) simp

text \<open>Corroboration never lowers the confidence, contradiction never raises it.\<close>

lemma base_confidence_mono:
  assumes "s \<le> s'" and "k' \<le> k"
  shows "base_confidence s k f \<le> base_confidence s' k' f"
proof -
  have "(of_nat (min (s - 1) 4) :: rat) \<le> of_nat (min (s' - 1) 4)" "(of_nat (min k' 3) :: rat) \<le> of_nat (min k 3)"
    using assms by (simp_all add: min.coboundedI1 min.mono diff_le_mono)
  then show ?thesis unfolding base_confidence_def
    by (intro max.mono min.mono diff_mono add_mono mult_right_mono order_refl) simp_all
qed

section \<open>The weights\<close>

lemma sum_group_lengths: "sum_list (map (\<lambda>(v, g). length g) (js_group_by key xs)) = length xs"
proof -
  have d: "distinct (map fst (js_group_by key xs))" using js_group_by_distinct [of key xs] by (simp add: jm_keys_def)
  have n: "length (filter (\<lambda>x. key x = v) xs) = count_list (map key xs) v" for v
    by (induction xs) auto
  have "sum_list (map (\<lambda>(v, g). length g) (js_group_by key xs))
      = sum_list (map (count_list (map key xs)) (map fst (js_group_by key xs)))"
    unfolding map_map by (intro arg_cong [where f = sum_list] map_cong) (auto simp: js_group_by_entry n)
  also have "\<dots> = sum (count_list (map key xs)) (set (map fst (js_group_by key xs)))"
    using d by (rule sum_list_distinct_conv_sum_set)
  also have "\<dots> = length xs"
    using js_group_by_keys [of key xs] by (simp add: jm_keys_def sum_count_set)
  finally show ?thesis .
qed

lemma sum_list_div: "sum_list (map (\<lambda>x. f x / c) xs) = (sum_list (map f xs) :: rat) / c"
  by (induction xs) (simp_all add: add_divide_distrib)

lemma of_nat_sum_list: "sum_list (map (\<lambda>x. of_nat (f x)) xs) = (of_nat (sum_list (map f xs)) :: rat)"
  by (induction xs) simp_all

lemma recency_weights:
  assumes "xs \<noteq> []"
  shows "sum_list (map snd (map (\<lambda>(v, g). (v, of_nat (length g) / of_nat (length xs))) (js_group_by key xs))) = (1 :: rat)"
proof -
  have "sum_list (map snd (map (\<lambda>(v, g). (v, of_nat (length g) / of_nat (length xs) :: rat)) (js_group_by key xs)))
      = sum_list (map (\<lambda>p. of_nat (case p of (v, g) \<Rightarrow> length g) / of_nat (length xs)) (js_group_by key xs))"
    by (intro arg_cong [where f = sum_list]) auto
  also have "\<dots> = of_nat (sum_list (map (\<lambda>(v, g). length g) (js_group_by key xs))) / of_nat (length xs)"
    by (simp add: sum_list_div of_nat_sum_list)
  also have "\<dots> = 1" using assms by (simp add: sum_group_lengths)
  finally show ?thesis .
qed

text \<open>What a recency claim promises: it exists when there is a live state; its value is that of a newest
  one; the weights of the distribution add up to one; its support is every observation of that value.\<close>

lemma recency_claim:
  assumes c: "deriveClaim now obs = Some c"
  shows "\<exists>w \<in> set obs. live_state w \<and> dc_value c = on_value w \<and> dc_last c = on_at w
      \<and> (\<forall>o' \<in> set obs. live_state o' \<longrightarrow> obs_ms o' \<le> obs_ms w)"
    and "sum_list (map snd (dc_distribution c)) = 1"
    and "set (dc_support c) = on_id ` {o' \<in> set obs. live_state o' \<and> on_value o' = dc_value c}"
    and "fst ` set (dc_distribution c) = on_value ` {o' \<in> set obs. live_state o'}"
    and "distinct (map fst (dc_distribution c))"
    and "1 / 5 \<le> dc_confidence c \<and> dc_confidence c \<le> 19 / 20"
    and "dc_count c = length (filter live_state obs)"
proof -
  from c obtain w rest where s: "js_sort (desc_by obs_ms) (filter live_state obs) = w # rest"
    and w: "w \<in> set obs" "live_state w" "\<forall>o' \<in> set obs. live_state o' \<longrightarrow> obs_ms o' \<le> obs_ms w"
    and v: "dc_value c = on_value w" "dc_last c = on_at w"
    and sup: "dc_support c = map on_id (same_value w (w # rest))" and n: "dc_count c = length (w # rest)"
    and d: "dc_distribution c = map (\<lambda>(v, g). (v, of_nat (length g) / of_nat (length (w # rest)))) (js_group_by on_value (w # rest))"
    and q: "dc_confidence c = base_confidence (length (same_value w (w # rest)))
           (length (w # rest) - length (same_value w (w # rest))) (dc_freshness c)"
    by (rule deriveClaim_newest)
  have set_s: "set (w # rest) = {o' \<in> set obs. live_state o'}"
    using set_js_sort [of "desc_by obs_ms" "filter live_state obs"] s by simp
  have fsts: "map fst (dc_distribution c) = map fst (js_group_by on_value (w # rest))"
    unfolding d by (auto simp: case_prod_unfold)
  show "\<exists>w \<in> set obs. live_state w \<and> dc_value c = on_value w \<and> dc_last c = on_at w
      \<and> (\<forall>o' \<in> set obs. live_state o' \<longrightarrow> obs_ms o' \<le> obs_ms w)" using w v by blast
  show "sum_list (map snd (dc_distribution c)) = 1" unfolding d by (rule recency_weights) simp
  show "set (dc_support c) = on_id ` {o' \<in> set obs. live_state o' \<and> on_value o' = dc_value c}"
    unfolding sup v same_value_def using set_s by auto
  show "fst ` set (dc_distribution c) = on_value ` {o' \<in> set obs. live_state o'}"
    using js_group_by_keys [of on_value "w # rest"] set_s fsts by (metis jm_keys_def set_map)
  show "distinct (map fst (dc_distribution c))"
    using js_group_by_distinct [of on_value "w # rest"] fsts by (simp add: jm_keys_def)
  show "1 / 5 \<le> dc_confidence c \<and> dc_confidence c \<le> 19 / 20" unfolding q by (rule base_confidence_bounds)
  show "dc_count c = length (filter live_state obs)"
    using n length_js_sort [of "desc_by obs_ms" "filter live_state obs"] s by simp
qed

section \<open>Authority\<close>

definition FRESHNESS_FACTOR :: "freshness \<Rightarrow> rat" where
  "FRESHNESS_FACTOR f = (case f of Fresh \<Rightarrow> 1 | Aging \<Rightarrow> 4 / 5 | Suspect \<Rightarrow> 1 / 2 | Expired \<Rightarrow> 1 / 5)"

record scored =
  sc_obs :: observation
  sc_freshness :: freshness
  sc_effective :: rat

definition score_obs :: "int \<Rightarrow> authority_map \<Rightarrow> rat \<Rightarrow> observation \<Rightarrow> scored" where
  "score_obs now auth defaultAuthority o' =
     (let freshness = freshnessFor (age_days now o');
          authority = (case jm_get auth (on_source o') of None \<Rightarrow> defaultAuthority | Some i \<Rightarrow> au_authority i);
          eventValidity = (case on_confidence o' of None \<Rightarrow> 1 | Some x \<Rightarrow> x)
      in \<lparr>sc_obs = o', sc_freshness = freshness,
          sc_effective = max 0 (authority * FRESHNESS_FACTOR freshness * eventValidity)\<rparr>)"

definition keep_best :: "(jsval \<times> scored) list \<Rightarrow> scored \<Rightarrow> (jsval \<times> scored) list" where
  "keep_best m s = (let k = on_value (sc_obs s) in
     case jm_get m k of None \<Rightarrow> jm_set m k s
     | Some cur \<Rightarrow> if sc_effective s > sc_effective cur then jm_set m k s else m)"

record authority_candidate =
  cd_value :: jsval
  cd_source :: string
  cd_observed_at :: "string option"
  cd_effective :: rat
  cd_observation :: "string option"

definition candidate_of :: "scored \<Rightarrow> authority_candidate" where
  "candidate_of r = \<lparr>cd_value = on_value (sc_obs r), cd_source = on_source (sc_obs r), cd_observed_at = Some (on_at (sc_obs r)),
     cd_effective = sc_effective r, cd_observation = Some (on_id (sc_obs r))\<rparr>"

definition rank_scored :: "scored list \<Rightarrow> scored list" where
  "rank_scored sc = js_sort (desc_by sc_effective) (jm_values (foldl keep_best [] sc))"

definition DEFAULT_AUTHORITY :: rat where
  "DEFAULT_AUTHORITY = 2 / 5"

definition deriveAuthoritativeClaim ::
  "int \<Rightarrow> observation list \<Rightarrow> authority_map \<Rightarrow> rat option \<Rightarrow> (derived_claim \<times> authority_candidate list) option" where
  "deriveAuthoritativeClaim now observations auth defaultAuthority =
     (let states = filter live_state observations;
          ranked = rank_scored (map (score_obs now auth (case defaultAuthority of None \<Rightarrow> DEFAULT_AUTHORITY | Some d \<Rightarrow> d)) states)
      in case ranked of
           [] \<Rightarrow> None
         | winner # others \<Rightarrow>
            (let supporting = filter (\<lambda>o'. on_value o' = on_value (sc_obs winner)) states;
                 total = sum_list (map sc_effective ranked);
                 totalEff = (if total = 0 then 1 else total)
             in Some (\<lparr>dc_value = on_value (sc_obs winner),
                  dc_distribution = map (\<lambda>r. (on_value (sc_obs r), sc_effective r / totalEff)) ranked,
                  dc_confidence = max (1 / 5) (min (99 / 100) (sc_effective winner)),
                  dc_class = class_of supporting,
                  dc_freshness = sc_freshness winner,
                  dc_decays_at = decays_after (sc_obs winner),
                  dc_support = map on_id supporting,
                  dc_count = length states,
                  dc_last = on_at (sc_obs winner)\<rparr>, map candidate_of ranked)))"

text \<open>The strongest observation of each value.\<close>

abbreviation "value_of_scored s \<equiv> on_value (sc_obs s)"

lemma keep_best_get:
  "(case jm_get (foldl keep_best [] sc) k of
      None \<Rightarrow> \<forall>s \<in> set sc. value_of_scored s \<noteq> k
    | Some b \<Rightarrow> b \<in> set sc \<and> value_of_scored b = k
        \<and> (\<forall>s \<in> set sc. value_of_scored s = k \<longrightarrow> sc_effective s \<le> sc_effective b))"
proof (induction sc rule: rev_induct)
  case Nil
  show ?case by simp
next
  case (snoc x sc)
  show ?case
  proof (cases "jm_get (foldl keep_best [] sc) (value_of_scored x)")
    case None
    with snoc show ?thesis
      by (cases "value_of_scored x = k") (auto simp: keep_best_def Let_def jm_get_set split: option.splits)
  next
    case (Some cur)
    with snoc show ?thesis
      by (cases "value_of_scored x = k") (force simp: keep_best_def Let_def jm_get_set split: option.splits)+
  qed
qed

lemma keep_best_distinct: "distinct (jm_keys (foldl keep_best [] sc))"
proof (induction sc rule: rev_induct)
  case Nil
  show ?case by (simp add: jm_keys_def)
next
  case (snoc x sc)
  then show ?case by (auto simp: keep_best_def Let_def jm_distinct_set split: option.splits)
qed

lemma keep_best_entry:
  "(k, b) \<in> set (foldl keep_best [] sc) \<longleftrightarrow> jm_get (foldl keep_best [] sc) k = Some b"
  using keep_best_distinct [of sc] by (simp add: jm_get_def jm_keys_def)

lemma best_values:
  "map value_of_scored (jm_values (foldl keep_best [] sc)) = jm_keys (foldl keep_best [] sc)"
proof -
  have "value_of_scored b = k" if "(k, b) \<in> set (foldl keep_best [] sc)" for k b
    using keep_best_get [of sc k] that by (simp add: keep_best_entry)
  then show ?thesis by (auto simp: jm_values_def jm_keys_def)
qed

text \<open>The ranking: one entry per value, its strongest, best first.\<close>

lemma rank_scored_set:
  "b \<in> set (rank_scored sc) \<longleftrightarrow> jm_get (foldl keep_best [] sc) (value_of_scored b) = Some b"
proof -
  let ?m = "foldl keep_best [] sc"
  have m: "set (rank_scored sc) = snd ` set ?m" by (simp add: rank_scored_def jm_values_def)
  show ?thesis
  proof
    assume "b \<in> set (rank_scored sc)"
    then obtain k where k: "jm_get ?m k = Some b" using m by (auto simp: keep_best_entry)
    with keep_best_get [of sc k] have "value_of_scored b = k" by simp
    with k show "jm_get ?m (value_of_scored b) = Some b" by simp
  next
    assume "jm_get ?m (value_of_scored b) = Some b"
    then have "(value_of_scored b, b) \<in> set ?m" by (simp only: keep_best_entry)
    then show "b \<in> set (rank_scored sc)" unfolding m by force
  qed
qed

lemma rank_scored_spec:
  shows "b \<in> set (rank_scored sc) \<Longrightarrow> b \<in> set sc"
    and "b \<in> set (rank_scored sc) \<Longrightarrow> s \<in> set sc \<Longrightarrow> value_of_scored s = value_of_scored b \<Longrightarrow> sc_effective s \<le> sc_effective b"
    and "s \<in> set sc \<Longrightarrow> \<exists>b \<in> set (rank_scored sc). value_of_scored b = value_of_scored s"
    and "sorted_wrt (desc_by sc_effective) (rank_scored sc)"
    and "distinct (map value_of_scored (rank_scored sc))"
proof -
  show "b \<in> set (rank_scored sc) \<Longrightarrow> b \<in> set sc"
    using keep_best_get [of sc "value_of_scored b"] by (simp add: rank_scored_set)
  show "b \<in> set (rank_scored sc) \<Longrightarrow> s \<in> set sc \<Longrightarrow> value_of_scored s = value_of_scored b \<Longrightarrow> sc_effective s \<le> sc_effective b"
    using keep_best_get [of sc "value_of_scored b"] by (simp add: rank_scored_set)
  show "\<exists>b \<in> set (rank_scored sc). value_of_scored b = value_of_scored s" if "s \<in> set sc"
    using keep_best_get [of sc "value_of_scored s"] that
    by (cases "jm_get (foldl keep_best [] sc) (value_of_scored s)") (auto simp: rank_scored_set)
  show "sorted_wrt (desc_by sc_effective) (rank_scored sc)" unfolding rank_scored_def by (rule desc.sort_sorted)
  have "mset (map value_of_scored (rank_scored sc)) = mset (map value_of_scored (jm_values (foldl keep_best [] sc)))"
    by (simp add: rank_scored_def)
  also have "\<dots> = mset (jm_keys (foldl keep_best [] sc))" by (simp only: best_values)
  finally show "distinct (map value_of_scored (rank_scored sc))"
    using keep_best_distinct [of sc] mset_eq_imp_distinct_iff by blast
qed

lemma rank_scored_Nil: "rank_scored sc = [] \<longleftrightarrow> sc = []"
  using rank_scored_spec(1,3) [of _ sc] by (cases sc; cases "rank_scored sc") force+

abbreviation "scored_states now auth d obs \<equiv>
  map (score_obs now auth (case d of None \<Rightarrow> DEFAULT_AUTHORITY | Some x \<Rightarrow> x)) (filter live_state obs)"

definition effective :: "int \<Rightarrow> authority_map \<Rightarrow> rat option \<Rightarrow> observation \<Rightarrow> rat" where
  "effective now auth d o' = sc_effective (score_obs now auth (case d of None \<Rightarrow> DEFAULT_AUTHORITY | Some x \<Rightarrow> x) o')"

lemma score_obs_simps [simp]: "sc_obs (score_obs now auth d o') = o'" "0 \<le> sc_effective (score_obs now auth d o')"
  by (simp_all add: score_obs_def Let_def)

lemma deriveAuthoritativeClaim_None_iff: "deriveAuthoritativeClaim now obs auth d = None \<longleftrightarrow> filter live_state obs = []"
proof (cases "rank_scored (scored_states now auth d obs)")
  case Nil
  moreover from Nil have "filter live_state obs = []" by (simp add: rank_scored_Nil)
  ultimately show ?thesis by (simp add: deriveAuthoritativeClaim_def Let_def)
next
  case (Cons w rest)
  moreover from Cons have "filter live_state obs \<noteq> []" by (metis list.distinct(1) list.map_disc_iff rank_scored_Nil)
  ultimately show ?thesis by (simp add: deriveAuthoritativeClaim_def Let_def)
qed

lemma weights_or_zero:
  fixes f :: "'a \<Rightarrow> rat"
  assumes "\<forall>x \<in> set xs. 0 \<le> f x"
  shows "sum_list (map (\<lambda>x. f x / (if sum_list (map f xs) = 0 then 1 else sum_list (map f xs))) xs)
    = (if \<forall>x \<in> set xs. f x = 0 then 0 else 1)"
proof -
  have "sum_list (map f xs) = 0 \<longleftrightarrow> (\<forall>x \<in> set xs. f x = 0)"
    using assms by (subst sum_list_nonneg_eq_0_iff) auto
  then show ?thesis by (auto simp: sum_list_div)
qed

text \<open>C28: A claim on a canonical axis is decided by authority: its value is that of an observation no other one outweighs,
  so a value that outweighs every rival's is the claim; the candidates are one per value, best first, each with the
  greatest weight of its value, and the confidence stays between 0.2 and 0.99.\<close>

theorem authority_decides:
  assumes c: "deriveAuthoritativeClaim now obs auth d = Some (c, cands)"
  shows "(\<exists>w \<in> set obs. live_state w \<and> dc_value c = on_value w \<and> dc_last c = on_at w
        \<and> (\<forall>o' \<in> set obs. live_state o' \<longrightarrow> effective now auth d o' \<le> effective now auth d w))
    \<and> (\<forall>v. (\<exists>o' \<in> set obs. live_state o' \<and> on_value o' = v) \<and>
          (\<forall>o' \<in> set obs. live_state o' \<and> on_value o' \<noteq> v \<longrightarrow>
             (\<exists>x \<in> set obs. live_state x \<and> on_value x = v \<and> effective now auth d o' < effective now auth d x))
        \<longrightarrow> dc_value c = v)
    \<and> distinct (map cd_value cands)
    \<and> cd_value ` set cands = on_value ` {o' \<in> set obs. live_state o'}
    \<and> sorted_wrt (desc_by cd_effective) cands
    \<and> (\<forall>k \<in> set cands. \<forall>o' \<in> set obs. live_state o' \<and> on_value o' = cd_value k \<longrightarrow> effective now auth d o' \<le> cd_effective k)
    \<and> cd_value (hd cands) = dc_value c
    \<and> 1 / 5 \<le> dc_confidence c \<and> dc_confidence c \<le> 99 / 100"
proof -
  let ?sc = "scored_states now auth d obs" and ?d = "case d of None \<Rightarrow> DEFAULT_AUTHORITY | Some x \<Rightarrow> x"
  from c obtain w rest where r: "rank_scored ?sc = w # rest"
    by (cases "rank_scored ?sc") (simp_all add: deriveAuthoritativeClaim_def Let_def)
  have cs: "cands = map candidate_of (w # rest)" "dc_value c = value_of_scored w" "dc_last c = on_at (sc_obs w)"
      "dc_confidence c = max (1 / 5) (min (99 / 100) (sc_effective w))"
    using c by (auto simp: deriveAuthoritativeClaim_def Let_def r)
  note spec = rank_scored_spec [where sc = ?sc, unfolded r]
  have scored: "x \<in> set ?sc \<longleftrightarrow> (\<exists>o' \<in> set obs. live_state o' \<and> x = score_obs now auth ?d o')" for x by auto
  have w: "sc_obs w \<in> set obs" "live_state (sc_obs w)" "sc_effective w = effective now auth d (sc_obs w)"
    using spec(1) [OF list.set_intros(1)] by (auto simp: effective_def)
  have top: "sc_effective b \<le> sc_effective w" if "b \<in> set (w # rest)" for b
    using spec(4) that by auto
  have le: "effective now auth d o' \<le> sc_effective w" if "o' \<in> set obs" "live_state o'" for o'
  proof -
    from that have "score_obs now auth ?d o' \<in> set ?sc" by auto
    from spec(3) [OF this] obtain b where b: "b \<in> set (w # rest)" "value_of_scored b = on_value o'"
      by (auto simp del: list.set)
    have "effective now auth d o' \<le> sc_effective b"
      unfolding effective_def using spec(2) [OF b(1)] b(2) that by auto
    with top [OF b(1)] show ?thesis by linarith
  qed
  have win: "dc_value c = v" if ex: "\<exists>o' \<in> set obs. live_state o' \<and> on_value o' = v" and
      beat: "\<forall>o' \<in> set obs. live_state o' \<and> on_value o' \<noteq> v \<longrightarrow>
             (\<exists>x \<in> set obs. live_state x \<and> on_value x = v \<and> effective now auth d o' < effective now auth d x)" for v
  proof (rule ccontr)
    assume "dc_value c \<noteq> v"
    with beat w cs(2) obtain x where "x \<in> set obs" "live_state x" "effective now auth d (sc_obs w) < effective now auth d x"
      by auto
    with le [of x] w(3) show False by simp
  qed
  have vals: "cd_value ` set cands = on_value ` {o' \<in> set obs. live_state o'}"
  proof -
    have "cd_value ` set cands = value_of_scored ` set (w # rest)"
      unfolding cs(1) by (auto simp: candidate_of_def image_comp)
    also have "\<dots> = value_of_scored ` set ?sc"
      using spec(1,3) by (fastforce simp: image_iff)
    finally show ?thesis by (auto simp: image_comp)
  qed
  have each: "effective now auth d o' \<le> cd_effective k"
    if "k \<in> set cands" "o' \<in> set obs" "live_state o'" "on_value o' = cd_value k" for k o'
  proof -
    from that(1) cs(1) obtain b where b: "b \<in> set (w # rest)" "k = candidate_of b" by auto
    have "score_obs now auth ?d o' \<in> set ?sc" using that(2,3) by auto
    then have "sc_effective (score_obs now auth ?d o') \<le> sc_effective b"
      using spec(2) [OF b(1)] that(4) b(2) by (simp add: candidate_of_def)
    then show ?thesis by (simp add: effective_def b(2) candidate_of_def)
  qed
  have dist: "distinct (map cd_value cands)" and srt: "sorted_wrt (desc_by cd_effective) cands"
    using spec(4,5) unfolding cs(1) by (simp_all add: comp_def candidate_of_def sorted_wrt_map)
  have first: "\<exists>w \<in> set obs. live_state w \<and> dc_value c = on_value w \<and> dc_last c = on_at w
      \<and> (\<forall>o' \<in> set obs. live_state o' \<longrightarrow> effective now auth d o' \<le> effective now auth d w)"
    using w le [unfolded w(3)] cs(2,3) by (intro bexI [of _ "sc_obs w"]) auto
  have hd: "cd_value (hd cands) = dc_value c" by (simp add: cs candidate_of_def)
  have "1 / 5 \<le> dc_confidence c" "dc_confidence c \<le> 99 / 100"
    using clamp_bounds [of "1 / 5" "99 / 100"] unfolding cs(4) by simp_all
  then show ?thesis using first hd vals dist srt by (intro conjI allI impI ballI) (blast intro: win each)+
qed

definition demo_obs_of :: "string \<Rightarrow> string \<Rightarrow> string \<Rightarrow> string \<Rightarrow> observation" where
  "demo_obs_of i v src t = \<lparr>on_id = i, on_entity = ''e'', on_kind = ''state'', on_property = Some ''lifecycle'', on_value = JStr v,
     on_source = src, on_method = ''api'', on_confidence = None, on_at = t\<rparr>"

definition demo_authority :: authority_map where
  "demo_authority = [(''stripe'', \<lparr>au_authority = 19 / 20, au_event_truth = True\<rparr>),
     (''salesforce'', \<lparr>au_authority = 3 / 5, au_event_truth = False\<rparr>)]"

definition demo_now :: int where
  "demo_now = 1781481600000"

definition demo_log :: "observation list" where
  "demo_log = [demo_obs_of ''o1'' ''customer'' ''stripe'' ''2026-06-01T00:00:00Z'',
     demo_obs_of ''o2'' ''churned'' ''salesforce'' ''2026-06-10T00:00:00Z'']"

lemma demo_log_derives:
  "map_option (\<lambda>(c, k). (dc_value c, map cd_effective k)) (deriveAuthoritativeClaim demo_now demo_log demo_authority None)
     = Some (JStr ''customer'', [19 / 20, 3 / 5])"
  "map_option dc_value (deriveClaim demo_now demo_log) = Some (JStr ''churned'')"
  by code_simp+

theorem authority_decides_witness:
  "\<exists>c k. deriveAuthoritativeClaim demo_now demo_log demo_authority None = Some (c, k) \<and> dc_value c = JStr ''customer''
     \<and> distinct (map cd_value k) \<and> dc_confidence c \<le> 99 / 100"
proof -
  from demo_log_derives(1) obtain c k where e: "deriveAuthoritativeClaim demo_now demo_log demo_authority None = Some (c, k)"
    and "dc_value c = JStr ''customer''" by auto
  with authority_decides [OF e] show ?thesis by blast
qed

text \<open>C27: A recency claim takes the value of a newest live state, its weights add up to one over the distinct values,
  its support is exactly the observations of that value, and its confidence stays between 0.2 and 0.95.\<close>

theorem recency_decides:
  assumes c: "deriveClaim now obs = Some c"
  shows "(\<exists>w \<in> set obs. live_state w \<and> dc_value c = on_value w \<and> dc_last c = on_at w
        \<and> (\<forall>o' \<in> set obs. live_state o' \<longrightarrow> obs_ms o' \<le> obs_ms w))
    \<and> distinct (map fst (dc_distribution c)) \<and> sum_list (map snd (dc_distribution c)) = 1
    \<and> fst ` set (dc_distribution c) = on_value ` {o' \<in> set obs. live_state o'}
    \<and> set (dc_support c) = on_id ` {o' \<in> set obs. live_state o' \<and> on_value o' = dc_value c}
    \<and> dc_count c = length (filter live_state obs)
    \<and> 1 / 5 \<le> dc_confidence c \<and> dc_confidence c \<le> 19 / 20"
  using recency_claim [OF c] by (intro conjI) simp_all

theorem recency_decides_witness:
  "\<exists>c. deriveClaim demo_now demo_log = Some c \<and> dc_value c = JStr ''churned'' \<and> sum_list (map snd (dc_distribution c)) = 1"
proof -
  from demo_log_derives(2) obtain c where e: "deriveClaim demo_now demo_log = Some c" and "dc_value c = JStr ''churned''" by auto
  with recency_decides [OF e] show ?thesis by blast
qed

section \<open>The belief as it stood\<close>

definition derive_property :: "int \<Rightarrow> (string \<Rightarrow> authority_map option) \<Rightarrow> string \<Rightarrow> observation list \<Rightarrow> derived_claim option" where
  "derive_property now authorityByProperty property obs =
     (if isAuthorityAxis property
      then map_option fst (deriveAuthoritativeClaim now obs
             (case authorityByProperty property of None \<Rightarrow> [] | Some m \<Rightarrow> m) None)
      else deriveClaim now obs)"

definition deriveClaimsFromObservations ::
  "int \<Rightarrow> observation list \<Rightarrow> (string \<Rightarrow> authority_map option) \<Rightarrow> (string \<times> derived_claim) list" where
  "deriveClaimsFromObservations now observations authorityByProperty =
     (let byProp = js_group_by (\<lambda>o'. str_of (on_property o')) (filter (\<lambda>o'. nonempty (on_property o')) observations)
      in List.map_filter (\<lambda>(p, obs). map_option (\<lambda>d. (p, d)) (derive_property now authorityByProperty p obs)) byProp)"


lemma derive_property_Nil [simp]: "derive_property now auth p [] = None"
  by (simp add: derive_property_def deriveAuthoritativeClaim_None_iff deriveClaim_None_iff)



text \<open>The unscoped read of the log: newest first, capped; with \<open>asOf\<close>, only what was observed by then.\<close>

definition getObservations ::
  "observation list \<Rightarrow> string \<Rightarrow> string option \<Rightarrow> string option \<Rightarrow> nat option \<Rightarrow> int option \<Rightarrow> observation list" where
  "getObservations table entity property kind cap asOf =
     take (case cap of None \<Rightarrow> 200 | Some n \<Rightarrow> n)
       (js_sort (desc_by obs_ms) (filter (\<lambda>o'. on_entity o' = entity
           \<and> (nonempty property \<longrightarrow> on_property o' = property)
           \<and> (nonempty kind \<longrightarrow> on_kind o' = str_of kind)
           \<and> (case asOf of None \<Rightarrow> True | Some t \<Rightarrow> obs_ms o' \<le> t)) table))"

definition reconstructClaimsAsOf ::
  "int \<Rightarrow> observation list \<Rightarrow> (string \<Rightarrow> authority_map) \<Rightarrow> string \<Rightarrow> int \<Rightarrow> (string \<times> derived_claim) list" where
  "reconstructClaimsAsOf now table authority entity asOf =
     (let observations = getObservations table entity None None (Some 5000) (Some asOf);
          authAxes = js_uniq (filter isAuthorityAxis (map str_of (filter nonempty (map on_property observations))))
      in deriveClaimsFromObservations now observations
           (\<lambda>p. if p \<in> set authAxes then Some (authority p) else None))"





text \<open>On an authority axis the weights are taken with today's freshness, not that of the instant, so the value
  reconstructed for one past instant changes as time passes.\<close>

lemma past_authority_depends_on_today:
  "let log = [demo_obs_of ''o1'' ''Director'' ''linkedin'' ''2025-12-27T00:00:00Z'', demo_obs_of ''o2'' ''VP'' ''hubspot'' ''2026-06-14T00:00:00Z''];
       auth = (\<lambda>p. [(''linkedin'', \<lparr>au_authority = 9 / 10, au_event_truth = False\<rparr>), (''hubspot'', \<lparr>au_authority = 1 / 2, au_event_truth = False\<rparr>)])
   in map_option dc_value (map_of (reconstructClaimsAsOf demo_now log auth ''e'' demo_now) ''lifecycle'') = Some (JStr ''VP'')
    \<and> map_option dc_value (map_of (reconstructClaimsAsOf (demo_now + 365 * day_ms) log auth ''e'' demo_now) ''lifecycle'')
        = Some (JStr ''Director'')"
  by code_simp

end
