(* ===== verification/Conflicts.thy ===== *)
theory Conflicts
  imports Claims
begin

text \<open>
  Field conflicts, \<^verbatim>\<open>packages/core/src/db/conflicts.ts\<close>: what counts as a conflict,
  the row it raises or refreshes, how it closes, the review queue and a person's decision. The
  table is a list of rows; its key (entity, axis) is unique, and an insert with a key that is taken
  fails, as the constraint of the table makes it. Of a failing query the code reads no row.
\<close>

section \<open>Rows\<close>

datatype resolution = Pending | AutoResolved | HumanResolved

datatype conflict_status = OpenConflict | ResolvedConflict | DismissedConflict

record conflict_row =
  cf_id :: string
  cf_entity :: string
  cf_property :: string
  cf_candidates :: "authority_candidate list"
  cf_resolved_value :: jsval
  cf_resolution :: resolution
  cf_resolved_by :: "string option"
  cf_status :: conflict_status
  cf_created_at :: int
  cf_last_fired_at :: int
  cf_resolved_at :: "int option"

type_synonym conflict_table = "conflict_row list"

definition cf_key :: "conflict_row \<Rightarrow> string \<times> string" where
  "cf_key r = (cf_entity r, cf_property r)"

definition table_ok :: "conflict_table \<Rightarrow> bool" where
  "table_ok t = (distinct (map cf_key t) \<and> distinct (map cf_id t))"

definition conflict_at :: "conflict_table \<Rightarrow> string \<times> string \<Rightarrow> conflict_row option" where
  "conflict_at t k = (case filter (\<lambda>r. cf_key r = k) t of [r] \<Rightarrow> Some r | _ \<Rightarrow> None)"

definition update_row :: "string \<Rightarrow> (conflict_row \<Rightarrow> conflict_row) \<Rightarrow> conflict_table \<Rightarrow> conflict_table" where
  "update_row i f t = map (\<lambda>r. if cf_id r = i then f r else r) t"

section \<open>What is a conflict\<close>

definition kept_values :: "jsval list \<Rightarrow> jsval list" where
  "kept_values vs = foldl (\<lambda>kept v. if list_ex (\<lambda>k. \<not> valuesGenuinelyDiffer k v) kept then kept else kept @ [v]) [] vs"

definition distinctValues :: "authority_candidate list \<Rightarrow> nat" where
  "distinctValues cands = length (kept_values (map cd_value cands))"

definition isFieldConflict :: "authority_candidate list \<Rightarrow> bool" where
  "isFieldConflict cands = (2 \<le> distinctValues cands \<and> 2 \<le> length (js_uniq (map cd_source cands)))"

lemma kept_values_from: "set (kept_values vs) \<subseteq> set vs"
proof (induction vs rule: rev_induct)
  case Nil
  show ?case by (simp add: kept_values_def)
next
  case (snoc v vs)
  then show ?case by (auto simp: kept_values_def)
qed

lemma kept_values_differ:
  "sorted_wrt valuesGenuinelyDiffer (kept_values vs)"
proof (induction vs rule: rev_induct)
  case Nil
  show ?case by (simp add: kept_values_def)
next
  case (snoc v vs)
  then show ?case by (auto simp: kept_values_def sorted_wrt_append list_ex_iff)
qed

text \<open>A conflict needs two values that genuinely differ.\<close>

lemma conflict_has_two_values:
  assumes "isFieldConflict cands"
  shows "\<exists>a \<in> set cands. \<exists>b \<in> set cands. valuesGenuinelyDiffer (cd_value a) (cd_value b)"
proof -
  from assms obtain x y rest where k: "kept_values (map cd_value cands) = x # y # rest"
    by (auto simp: isFieldConflict_def distinctValues_def numeral_2_eq_2 Suc_le_length_iff)
  have "valuesGenuinelyDiffer x y" using kept_values_differ [of "map cd_value cands"] unfolding k by simp
  moreover have "x \<in> cd_value ` set cands" "y \<in> cd_value ` set cands"
    using kept_values_from [of "map cd_value cands"] unfolding k by auto
  ultimately show ?thesis by blast
qed

text \<open>A single source never disagrees with itself, and nobody disagrees with no candidate.\<close>

lemma one_source_no_conflict: "\<forall>a \<in> set cands. cd_source a = s \<Longrightarrow> \<not> isFieldConflict cands"
proof -
  assume "\<forall>a \<in> set cands. cd_source a = s"
  then have "set (js_uniq (map cd_source cands)) \<subseteq> {s}" by auto
  then have "length (js_uniq (map cd_source cands)) \<le> 1"
    by (metis One_nat_def card.empty card.insert card_mono distinct_card distinct_js_uniq empty_iff finite.emptyI finite_insert)
  then show ?thesis by (simp add: isFieldConflict_def)
qed

section \<open>Detection\<close>

definition DEFAULT_MARGIN :: rat where
  "DEFAULT_MARGIN = 3 / 20"

definition resolveConflictIfOpen :: "int \<Rightarrow> string \<times> string \<Rightarrow> conflict_table \<Rightarrow> conflict_table" where
  "resolveConflictIfOpen now k t =
     map (\<lambda>r. if cf_key r = k \<and> cf_status r = OpenConflict \<and> cf_resolution r \<in> {Pending, AutoResolved}
          then r\<lparr>cf_status := ResolvedConflict, cf_resolved_at := Some now\<rparr> else r) t"

definition raised_row :: "int \<Rightarrow> rat \<Rightarrow> string \<times> string \<Rightarrow> authority_candidate list \<Rightarrow> string \<Rightarrow> conflict_row" where
  "raised_row now margin k cands i =
     (let winner = hd cands;
          runnerUp = (if tl cands = [] then 0 else cd_effective (hd (tl cands)));
          cleared = (cd_effective winner - runnerUp \<ge> margin)
      in \<lparr>cf_id = i, cf_entity = fst k, cf_property = snd k, cf_candidates = cands,
          cf_resolved_value = (if cleared then cd_value winner else JNull),
          cf_resolution = (if cleared then AutoResolved else Pending),
          cf_resolved_by = (if cleared then Some (cd_source winner) else None),
          cf_status = OpenConflict, cf_created_at = now, cf_last_fired_at = now, cf_resolved_at = None\<rparr>)"

definition detectFieldConflict ::
  "int \<Rightarrow> string \<Rightarrow> rat option \<Rightarrow> string \<times> string \<Rightarrow> authority_candidate list \<Rightarrow> conflict_table
    \<Rightarrow> conflict_row option \<times> conflict_table" where
  "detectFieldConflict now new_id margin k candidates t =
     (let cands = js_sort (desc_by cd_effective) candidates in
      if \<not> isFieldConflict cands then (None, resolveConflictIfOpen now k t)
      else
        (let m = (case margin of None \<Rightarrow> DEFAULT_MARGIN | Some x \<Rightarrow> x) in
         case conflict_at t k of
           Some e \<Rightarrow>
             if cf_resolution e = HumanResolved \<and> cf_status e \<noteq> DismissedConflict
             then (let f = (\<lambda>r. r\<lparr>cf_candidates := cands, cf_last_fired_at := now\<rparr>) in (Some (f e), update_row (cf_id e) f t))
             else if cf_status e = DismissedConflict then (None, t)
             else (let f = (\<lambda>r. (raised_row now m k cands (cf_id r))\<lparr>cf_created_at := cf_created_at r\<rparr>)
                   in (Some (f e), update_row (cf_id e) f t))
         | None \<Rightarrow>
             if k \<in> set (map cf_key t) then (None, t)
             else (Some (raised_row now m k cands new_id), t @ [raised_row now m k cands new_id])))"

text \<open>What detection does to the row of its axis; it touches no other row.\<close>

definition next_conflict ::
  "int \<Rightarrow> string \<Rightarrow> rat option \<Rightarrow> string \<times> string \<Rightarrow> authority_candidate list \<Rightarrow> conflict_row option \<Rightarrow> conflict_row option" where
  "next_conflict now new_id margin k candidates r =
     (let cands = js_sort (desc_by cd_effective) candidates;
          raised = raised_row now (case margin of None \<Rightarrow> DEFAULT_MARGIN | Some x \<Rightarrow> x) k cands
      in if \<not> isFieldConflict cands then
           map_option (\<lambda>e. if cf_status e = OpenConflict \<and> cf_resolution e \<noteq> HumanResolved
             then e\<lparr>cf_status := ResolvedConflict, cf_resolved_at := Some now\<rparr> else e) r
         else (case r of None \<Rightarrow> Some (raised new_id)
           | Some e \<Rightarrow> Some (if cf_status e = DismissedConflict then e
               else if cf_resolution e = HumanResolved then e\<lparr>cf_candidates := cands, cf_last_fired_at := now\<rparr>
               else (raised (cf_id e))\<lparr>cf_created_at := cf_created_at e\<rparr>)))"

lemma filter_key_unique:
  "distinct (map cf_key t) \<Longrightarrow> r \<in> set t \<Longrightarrow> filter (\<lambda>x. cf_key x = cf_key r) t = [r]"
  by (induction t) (auto simp: filter_empty_conv, metis image_eqI)

lemma conflict_at_iff: "table_ok t \<Longrightarrow> conflict_at t k = Some r \<longleftrightarrow> r \<in> set t \<and> cf_key r = k"
proof
  assume ok: "table_ok t" and c: "conflict_at t k = Some r"
  then have "filter (\<lambda>x. cf_key x = k) t = [r]" by (auto simp: conflict_at_def split: list.splits)
  then have "r \<in> set (filter (\<lambda>x. cf_key x = k) t)" by simp
  then show "r \<in> set t \<and> cf_key r = k" by simp
next
  assume "table_ok t" "r \<in> set t \<and> cf_key r = k"
  then show "conflict_at t k = Some r" using filter_key_unique [of t r] by (auto simp: table_ok_def conflict_at_def)
qed

lemma conflict_at_None: "table_ok t \<Longrightarrow> conflict_at t k = None \<longleftrightarrow> k \<notin> cf_key ` set t"
  using conflict_at_iff [of t k] by (cases "conflict_at t k") (auto simp: image_iff, metis)

text \<open>Rewriting rows without touching their keys or ids keeps the table, and reads as the rewritten row.\<close>

lemma rewrite_ok:
  assumes "table_ok t" and "\<forall>r. cf_key (f r) = cf_key r \<and> cf_id (f r) = cf_id r"
  shows "table_ok (map f t)" and "conflict_at (map f t) k = map_option f (conflict_at t k)"
proof -
  have "map cf_key (map f t) = map cf_key t" "map cf_id (map f t) = map cf_id t" using assms(2) by simp_all
  with assms(1) show ok: "table_ok (map f t)" unfolding table_ok_def by metis
  show "conflict_at (map f t) k = map_option f (conflict_at t k)"
  proof (cases "conflict_at t k")
    case None
    have "cf_key ` set (map f t) = cf_key ` set t" using assms(2) by (auto simp: image_comp)
    with None show ?thesis using conflict_at_None [OF assms(1), of k] conflict_at_None [OF ok, of k] by simp
  next
    case (Some r)
    then have "f r \<in> set (map f t) \<and> cf_key (f r) = k" using conflict_at_iff [OF assms(1)] assms(2) by auto
    with Some show ?thesis using conflict_at_iff [OF ok] by simp
  qed
qed

lemma update_row_at:
  assumes t: "table_ok t" and r: "conflict_at t k = Some r" and f: "\<And>x. cf_key x = k \<Longrightarrow> cf_key (f x) = k \<and> cf_id (f x) = cf_id x"
  shows "table_ok (update_row (cf_id r) f t)"
    and "conflict_at (update_row (cf_id r) f t) k' = (if k' = k then Some (f r) else conflict_at t k')"
proof -
  let ?g = "\<lambda>x. if x = r then f x else x"
  have mem: "r \<in> set t" "cf_key r = k" using r conflict_at_iff [OF t] by auto
  have "x = r" if "x \<in> set t" "cf_id x = cf_id r" for x
    using t mem(1) that unfolding table_ok_def by (metis distinct_map inj_onD)
  then have eq: "update_row (cf_id r) f t = map ?g t" unfolding update_row_def by (intro map_cong refl) auto
  have g: "\<forall>x. cf_key (?g x) = cf_key x \<and> cf_id (?g x) = cf_id x" using f mem(2) by auto
  show "table_ok (update_row (cf_id r) f t)" unfolding eq using rewrite_ok(1) [OF t g] .
  have other: "x \<noteq> r" if "conflict_at t k' = Some x" "k' \<noteq> k" for x
    using that mem conflict_at_iff [OF t] by auto
  show "conflict_at (update_row (cf_id r) f t) k' = (if k' = k then Some (f r) else conflict_at t k')"
    unfolding eq rewrite_ok(2) [OF t g] using r other by (cases "conflict_at t k'") auto
qed

lemma append_row:
  assumes t: "table_ok t" and new: "conflict_at t (cf_key r) = None" "cf_id r \<notin> cf_id ` set t"
  shows "table_ok (t @ [r])" and "conflict_at (t @ [r]) k = (if k = cf_key r then Some r else conflict_at t k)"
proof -
  show ok: "table_ok (t @ [r])" using t new conflict_at_None [OF t] by (auto simp: table_ok_def)
  show "conflict_at (t @ [r]) k = (if k = cf_key r then Some r else conflict_at t k)"
  proof (cases "k = cf_key r")
    case True
    have "filter (\<lambda>x. cf_key x = cf_key r) t = []"
      using conflict_at_None [OF t, of "cf_key r"] new(1) by (auto simp: filter_empty_conv image_iff)
    with True show ?thesis by (simp add: conflict_at_def)
  qed (simp add: conflict_at_def)
qed

lemma raised_row_key [simp]: "cf_key (raised_row now m k cands i) = k" "cf_id (raised_row now m k cands i) = i"
  by (simp_all add: raised_row_def Let_def cf_key_def)

lemma cf_key_update [simp]:
  "cf_key (r\<lparr>cf_status := st\<rparr>) = cf_key r" "cf_key (r\<lparr>cf_resolved_at := a\<rparr>) = cf_key r"
  "cf_key (r\<lparr>cf_candidates := cs\<rparr>) = cf_key r" "cf_key (r\<lparr>cf_last_fired_at := n\<rparr>) = cf_key r"
  "cf_key (r\<lparr>cf_created_at := c\<rparr>) = cf_key r" "cf_key (r\<lparr>cf_resolved_value := v\<rparr>) = cf_key r"
  "cf_key (r\<lparr>cf_resolution := s\<rparr>) = cf_key r" "cf_key (r\<lparr>cf_resolved_by := b\<rparr>) = cf_key r"
  by (simp_all add: cf_key_def)

text \<open>Detection refines the per-axis rule: its own row changes as \<open>next_conflict\<close> says, every other row stays.\<close>

lemma resolveConflictIfOpen_at:
  assumes t: "table_ok t"
  shows "table_ok (resolveConflictIfOpen now k t)"
    and "conflict_at (resolveConflictIfOpen now k t) k' = (if k' = k
      then map_option (\<lambda>e. if cf_status e = OpenConflict \<and> cf_resolution e \<noteq> HumanResolved
             then e\<lparr>cf_status := ResolvedConflict, cf_resolved_at := Some now\<rparr> else e) (conflict_at t k)
      else conflict_at t k')"
proof -
  let ?f = "\<lambda>r. if cf_key r = k \<and> cf_status r = OpenConflict \<and> cf_resolution r \<in> {Pending, AutoResolved}
          then r\<lparr>cf_status := ResolvedConflict, cf_resolved_at := Some now\<rparr> else r"
  have f: "\<forall>r. cf_key (?f r) = cf_key r \<and> cf_id (?f r) = cf_id r" by simp
  show "table_ok (resolveConflictIfOpen now k t)" unfolding resolveConflictIfOpen_def using rewrite_ok(1) [OF t f] .
  have h: "s = Pending \<or> s = AutoResolved \<longleftrightarrow> s \<noteq> HumanResolved" for s by (cases s) auto
  have "cf_key x = k'" if "conflict_at t k' = Some x" for x using that conflict_at_iff [OF t] by simp
  then show "conflict_at (resolveConflictIfOpen now k t) k' = (if k' = k
      then map_option (\<lambda>e. if cf_status e = OpenConflict \<and> cf_resolution e \<noteq> HumanResolved
             then e\<lparr>cf_status := ResolvedConflict, cf_resolved_at := Some now\<rparr> else e) (conflict_at t k)
      else conflict_at t k')"
    unfolding resolveConflictIfOpen_def rewrite_ok(2) [OF t f] by (cases "conflict_at t k'") (auto simp: h)
qed

lemma detect_refines:
  assumes t: "table_ok t" and i: "new_id \<notin> cf_id ` set t"
    and d: "snd (detectFieldConflict now new_id margin k cands t) = t'"
  shows "table_ok t'" and "conflict_at t' k' = (if k' = k then next_conflict now new_id margin k cands (conflict_at t k) else conflict_at t k')"
proof -
  let ?c = "js_sort (desc_by cd_effective) cands" and ?m = "case margin of None \<Rightarrow> DEFAULT_MARGIN | Some x \<Rightarrow> x"
  have "table_ok t' \<and> conflict_at t' k' = (if k' = k then next_conflict now new_id margin k cands (conflict_at t k) else conflict_at t k')"
  proof (cases "isFieldConflict ?c")
    case False
    then show ?thesis using d resolveConflictIfOpen_at [OF t, of now k]
      by (auto simp: detectFieldConflict_def next_conflict_def Let_def)
  next
    case True
    note [simp] = detectFieldConflict_def next_conflict_def Let_def
    show ?thesis
    proof (cases "conflict_at t k")
      case None
      have "k \<notin> set (map cf_key t)" using conflict_at_None [OF t, of k] None by simp
      then show ?thesis using d True None append_row [OF t, of "raised_row now ?m k ?c new_id"] i by auto
    next
      case (Some e)
      let ?h = "\<lambda>r. r\<lparr>cf_candidates := ?c, cf_last_fired_at := now\<rparr>"
        and ?r = "\<lambda>r. (raised_row now ?m k ?c (cf_id r))\<lparr>cf_created_at := cf_created_at r\<rparr>"
      have h: "cf_key (?h x) = k \<and> cf_id (?h x) = cf_id x" "cf_key (?r x) = k \<and> cf_id (?r x) = cf_id x" if "cf_key x = k" for x
        using that by simp_all
      show ?thesis
        using d True Some t update_row_at [OF t Some h(1)] update_row_at [OF t Some h(2)]
        by (auto split: if_splits)
    qed
  qed
  then show "table_ok t'" and "conflict_at t' k' = (if k' = k then next_conflict now new_id margin k cands (conflict_at t k) else conflict_at t k')"
    by auto
qed

section \<open>A person's decision\<close>

definition resolveConflictByHuman :: "int \<Rightarrow> string \<Rightarrow> jsval \<Rightarrow> string \<Rightarrow> conflict_table \<Rightarrow> conflict_row option \<times> conflict_table" where
  "resolveConflictByHuman now i v user t =
     (let f = (\<lambda>r. r\<lparr>cf_resolved_value := v, cf_resolution := HumanResolved, cf_resolved_by := Some user,
                 cf_status := ResolvedConflict, cf_resolved_at := Some now\<rparr>)
      in (map_option f (List.find (\<lambda>r. cf_id r = i) t), update_row i f t))"

definition setConflictStatus :: "int \<Rightarrow> string \<Rightarrow> conflict_status \<Rightarrow> conflict_table \<Rightarrow> conflict_row option \<times> conflict_table" where
  "setConflictStatus now i st t =
     (let f = (\<lambda>r. if st = ResolvedConflict \<or> st = DismissedConflict then r\<lparr>cf_status := st, cf_resolved_at := Some now\<rparr>
                   else r\<lparr>cf_status := st\<rparr>)
      in (map_option f (List.find (\<lambda>r. cf_id r = i) t), update_row i f t))"

inductive detect_step :: "conflict_table \<Rightarrow> conflict_table \<Rightarrow> bool" where
  Detect: "new_id \<notin> cf_id ` set t \<Longrightarrow> snd (detectFieldConflict now new_id None k cands t) = t' \<Longrightarrow> detect_step t t'"

inductive conflict_step :: "conflict_table \<Rightarrow> conflict_table \<Rightarrow> bool" where
  Auto: "detect_step t t' \<Longrightarrow> conflict_step t t'"
| Decide: "snd (resolveConflictByHuman now i v user t) = t' \<Longrightarrow> conflict_step t t'"
| SetStatus: "snd (setConflictStatus now i st t) = t' \<Longrightarrow> conflict_step t t'"

inductive_cases detect_stepE: "detect_step t t'"

lemma next_conflict_keeps_decisions:
  assumes "cf_resolution r = HumanResolved \<or> cf_status r = DismissedConflict"
  obtains r' where "next_conflict now i m k cands (Some r) = Some r'" and "cf_id r' = cf_id r" and "cf_resolution r' = cf_resolution r"
    and "cf_resolved_value r' = cf_resolved_value r" and "cf_resolved_by r' = cf_resolved_by r" and "cf_status r' = cf_status r"
    and "cf_status r = DismissedConflict \<Longrightarrow> r' = r"
proof (cases "cf_status r = DismissedConflict \<or> \<not> isFieldConflict (js_sort (desc_by cd_effective) cands)")
  case True
  then have "next_conflict now i m k cands (Some r) = Some r" using assms by (auto simp: next_conflict_def Let_def)
  then show ?thesis by (rule that) simp_all
next
  case False
  then have "next_conflict now i m k cands (Some r)
      = Some (r\<lparr>cf_candidates := js_sort (desc_by cd_effective) cands, cf_last_fired_at := now\<rparr>)"
    using assms by (simp add: next_conflict_def Let_def)
  then show ?thesis by (rule that) (use False in simp_all)
qed

text \<open>C30: Detection never takes back a decision: however often and with whatever evidence the axis is recomputed, a row that a
  person resolved keeps its value, its author and its state, and a dismissed row stays exactly as it was.\<close>

theorem decisions_survive_detection:
  assumes "detect_step\<^sup>*\<^sup>* t t'" and "table_ok t" and "conflict_at t k = Some r"
    and "cf_resolution r = HumanResolved \<or> cf_status r = DismissedConflict"
  shows "\<exists>r'. conflict_at t' k = Some r' \<and> cf_id r' = cf_id r \<and> cf_resolution r' = cf_resolution r
    \<and> cf_resolved_value r' = cf_resolved_value r \<and> cf_resolved_by r' = cf_resolved_by r \<and> cf_status r' = cf_status r
    \<and> (cf_status r = DismissedConflict \<longrightarrow> r' = r)"
proof -
  have "table_ok t' \<and> (\<exists>r'. conflict_at t' k = Some r' \<and> cf_id r' = cf_id r \<and> cf_resolution r' = cf_resolution r
    \<and> cf_resolved_value r' = cf_resolved_value r \<and> cf_resolved_by r' = cf_resolved_by r \<and> cf_status r' = cf_status r
    \<and> (cf_status r = DismissedConflict \<longrightarrow> r' = r))" using assms(1)
  proof (induction rule: rtranclp_induct)
    case base
    then show ?case using assms(2,3) by simp
  next
    case (step y z)
    from step.IH obtain r' where ok: "table_ok y" and r': "conflict_at y k = Some r'" "cf_id r' = cf_id r"
        "cf_resolution r' = cf_resolution r" "cf_resolved_value r' = cf_resolved_value r" "cf_resolved_by r' = cf_resolved_by r"
        "cf_status r' = cf_status r" "cf_status r = DismissedConflict \<longrightarrow> r' = r" by blast
    from step.hyps(2) obtain i now k' cands where i: "i \<notin> cf_id ` set y"
      and z: "snd (detectFieldConflict now i None k' cands y) = z" by (cases rule: detect_step.cases) auto
    note d = detect_refines [OF ok i z]
    have "cf_resolution r' = HumanResolved \<or> cf_status r' = DismissedConflict" using assms(4) r' by simp
    then obtain r'' where "next_conflict now i None k cands (Some r') = Some r''" "cf_id r'' = cf_id r'" "cf_resolution r'' = cf_resolution r'"
        "cf_resolved_value r'' = cf_resolved_value r'" "cf_resolved_by r'' = cf_resolved_by r'" "cf_status r'' = cf_status r'"
        "cf_status r' = DismissedConflict \<Longrightarrow> r'' = r'" by (rule next_conflict_keeps_decisions) blast
    with d r' show ?case by (cases "k' = k") auto
  qed
  then show ?thesis by blast
qed

section \<open>The rows mean what they say\<close>

definition lead :: "authority_candidate list \<Rightarrow> rat" where
  "lead cands = cd_effective (hd cands) - (if tl cands = [] then 0 else cd_effective (hd (tl cands)))"

definition row_means :: "conflict_row \<Rightarrow> bool" where
  "row_means r =
     (isFieldConflict (cf_candidates r) \<and> sorted_wrt (desc_by cd_effective) (cf_candidates r)
      \<and> (cf_resolution r = Pending \<longrightarrow> lead (cf_candidates r) < DEFAULT_MARGIN \<and> cf_resolved_value r = JNull \<and> cf_resolved_by r = None)
      \<and> (cf_resolution r = AutoResolved \<longrightarrow> lead (cf_candidates r) \<ge> DEFAULT_MARGIN
           \<and> cf_resolved_value r = cd_value (hd (cf_candidates r)) \<and> cf_resolved_by r = Some (cd_source (hd (cf_candidates r))))
      \<and> (cf_resolution r = HumanResolved \<longrightarrow> cf_resolved_by r \<noteq> None))"

lemma raised_row_means:
  "isFieldConflict c \<Longrightarrow> sorted_wrt (desc_by cd_effective) c \<Longrightarrow> row_means (raised_row now DEFAULT_MARGIN k c i)"
  by (auto simp: row_means_def raised_row_def Let_def lead_def)

lemma row_means_update [simp]:
  "row_means (r\<lparr>cf_status := st\<rparr>) = row_means r" "row_means (r\<lparr>cf_resolved_at := a\<rparr>) = row_means r"
  "row_means (r\<lparr>cf_created_at := n\<rparr>) = row_means r" "row_means (r\<lparr>cf_last_fired_at := n\<rparr>) = row_means r"
  by (simp_all add: row_means_def)

lemma detect_keeps_meaning:
  assumes rows: "\<forall>r \<in> set t. row_means r" and uniq: "distinct (map cf_id t)" and d: "snd (detectFieldConflict now i None k cands t) = t'" and r: "r \<in> set t'"
  shows "row_means r"
proof -
  let ?c = "js_sort (desc_by cd_effective) cands"
  have srt: "sorted_wrt (desc_by cd_effective) ?c" by (rule desc.sort_sorted)
  note [simp] = detectFieldConflict_def Let_def
  consider "\<not> isFieldConflict ?c" | "isFieldConflict ?c" by blast
  then show ?thesis
  proof cases
    case 1
    then show ?thesis using rows d r
      by (auto simp: resolveConflictIfOpen_def split: if_splits)
  next
    case 2
    have raised: "row_means (raised_row now DEFAULT_MARGIN k ?c j)" for j
      using raised_row_means [OF 2 srt] .
    show ?thesis
    proof (cases "conflict_at t k")
      case None
      then show ?thesis using rows d r 2 raised by (auto split: if_splits)
    next
      case (Some e)
      have human: "row_means (x\<lparr>cf_candidates := ?c\<rparr>)" if "row_means x" "cf_resolution x = HumanResolved" for x
        using that 2 srt by (simp add: row_means_def)
      have "filter (\<lambda>x. cf_key x = k) t = [e]" using Some by (auto simp: conflict_at_def split: list.splits)
      then have "e \<in> set (filter (\<lambda>x. cf_key x = k) t)" by simp
      then have e: "e \<in> set t" by simp
      have same: "x \<in> set t \<Longrightarrow> cf_id x = cf_id e \<Longrightarrow> x = e" for x using uniq e by (metis distinct_map inj_onD)
      show ?thesis
        using rows d r 2 Some raised human e
        by (auto simp: update_row_def split: if_splits dest: same) (metis human same)
    qed
  qed
qed

lemma update_row_keeps:
  assumes t: "table_ok t" "\<forall>r \<in> set t. row_means r"
    and f: "\<And>r. cf_key (f r) = cf_key r \<and> cf_id (f r) = cf_id r" "\<And>r. row_means r \<Longrightarrow> row_means (f r)"
  shows "table_ok (update_row i f t) \<and> (\<forall>r \<in> set (update_row i f t). row_means r)"
  unfolding update_row_def using rewrite_ok(1) [OF t(1), of "\<lambda>r. if cf_id r = i then f r else r"] t(2) f by auto

lemma conflict_step_ok:
  assumes "conflict_step t t'" and ok: "table_ok t" "\<forall>r \<in> set t. row_means r"
  shows "table_ok t' \<and> (\<forall>r \<in> set t'. row_means r)"
  using assms(1)
proof (cases rule: conflict_step.cases)
  case Auto
  then obtain i now k cands where "i \<notin> cf_id ` set t" "snd (detectFieldConflict now i None k cands t) = t'"
    by (rule detect_stepE)
  then show ?thesis using detect_refines(1) [OF ok(1)] detect_keeps_meaning [OF ok(2)] ok(1)
    unfolding table_ok_def by blast
next
  case (Decide now i v user)
  show ?thesis unfolding Decide [symmetric] resolveConflictByHuman_def Let_def snd_conv
    by (rule update_row_keeps [OF ok]) (simp_all add: row_means_def)
next
  case (SetStatus now i st)
  show ?thesis unfolding SetStatus [symmetric] setConflictStatus_def Let_def snd_conv
    by (rule update_row_keeps [OF ok]) simp_all
qed

text \<open>C31: Whatever detection and people do to an empty table, one row stands for an axis, every row holds a genuine disagreement
  best candidate first, a pending row has no value and no clear leader, an automatically resolved one
  has a clear leader and its value, and one a person resolved names the person.\<close>

theorem conflict_rows_mean:
  assumes "conflict_step\<^sup>*\<^sup>* [] t"
  shows "table_ok t \<and> (\<forall>r \<in> set t. row_means r
    \<and> (\<exists>a \<in> set (cf_candidates r). \<exists>b \<in> set (cf_candidates r). valuesGenuinelyDiffer (cd_value a) (cd_value b)))"
proof -
  have "table_ok t \<and> (\<forall>r \<in> set t. row_means r)" using assms
  proof (induction rule: rtranclp_induct)
    case base
    then show ?case by (simp add: table_ok_def)
  next
    case (step y z)
    then show ?case using conflict_step_ok by blast
  qed
  then show ?thesis using conflict_has_two_values by (auto simp: row_means_def)
qed

definition demo_candidate :: "string \<Rightarrow> string \<Rightarrow> rat \<Rightarrow> authority_candidate" where
  "demo_candidate v s e = \<lparr>cd_value = JStr v, cd_source = s, cd_observed_at = None, cd_effective = e, cd_observation = None\<rparr>"

definition demo_conflicts :: "conflict_table" where
  "demo_conflicts = snd (detectFieldConflict 7 ''c1'' None (''e'', ''job_title'')
     [demo_candidate ''Director'' ''salesforce'' (3 / 5), demo_candidate ''VP'' ''linkedin'' (9 / 10)] [])"

lemma demo_conflicts_value: "demo_conflicts = [\<lparr>cf_id = ''c1'', cf_entity = ''e'', cf_property = ''job_title'',
    cf_candidates = [demo_candidate ''VP'' ''linkedin'' (9 / 10), demo_candidate ''Director'' ''salesforce'' (3 / 5)],
    cf_resolved_value = JStr ''VP'', cf_resolution = AutoResolved, cf_resolved_by = Some ''linkedin'', cf_status = OpenConflict,
    cf_created_at = 7, cf_last_fired_at = 7, cf_resolved_at = None\<rparr>]"
  by code_simp

lemma demo_conflicts_step: "detect_step [] demo_conflicts"
  by (rule Detect [where new_id = "''c1''"]) (simp_all add: demo_conflicts_def)

theorem conflict_rows_mean_witness:
  "row_means (hd demo_conflicts) \<and> cf_resolution (hd demo_conflicts) = AutoResolved"
proof -
  have "conflict_step\<^sup>*\<^sup>* [] demo_conflicts"
    by (rule r_into_rtranclp, rule conflict_step.Auto, rule demo_conflicts_step)
  from conflict_rows_mean [OF this] show ?thesis by (simp add: demo_conflicts_value)
qed

definition demo_decided :: "conflict_table" where
  "demo_decided = snd (resolveConflictByHuman 8 ''c1'' (JStr ''Director'') ''u1'' demo_conflicts)"

definition demo_refired :: "conflict_table" where
  "demo_refired = snd (detectFieldConflict 9 ''c2'' None (''e'', ''job_title'')
     [demo_candidate ''CEO'' ''salesforce'' (3 / 5), demo_candidate ''VP'' ''linkedin'' (9 / 10)] demo_decided)"

theorem decisions_survive_detection_witness:
  "\<exists>r. conflict_at demo_refired (''e'', ''job_title'') = Some r \<and> cf_resolved_value r = JStr ''Director''
     \<and> cf_resolved_by r = Some ''u1'' \<and> cf_status r = ResolvedConflict"
proof -
  have s: "detect_step\<^sup>*\<^sup>* demo_decided demo_refired"
    by (rule r_into_rtranclp, rule Detect [where new_id = "''c2''"], code_simp, simp add: demo_refired_def)
  have ok: "table_ok demo_decided" by code_simp
  obtain r where r: "conflict_at demo_decided (''e'', ''job_title'') = Some r" "cf_resolution r = HumanResolved"
      "cf_resolved_value r = JStr ''Director''" "cf_resolved_by r = Some ''u1''" "cf_status r = ResolvedConflict"
    by (auto simp: demo_decided_def demo_conflicts_value resolveConflictByHuman_def update_row_def conflict_at_def cf_key_def Let_def)
  from decisions_survive_detection [OF s ok r(1)] r show ?thesis by auto
qed

section \<open>The review queue\<close>

definition resolution_rank :: "resolution \<Rightarrow> nat" where
  "resolution_rank s = (case s of AutoResolved \<Rightarrow> 0 | HumanResolved \<Rightarrow> 1 | Pending \<Rightarrow> 2)"

definition queue_le :: "conflict_row \<Rightarrow> conflict_row \<Rightarrow> bool" where
  "queue_le a b = (resolution_rank (cf_resolution a) < resolution_rank (cf_resolution b)
     \<or> resolution_rank (cf_resolution a) = resolution_rank (cf_resolution b) \<and> cf_last_fired_at b \<le> cf_last_fired_at a)"

interpretation queue: js_comparator queue_le
  by unfold_locales (auto simp: queue_le_def)

definition pending_first :: "conflict_row \<Rightarrow> nat" where
  "pending_first r = (if cf_resolution r = Pending then 0 else 1)"

text \<open>The database orders by the text of the resolution and cuts to the limit; the code then puts pending rows first.\<close>

definition listConflicts :: "conflict_status list \<Rightarrow> nat option \<Rightarrow> conflict_table \<Rightarrow> conflict_row list" where
  "listConflicts statuses cap t =
     (let rows = js_sort queue_le (filter (\<lambda>r. cf_status r \<in> set statuses) t)
      in js_sort (asc_by pending_first) (case cap of None \<Rightarrow> rows | Some n \<Rightarrow> take n rows))"

lemma uncapped_queue:
  "mset (listConflicts statuses None t) = filter_mset (\<lambda>r. cf_status r \<in> set statuses) (mset t)"
  "sorted_wrt (asc_by pending_first) (listConflicts statuses None t)"
  using asc.sort_sorted by (simp_all add: listConflicts_def Let_def)

text \<open>With a limit, rows that need no one come first in the database's order: once they fill the page, no pending row is shown.\<close>

lemma pending_starved_by_limit:
  assumes "n \<le> length (filter (\<lambda>r. cf_status r = OpenConflict \<and> cf_resolution r = AutoResolved) t)"
    and "r \<in> set (listConflicts [OpenConflict] (Some n) t)"
  shows "cf_resolution r = AutoResolved"
proof -
  let ?rows = "js_sort queue_le (filter (\<lambda>r. cf_status r \<in> set [OpenConflict]) t)" and ?auto = "\<lambda>r. cf_resolution r = AutoResolved"
  obtain j where j: "j < n" "j < length ?rows" "?rows ! j = r"
    using assms(2) by (auto simp: listConflicts_def Let_def in_set_conv_nth)
  show ?thesis
  proof (rule ccontr)
    assume no: "\<not> ?auto r"
    have "\<not> ?auto (?rows ! i)" if "j \<le> i" "i < length ?rows" for i
    proof (cases "i = j")
      case False
      with that have "queue_le r (?rows ! i)"
        using queue.sort_sorted [of "filter (\<lambda>r. cf_status r \<in> set [OpenConflict]) t"] j
        by (metis le_neq_implies_less sorted_wrt_iff_nth_less)
      with no show ?thesis
        by (cases "cf_resolution r"; cases "cf_resolution (?rows ! i)") (auto simp: queue_le_def resolution_rank_def)
    qed (use no j in simp)
    then have "filter ?auto (drop j ?rows) = []"
      by (auto simp: filter_empty_conv in_set_conv_nth)
    then have "filter ?auto ?rows = filter ?auto (take j ?rows)"
      by (metis append_Nil2 append_take_drop_id filter_append)
    then have "length (filter ?auto ?rows) \<le> j"
      using length_filter_le [of ?auto "take j ?rows"] by simp
    moreover have "length (filter ?auto ?rows) = length (filter (\<lambda>r. cf_status r = OpenConflict \<and> ?auto r) t)"
    proof -
      have "mset (filter ?auto ?rows) = mset (filter (\<lambda>r. cf_status r = OpenConflict \<and> ?auto r) t)"
        by (simp add: filter_filter_mset ac_simps conj_commute)
      then show ?thesis by (metis size_mset)
    qed
    ultimately show False using assms(1) j(1) by simp
  qed
qed

end
