(* ===== verification/ClaimEngine.thy ===== *)
theory ClaimEngine
  imports Conflicts
begin

text \<open>
  Recomputing claims, \<^verbatim>\<open>packages/core/src/db/claims.ts\<close>: one claim, a batch of claims,
  assertion and a person's decision on a conflict (\<^verbatim>\<open>routes/api/conflicts.mjs\<close>), with the
  triggers a change of state fires (\<^verbatim>\<open>db/triggers.ts\<close>). The state is the tables of one
  workspace. Whether an upsert is saved is an argument; a paged read that succeeds returns every
  row it matches. \<open>gen\<close> is the id the database gives a new conflict row. The batch runs its
  effects eight at a time; they touch different rows, and the model runs them in order.
\<close>

section \<open>The tables\<close>

record stored_claim =
  kc_entity :: string
  kc_property :: string
  kc_value :: jsval
  kc_distribution :: "(jsval \<times> rat) list option"
  kc_confidence :: rat
  kc_class :: epistemic_class
  kc_freshness :: freshness
  kc_decays_at :: "string option"
  kc_support :: "string list"
  kc_count :: nat
  kc_last :: "string option"
  kc_computed_at :: int
  kc_valid_from :: "int option"
  kc_invalid_at :: "int option"

record outbound_event =
  ou_subscription :: string
  ou_entity :: string
  ou_type :: string
  ou_external :: string
  ou_source :: string
  ou_at :: string

record claims_db =
  cb_obs :: "observation list"
  cb_claims :: "stored_claim list"
  cb_conflicts :: conflict_table
  cb_authority :: "authority_row list"
  cb_subscriptions :: "string list"
  cb_outbox :: "outbound_event list"

definition kc_key :: "stored_claim \<Rightarrow> string \<times> string" where
  "kc_key c = (kc_entity c, kc_property c)"

definition stored_at :: "stored_claim list \<Rightarrow> string \<times> string \<Rightarrow> stored_claim option" where
  "stored_at t k = List.find (\<lambda>c. kc_key c = k) t"

definition live_claim_at :: "stored_claim list \<Rightarrow> string \<times> string \<Rightarrow> stored_claim option" where
  "live_claim_at t k = (case stored_at t k of None \<Rightarrow> None | Some c \<Rightarrow> if kc_invalid_at c = None then Some c else None)"

definition upsert_claim :: "string \<times> string \<Rightarrow> (stored_claim \<Rightarrow> stored_claim) \<Rightarrow> stored_claim \<Rightarrow> stored_claim list \<Rightarrow> stored_claim list" where
  "upsert_claim k f new t =
     (if k \<in> set (map kc_key t) then map (\<lambda>c. if kc_key c = k then f c else c) t else t @ [new])"

text \<open>The columns a derivation writes. On a new row the rest have their defaults; on an old one they stay.\<close>

definition write_derived :: "int \<Rightarrow> derived_claim \<Rightarrow> stored_claim \<Rightarrow> stored_claim" where
  "write_derived now d c = c\<lparr>kc_value := dc_value d, kc_distribution := Some (dc_distribution d), kc_confidence := dc_confidence d,
     kc_class := dc_class d, kc_freshness := dc_freshness d, kc_decays_at := Some (dc_decays_at d), kc_support := dc_support d,
     kc_count := dc_count d, kc_last := Some (dc_last d), kc_computed_at := now\<rparr>"

definition blank_claim :: "string \<times> string \<Rightarrow> stored_claim" where
  "blank_claim k = \<lparr>kc_entity = fst k, kc_property = snd k, kc_value = JNull, kc_distribution = None, kc_confidence = 0,
     kc_class = Observed, kc_freshness = Fresh, kc_decays_at = None, kc_support = [], kc_count = 0, kc_last = None,
     kc_computed_at = 0, kc_valid_from = None, kc_invalid_at = None\<rparr>"

definition save_derived :: "int \<Rightarrow> string \<times> string \<Rightarrow> derived_claim \<Rightarrow> stored_claim list \<Rightarrow> stored_claim list" where
  "save_derived now k d t = upsert_claim k (write_derived now d) (write_derived now d (blank_claim k)) t"

section \<open>Triggers of a change\<close>

definition linkedinState :: "jsval \<Rightarrow> string option" where
  "linkedinState channels = js_str (js_prop (js_prop channels ''linkedin'') ''state'')"

definition detectClaimTransitions :: "string \<Rightarrow> jsval \<Rightarrow> jsval \<Rightarrow> string \<Rightarrow> (string \<times> string) list" where
  "detectClaimTransitions property before after' entity =
     (if property = ''channels'' \<and> linkedinState before \<noteq> Some ''connected'' \<and> linkedinState after' = Some ''connected''
      then [(''interaction.linkedin_connection_accepted'', ''li-accept:'' @ entity)] else [])"

definition enqueueOutboundEvent :: "string list \<Rightarrow> outbound_event \<Rightarrow> outbound_event list \<Rightarrow> outbound_event list" where
  "enqueueOutboundEvent subscriptions ev outbox =
     foldl (\<lambda>box s. if list_ex (\<lambda>x. ou_subscription x = s \<and> ou_external x = ou_external ev) box then box
                    else box @ [ev\<lparr>ou_subscription := s\<rparr>]) outbox subscriptions"

definition fireClaimTransitionTriggers ::
  "string \<times> string \<Rightarrow> jsval \<Rightarrow> jsval \<Rightarrow> string \<Rightarrow> string \<Rightarrow> claims_db \<Rightarrow> claims_db" where
  "fireClaimTransitionTriggers k before after' source at' db =
     db\<lparr>cb_outbox := foldl (\<lambda>box (ty, ext). enqueueOutboundEvent (cb_subscriptions db) \<lparr>ou_subscription = [], ou_entity = fst k,
            ou_type = ty, ou_external = ext, ou_source = source, ou_at = at'\<rparr> box)
       (cb_outbox db) (detectClaimTransitions (snd k) before after' (fst k))\<rparr>"


section \<open>One claim\<close>

datatype engine_error = UpsertFailed | LoadFailed

definition derive_with_candidates ::
  "int \<Rightarrow> authority_map \<Rightarrow> string \<Rightarrow> observation list \<Rightarrow> (derived_claim \<times> authority_candidate list option) option" where
  "derive_with_candidates now authority property observations =
     (if isAuthorityAxis property
      then map_option (\<lambda>(d, cands). (d, if isConflictAxis property then Some cands else None))
             (deriveAuthoritativeClaim now observations authority None)
      else map_option (\<lambda>d. (d, None)) (deriveClaim now observations))"

definition source_of :: "observation list \<Rightarrow> derived_claim \<Rightarrow> string" where
  "source_of observations d =
     (case dc_support d of [] \<Rightarrow> ''system''
      | i # _ \<Rightarrow> (case List.find (\<lambda>o'. on_id o' = i) observations of None \<Rightarrow> ''system'' | Some o' \<Rightarrow> on_source o'))"

definition detect_on :: "int \<Rightarrow> (conflict_table \<Rightarrow> string) \<Rightarrow> string \<times> string \<Rightarrow> authority_candidate list option \<Rightarrow> claims_db \<Rightarrow> claims_db" where
  "detect_on now gen k cands db = (case cands of None \<Rightarrow> db
     | Some cs \<Rightarrow> db\<lparr>cb_conflicts := snd (detectFieldConflict now (gen (cb_conflicts db)) None k cs (cb_conflicts db))\<rparr>)"

definition recomputeClaim ::
  "int \<Rightarrow> string \<Rightarrow> (conflict_table \<Rightarrow> string) \<Rightarrow> bool \<Rightarrow> string \<times> string \<Rightarrow> claims_db \<Rightarrow> engine_error + claims_db" where
  "recomputeClaim now ws gen saved k db =
     (let existing = live_claim_at (cb_claims db) k;
          before = (case existing of None \<Rightarrow> JUndef | Some c \<Rightarrow> kc_value c)
      in if map_option kc_class existing = Some Asserted then Inr db
         else
          (let observations = getObservations (cb_obs db) (fst k) (Some (snd k)) None None None;
               authority = (if isAuthorityAxis (snd k) then loadAuthority (cb_authority db) ws (snd k) else [])
           in case derive_with_candidates now authority (snd k) observations of
                None \<Rightarrow> Inr db
              | Some (d, cands) \<Rightarrow>
                  if \<not> saved then Inl UpsertFailed
                  else Inr (detect_on now gen k cands
                    (fireClaimTransitionTriggers k before (dc_value d) (source_of observations d) (dc_last d)
                      (db\<lparr>cb_claims := save_derived now k d (cb_claims db)\<rparr>)))))"

section \<open>A batch\<close>

definition OBSERVATIONS_PER_TARGET :: nat where
  "OBSERVATIONS_PER_TARGET = 200"

definition text_key :: "string \<times> string \<Rightarrow> string" where
  "text_key k = fst k @ ''|'' @ snd k"

record planned_claim =
  pn_target :: "string \<times> string"
  pn_derived :: derived_claim
  pn_before :: jsval
  pn_candidates :: "authority_candidate list option"

definition plan_one ::
  "int \<Rightarrow> (string \<times> stored_claim) list \<Rightarrow> (string \<times> observation list) list \<Rightarrow> (string \<Rightarrow> authority_map option)
    \<Rightarrow> string \<times> string \<Rightarrow> planned_claim option" where
  "plan_one now existing observations authorityByProperty target =
     (let current = jm_get existing (text_key target)
      in if map_option kc_class current = Some Asserted then None
         else
          (let obs = take OBSERVATIONS_PER_TARGET (js_sort (desc_by obs_ms)
                 (case jm_get observations (text_key target) of None \<Rightarrow> [] | Some g \<Rightarrow> g));
               authority = (case authorityByProperty (snd target) of None \<Rightarrow> [] | Some m \<Rightarrow> m)
           in map_option (\<lambda>(d, cands). \<lparr>pn_target = target, pn_derived = d,
                  pn_before = (case current of None \<Rightarrow> JUndef | Some c \<Rightarrow> kc_value c), pn_candidates = cands\<rparr>)
                (derive_with_candidates now authority (snd target) obs)))"

definition planClaimRecomputes ::
  "int \<Rightarrow> (string \<times> string) list \<Rightarrow> (string \<times> stored_claim) list \<Rightarrow> (string \<times> observation list) list
    \<Rightarrow> (string \<Rightarrow> authority_map option) \<Rightarrow> planned_claim list" where
  "planClaimRecomputes now targets existing observations authorityByProperty =
     List.map_filter (plan_one now existing observations authorityByProperty) targets"

definition read_existing :: "(string \<times> string) list \<Rightarrow> stored_claim list \<Rightarrow> (string \<times> stored_claim) list" where
  "read_existing targets t = foldl (\<lambda>m c. jm_set m (text_key (kc_key c)) c) []
     (filter (\<lambda>c. kc_entity c \<in> set (map fst targets) \<and> kc_property c \<in> set (map snd targets) \<and> kc_invalid_at c = None) t)"

definition obs_key :: "observation \<Rightarrow> string" where
  "obs_key o' = text_key (on_entity o', str_of (on_property o'))"

definition read_observations :: "(string \<times> string) list \<Rightarrow> observation list \<Rightarrow> (string \<times> observation list) list" where
  "read_observations targets table =
     js_group_by obs_key (filter (\<lambda>o'. obs_key o' \<in> set (map text_key targets))
       (js_sort (asc_by on_id) (filter (\<lambda>o'. on_entity o' \<in> set (map fst targets)
          \<and> on_property o' \<in> set (map (\<lambda>t. Some (snd t)) targets)) table)))"

definition save_plans :: "int \<Rightarrow> planned_claim list \<Rightarrow> stored_claim list \<Rightarrow> stored_claim list" where
  "save_plans now planned t = foldl (\<lambda>b p. save_derived now (pn_target p) (pn_derived p) b) t planned"

definition open_conflicts :: "bool \<Rightarrow> planned_claim list \<Rightarrow> conflict_table \<Rightarrow> (string \<times> string) list" where
  "open_conflicts lookup_ok planned t =
     (let watched = map pn_target (filter (\<lambda>p. pn_candidates p \<noteq> None) planned)
      in if \<not> lookup_ok then watched
         else map cf_key (filter (\<lambda>r. cf_entity r \<in> set (map fst watched) \<and> cf_property r \<in> set (map snd watched)
                \<and> cf_status r = OpenConflict) t))"

definition needs_detection :: "(string \<times> string) list \<Rightarrow> planned_claim \<Rightarrow> bool" where
  "needs_detection opened p = (case pn_candidates p of None \<Rightarrow> False
     | Some cs \<Rightarrow> isFieldConflict cs \<or> text_key (pn_target p) \<in> set (map text_key opened))"

definition plan_effect ::
  "int \<Rightarrow> (conflict_table \<Rightarrow> string) \<Rightarrow> (string \<times> observation list) list \<Rightarrow> (string \<times> string) list \<Rightarrow> claims_db \<Rightarrow> planned_claim \<Rightarrow> claims_db" where
  "plan_effect now gen observations opened db p =
     (let group = (case jm_get observations (text_key (pn_target p)) of None \<Rightarrow> [] | Some g \<Rightarrow> g);
          db1 = (if pn_before p \<noteq> dc_value (pn_derived p)
                 then fireClaimTransitionTriggers (pn_target p) (pn_before p) (dc_value (pn_derived p))
                        (source_of group (pn_derived p)) (dc_last (pn_derived p)) db
                 else db)
      in if needs_detection opened p then detect_on now gen (pn_target p) (pn_candidates p) db1 else db1)"

definition recomputeClaims ::
  "int \<Rightarrow> string \<Rightarrow> (conflict_table \<Rightarrow> string) \<Rightarrow> bool \<Rightarrow> bool \<Rightarrow> bool \<Rightarrow> (string \<times> string) list \<Rightarrow> claims_db
    \<Rightarrow> engine_error + nat \<times> claims_db" where
  "recomputeClaims now ws gen loaded saved lookup_ok targets db =
     (if targets = [] then Inr (0, db)
      else if \<not> loaded then Inl LoadFailed
      else
       (let existing = read_existing targets (cb_claims db);
            observations = read_observations targets (cb_obs db);
            axes = filter isAuthorityAxis (js_uniq (map snd targets));
            authority = (\<lambda>p. if p \<in> set axes then Some (loadAuthority (cb_authority db) ws p) else None);
            planned = planClaimRecomputes now targets existing observations authority
        in if planned = [] then Inr (0, db)
           else if \<not> saved \<or> \<not> distinct (map pn_target planned) then Inl UpsertFailed
           else
            (let db1 = db\<lparr>cb_claims := save_plans now planned (cb_claims db)\<rparr>;
                 opened = open_conflicts lookup_ok planned (cb_conflicts db1);
                 effects = filter (\<lambda>p. pn_before p \<noteq> dc_value (pn_derived p) \<or> needs_detection opened p) planned
             in Inr (length planned, foldl (plan_effect now gen observations opened) db1 effects))))"

section \<open>Keys and reads\<close>















section \<open>The batch is the single recompute, repeated\<close>

definition one_by_one ::
  "int \<Rightarrow> string \<Rightarrow> (conflict_table \<Rightarrow> string) \<Rightarrow> (string \<times> string) list \<Rightarrow> engine_error + claims_db \<Rightarrow> engine_error + claims_db" where
  "one_by_one now ws gen targets r =
     foldl (\<lambda>r k. case r of Inl e \<Rightarrow> Inl e | Inr b \<Rightarrow> recomputeClaim now ws gen True k b) r targets"

definition full_effect ::
  "int \<Rightarrow> (conflict_table \<Rightarrow> string) \<Rightarrow> (string \<times> observation list) list \<Rightarrow> claims_db \<Rightarrow> planned_claim \<Rightarrow> claims_db" where
  "full_effect now gen observations b p =
     (let group = (case jm_get observations (text_key (pn_target p)) of None \<Rightarrow> [] | Some g \<Rightarrow> g)
      in detect_on now gen (pn_target p) (pn_candidates p)
           (fireClaimTransitionTriggers (pn_target p) (pn_before p) (dc_value (pn_derived p))
             (source_of group (pn_derived p)) (dc_last (pn_derived p)) b))"

abbreviation "saving now b p \<equiv> b\<lparr>cb_claims := save_derived now (pn_target p) (pn_derived p) (cb_claims b)\<rparr>"

lemma fire_fields [simp]:
  "cb_obs (fireClaimTransitionTriggers k x y s a b) = cb_obs b" "cb_claims (fireClaimTransitionTriggers k x y s a b) = cb_claims b"
  "cb_conflicts (fireClaimTransitionTriggers k x y s a b) = cb_conflicts b"
  "cb_authority (fireClaimTransitionTriggers k x y s a b) = cb_authority b"
  by (simp_all add: fireClaimTransitionTriggers_def)

lemma full_effect_fields [simp]:
  "cb_obs (full_effect now gen ob b p) = cb_obs b" "cb_claims (full_effect now gen ob b p) = cb_claims b"
  "cb_authority (full_effect now gen ob b p) = cb_authority b"
  by (simp_all add: full_effect_def Let_def detect_on_def split: option.split)




lemma write_derived_key [simp]: "kc_key (write_derived now d c) = kc_key c" "kc_key (blank_claim k) = k"
  by (simp_all add: write_derived_def kc_key_def blank_claim_def)





abbreviation "obmap targets db \<equiv> read_observations targets (cb_obs db)"

abbreviation "plan_of now ws targets db \<equiv> plan_one now (read_existing targets (cb_claims db)) (obmap targets db)
  (\<lambda>p. if p \<in> set (filter isAuthorityAxis (js_uniq (map snd targets))) then Some (loadAuthority (cb_authority db) ws p) else None)"










definition demo_gen :: "conflict_table \<Rightarrow> string" where
  "demo_gen t = CHR ''c'' # concat (map cf_id t)"


definition demo_claims_db :: claims_db where
  "demo_claims_db = \<lparr>cb_obs = demo_log, cb_claims = [], cb_conflicts = [],
     cb_authority = [\<lparr>ar_workspace = None, ar_property = ''lifecycle'', ar_source = ''stripe'', ar_authority = 19 / 20, ar_event_truth = True\<rparr>,
       \<lparr>ar_workspace = None, ar_property = ''lifecycle'', ar_source = ''salesforce'', ar_authority = 3 / 5, ar_event_truth = False\<rparr>],
     cb_subscriptions = [], cb_outbox = []\<rparr>"


text \<open>Within one millisecond the two paths can disagree: the live read takes what the database returns first, the batch what has the
  smaller id.\<close>

lemma batch_differs_on_ties:
  "let o1 = (demo_obs_of ''b'' ''left'' ''crm'' ''2026-06-01T00:00:00.000400Z'')\<lparr>on_property := Some ''city''\<rparr>;
       o2 = (demo_obs_of ''a'' ''right'' ''crm'' ''2026-06-01T00:00:00.000300Z'')\<lparr>on_property := Some ''city''\<rparr>;
       db = demo_claims_db\<lparr>cb_obs := [o1, o2]\<rparr>; k = (''e'', ''city'')
   in map_sum id (\<lambda>b. map kc_value (cb_claims b)) (one_by_one demo_now ''w'' demo_gen [k] (Inr db)) = Inr [JStr ''left'']
    \<and> map_sum id (\<lambda>(n, b). map kc_value (cb_claims b)) (recomputeClaims demo_now ''w'' demo_gen True True True [k] db) = Inr [JStr ''right'']"
  by code_simp

section \<open>Assertions\<close>





section \<open>What the engine may change\<close>








lemma find_map_key:
  "List.find (\<lambda>c. kc_key c = k) t = Some c \<Longrightarrow> (\<And>c. kc_key (f c) = kc_key c) \<Longrightarrow>
   List.find (\<lambda>c. kc_key c = k) (map (\<lambda>c. if kc_key c = k then f c else c) t) = Some (f c)"
  by (induction t) (auto split: if_splits)

text \<open>A retracted claim is written to but never comes back: the upsert leaves its retraction in place, and the reads skip it.\<close>

lemma retracted_stays_retracted:
  assumes c: "stored_at (cb_claims db) k = Some c" "kc_invalid_at c = Some t0"
    and r: "recomputeClaim now ws gen saved k db = Inr db'"
  shows "live_claim_at (cb_claims db') k = None"
proof (cases "db' = db")
  case True
  with c show ?thesis by (simp add: live_claim_at_def)
next
  case False
  then obtain x where "cb_claims db' = save_derived now k x (cb_claims db)"
    using r by (auto simp: recomputeClaim_def Let_def detect_on_def split: if_splits option.splits)
  moreover have "List.find (\<lambda>c. kc_key c = k) (map (\<lambda>c. if kc_key c = k then write_derived now x c else c) (cb_claims db))
      = Some (write_derived now x c)"
    using c(1) unfolding stored_at_def by (rule find_map_key) simp
  moreover have "k \<in> kc_key ` set (cb_claims db)" using find_Some_D [OF c(1) [unfolded stored_at_def]] by auto
  ultimately show ?thesis using c(2) by (simp add: live_claim_at_def save_derived_def upsert_claim_def stored_at_def write_derived_def)
qed






end
