(* ===== verification/ClaimQueue.thy ===== *)
theory ClaimQueue
  imports JsArrays
begin

text \<open>
  Settling the queue of claim jobs, \<^verbatim>\<open>packages/core/src/services/settleClaimQueue.ts\<close>, and
  the sweeps of the engine that drains it, \<^verbatim>\<open>apps/worker/src/workers/claimEngine.mjs\<close>. The queue is
  the table of one workspace's jobs; the recompute of a batch (theory \<open>ClaimEngine\<close>), the success of each
  delete and what other processes enqueue meanwhile are arguments, indexed by the call. An entity
  id is a uuid, so the text key of a target is the pair. Text is ordered as lists of characters.
\<close>

section \<open>Jobs\<close>

type_synonym target = "string \<times> string"

record job =
  jb_id :: nat
  jb_entity :: string
  jb_property :: string
  jb_picked :: bool
  jb_enqueued :: int

definition job_key :: "job \<Rightarrow> target" where
  "job_key j = (jb_entity j, jb_property j)"

definition SCORE_AFFECTING :: "string list" where
  "SCORE_AFFECTING = [''job_title'', ''seniority'', ''department'', ''industry'', ''employee_count'', ''size_band'',
     ''funding_stage'', ''country'', ''company_type'', ''what_they_do'', ''pipeline_stage'']"

definition isScoreAffectingProperty :: "string \<Rightarrow> bool" where
  "isScoreAffectingProperty p = (p \<in> set SCORE_AFFECTING \<or> starts_with ''signal.'' p \<or> starts_with ''exclusion.'' p)"

definition LIST_ROW_PROPERTIES :: "string list" where
  "LIST_ROW_PROPERTIES = [''name'', ''first_name'', ''last_name'', ''job_title'', ''industry'', ''icp_score'', ''deal_health_score'',
     ''pipeline_stage'', ''status'', ''value'', ''stage'', ''close_date'', ''owner_name'', ''owner_email'', ''pipeline'',
     ''pipeline_id'', ''is_internal'', ''location'']"

definition isListRowProperty :: "string \<Rightarrow> bool" where
  "isListRowProperty p = (p \<in> set LIST_ROW_PROPERTIES \<or> starts_with ''cs.'' p)"

definition claimNeedsEngineFollowUp :: "string \<Rightarrow> bool" where
  "claimNeedsEngineFollowUp p = (isScoreAffectingProperty p \<or> p = ''pipeline_stage'')"

definition REPORT_CRITICAL_PROPERTIES :: "string list" where
  "REPORT_CRITICAL_PROPERTIES = [''status'', ''stage'', ''stage_id'', ''pipeline'', ''pipeline_id'', ''value'', ''currency'',
     ''close_date'', ''opened_date'', ''lost_reason_stated'', ''lost_reason_note'', ''won_reason_stated'', ''owner_email'',
     ''owner_name'', ''name'', ''first_name'', ''last_name'', ''job_title'', ''company'', ''lifecycle_stage'',
     ''pipeline_stage'', ''domain'', ''industry'']"

definition JOBS_PER_READ :: nat where "JOBS_PER_READ = 1000"

section \<open>Reading a page\<close>

definition key_less :: "target \<Rightarrow> target \<Rightarrow> bool" where
  "key_less a b = (fst a < fst b \<or> fst a = fst b \<and> snd a < snd b)"

definition job_le :: "job \<Rightarrow> job \<Rightarrow> bool" where
  "job_le a b = (key_less (job_key a) (job_key b) \<or> job_key a = job_key b)"

interpretation by_target: js_comparator job_le
  by unfold_locales (auto simp: job_le_def key_less_def prod_eq_iff)

definition eligible :: "int \<Rightarrow> bool \<Rightarrow> job \<Rightarrow> bool" where
  "eligible start critical j =
     (\<not> jb_picked j \<and> jb_enqueued j < start \<and> (jb_property j \<in> set REPORT_CRITICAL_PROPERTIES) = critical)"

definition beyond :: "target option \<Rightarrow> job \<Rightarrow> bool" where
  "beyond cursor j = (case cursor of None \<Rightarrow> True | Some k \<Rightarrow> key_less k (job_key j))"

definition read_page :: "int \<Rightarrow> bool \<Rightarrow> target option \<Rightarrow> job list \<Rightarrow> job list" where
  "read_page start critical cursor jobs =
     take JOBS_PER_READ (js_sort job_le (filter (\<lambda>j. eligible start critical j \<and> beyond cursor j) jobs))"

text \<open>The copies of the last target may go on behind the page: it is left to the next read unless it is the only one.\<close>

definition usable_rows :: "job list \<Rightarrow> job list" where
  "usable_rows rows =
     (let usable = (if length rows = JOBS_PER_READ then filter (\<lambda>j. job_key j \<noteq> job_key (last rows)) rows else rows)
      in if usable \<noteq> [] then usable else rows)"

section \<open>Settling\<close>

record settle_state =
  ss_jobs :: "job list"
  ss_calls :: nat
  ss_reads :: nat
  ss_settled :: nat
  ss_written :: nat
  ss_failed :: nat
  ss_cleared :: nat
  ss_done :: "target list"
    \<comment> \<open>a ghost: the targets whose recompute succeeded\<close>

record settle_env =
  se_run :: "nat \<Rightarrow> target list \<Rightarrow> nat option"
    \<comment> \<open>how many claims the recompute of a batch wrote; \<open>None\<close> when it threw\<close>
  se_arrive :: "nat \<Rightarrow> job list"
  se_delete :: "nat \<Rightarrow> nat \<Rightarrow> bool"
  se_read :: "nat \<Rightarrow> bool"
  se_count :: bool

definition done_ids :: "(target \<times> job list) list \<Rightarrow> nat list" where
  "done_ids batch = concat (map (\<lambda>(k, js). map jb_id js) (filter (\<lambda>(k, js). \<not> claimNeedsEngineFollowUp (snd k)) batch))"

text \<open>The ids really deleted: each slice of five hundred goes or stays as a whole.\<close>

definition deleted_ids :: "settle_env \<Rightarrow> nat \<Rightarrow> (target \<times> job list) list \<Rightarrow> nat list" where
  "deleted_ids env i batch = concat (map snd (filter (\<lambda>(j, ids). se_delete env i j) (enumerate 0 (chunks 499 (done_ids batch)))))"

definition settle_batch :: "settle_env \<Rightarrow> settle_state \<Rightarrow> (target \<times> job list) list \<Rightarrow> settle_state" where
  "settle_batch env st batch =
     (let i = ss_calls st; jobs = ss_jobs st @ se_arrive env i in
      case se_run env i (map fst batch) of
        None \<Rightarrow> st\<lparr>ss_jobs := jobs, ss_calls := Suc i, ss_failed := ss_failed st + length batch\<rparr>
      | Some w \<Rightarrow>
          (let deleted = deleted_ids env i batch
           in st\<lparr>ss_jobs := filter (\<lambda>x. jb_id x \<notin> set deleted) jobs, ss_calls := Suc i, ss_settled := ss_settled st + length batch,
                 ss_written := ss_written st + w, ss_cleared := ss_cleared st + length deleted,
                 ss_done := ss_done st @ map fst batch\<rparr>))"

definition settle_page :: "settle_env \<Rightarrow> job list \<Rightarrow> settle_state \<Rightarrow> settle_state" where
  "settle_page env rows st = foldl (settle_batch env) st (chunks 299 (js_group_by job_key rows))"

datatype settle_error = QueueUnreadable | OutOfFuel

fun settle_phase :: "nat \<Rightarrow> settle_env \<Rightarrow> int \<Rightarrow> bool \<Rightarrow> target option \<Rightarrow> settle_state \<Rightarrow> settle_error + settle_state" where
  "settle_phase 0 env start critical cursor st = Inl OutOfFuel"
| "settle_phase (Suc n) env start critical cursor st =
     (if \<not> se_read env (ss_reads st) then Inl QueueUnreadable
      else
       (let rows = read_page start critical cursor (ss_jobs st); st1 = st\<lparr>ss_reads := Suc (ss_reads st)\<rparr>
        in if rows = [] then Inr st1
           else
            (let use = usable_rows rows; st2 = settle_page env use st1
             in if length rows \<noteq> JOBS_PER_READ then Inr st2
                else settle_phase n env start critical (Some (job_key (last use))) st2)))"

record settle_result =
  sr_settled :: nat
  sr_written :: nat
  sr_failed :: nat
  sr_cleared :: nat
  sr_pending :: nat

definition pending_jobs :: "int \<Rightarrow> job list \<Rightarrow> job list" where
  "pending_jobs start jobs = filter (\<lambda>j. \<not> jb_picked j \<and> jb_enqueued j < start \<and> jb_property j \<notin> set SCORE_AFFECTING
     \<and> \<not> starts_with ''signal.'' (jb_property j) \<and> \<not> starts_with ''exclusion.'' (jb_property j)) jobs"

definition settleClaimQueue :: "settle_env \<Rightarrow> int \<Rightarrow> job list \<Rightarrow> settle_error + settle_result \<times> settle_state" where
  "settleClaimQueue env start jobs =
     (let fuel = Suc (length jobs);
          st0 = \<lparr>ss_jobs = jobs, ss_calls = 0, ss_reads = 0, ss_settled = 0, ss_written = 0, ss_failed = 0, ss_cleared = 0, ss_done = []\<rparr>
      in case settle_phase fuel env start True None st0 of
           Inl e \<Rightarrow> Inl e
         | Inr st1 \<Rightarrow> (case settle_phase fuel env start False None st1 of
             Inl e \<Rightarrow> Inl e
           | Inr st2 \<Rightarrow>
               Inr (\<lparr>sr_settled = ss_settled st2, sr_written = ss_written st2, sr_failed = ss_failed st2, sr_cleared = ss_cleared st2,
                      sr_pending = (if se_count env then length (pending_jobs start (ss_jobs st2)) else 0)\<rparr>, st2)))"

section \<open>Pages\<close>

lemma key_less_irrefl [simp]: "\<not> key_less k k"
  by (simp add: key_less_def)

lemma key_less_trans: "key_less a b \<Longrightarrow> key_less b c \<Longrightarrow> key_less a c"
  by (auto simp: key_less_def)

lemma key_less_total: "key_less a b \<or> a = b \<or> key_less b a"
  by (auto simp: key_less_def prod_eq_iff)

lemma job_le_iff: "job_le a b \<longleftrightarrow> \<not> key_less (job_key b) (job_key a)"
  using key_less_total [of "job_key a" "job_key b"] key_less_trans key_less_irrefl by (metis job_le_def)

lemma usable_rows_subset: "set (usable_rows rows) \<subseteq> set rows"
  by (auto simp: usable_rows_def Let_def)

lemma usable_rows_nonempty: "rows \<noteq> [] \<Longrightarrow> usable_rows rows \<noteq> []"
  by (simp add: usable_rows_def Let_def)

lemma read_page_rows:
  "x \<in> set (read_page start critical cursor jobs) \<Longrightarrow> x \<in> set jobs \<and> eligible start critical x \<and> beyond cursor x"
  by (auto simp: read_page_def dest: in_set_takeD)

lemma read_page_sorted: "sorted_wrt job_le (read_page start critical cursor jobs)"
  unfolding read_page_def using by_target.sort_sorted by (rule sorted_wrt_take)

lemma usable_rows_sorted: "sorted_wrt job_le rows \<Longrightarrow> sorted_wrt job_le (usable_rows rows)"
  by (simp add: usable_rows_def Let_def sorted_wrt_filter)

lemma last_usable_greatest:
  assumes "sorted_wrt job_le rows" and "x \<in> set (usable_rows rows)"
  shows "\<not> key_less (job_key (last (usable_rows rows))) (job_key x)"
proof -
  obtain ys z where yz: "usable_rows rows = ys @ [z]" using assms(2) by (metis empty_iff list.set(1) rev_exhaust)
  then have "sorted_wrt job_le (ys @ [z])" using usable_rows_sorted [OF assms(1)] by simp
  then have "job_le x z" using assms(2) yz by (auto simp: sorted_wrt_append job_le_def)
  then show ?thesis using yz by (simp add: job_le_iff)
qed

text \<open>A short page is everything that was left; a full one holds every job up to the last target it keeps, as long as it
  holds two targets.\<close>

lemma short_page:
  assumes "length (read_page start critical cursor jobs) \<noteq> JOBS_PER_READ"
  shows "set (usable_rows (read_page start critical cursor jobs)) = {x \<in> set jobs. eligible start critical x \<and> beyond cursor x}"
proof -
  let ?F = "filter (\<lambda>j. eligible start critical j \<and> beyond cursor j) jobs"
  have "length ?F \<le> JOBS_PER_READ" using assms by (cases "length ?F \<le> JOBS_PER_READ") (simp_all add: read_page_def)
  then have "read_page start critical cursor jobs = js_sort job_le ?F" by (simp add: read_page_def)
  with assms show ?thesis by (auto simp: usable_rows_def Let_def)
qed

lemma full_page:
  assumes full: "length (read_page start critical cursor jobs) = JOBS_PER_READ"
    and two: "\<exists>x \<in> set (read_page start critical cursor jobs). job_key x \<noteq> job_key (last (read_page start critical cursor jobs))"
    and x: "x \<in> set jobs" "eligible start critical x" "beyond cursor x"
    and le: "\<not> key_less (job_key (last (usable_rows (read_page start critical cursor jobs)))) (job_key x)"
  shows "x \<in> set (usable_rows (read_page start critical cursor jobs))"
proof -
  let ?rows = "read_page start critical cursor jobs"
  let ?S = "js_sort job_le (filter (\<lambda>j. eligible start critical j \<and> beyond cursor j) jobs)"
  have ne: "?rows \<noteq> []" using two by auto
  have use: "usable_rows ?rows = filter (\<lambda>j. job_key j \<noteq> job_key (last ?rows)) ?rows"
    using full two by (auto simp: usable_rows_def Let_def filter_empty_conv)
  have "usable_rows ?rows \<noteq> []" using ne by (rule usable_rows_nonempty)
  then have u: "last (usable_rows ?rows) \<in> set ?rows" "job_key (last (usable_rows ?rows)) \<noteq> job_key (last ?rows)"
    using last_in_set [of "usable_rows ?rows"] use by auto
  have less: "key_less (job_key (last (usable_rows ?rows))) (job_key (last ?rows))"
  proof -
    obtain ys z where yz: "?rows = ys @ [z]" using ne by (metis rev_exhaust)
    then have "job_le (last (usable_rows ?rows)) z"
      using u(1) read_page_sorted [of start critical cursor jobs] by (auto simp: sorted_wrt_append job_le_def)
    with u(2) yz show ?thesis by (auto simp: job_le_def)
  qed
  define S where "S = ?S"
  have sx: "x \<in> set S" and srt: "sorted_wrt job_le S" using x by_target.sort_sorted by (simp_all add: S_def)
  have rows: "?rows = take JOBS_PER_READ S" by (simp add: read_page_def S_def)
  have "x \<in> set ?rows"
  proof (rule ccontr)
    assume no: "x \<notin> set ?rows"
    have "set S = set ?rows \<union> set (drop JOBS_PER_READ S)" unfolding rows by (metis append_take_drop_id set_append)
    with sx no have "x \<in> set (drop JOBS_PER_READ S)" by blast
    moreover have "sorted_wrt job_le (?rows @ drop JOBS_PER_READ S)" unfolding rows using srt by simp
    ultimately have "job_le (last ?rows) x" using ne by (simp add: sorted_wrt_append)
    then have "\<not> key_less (job_key x) (job_key (last ?rows))" by (simp add: job_le_iff)
    with less le key_less_trans key_less_total show False by metis
  qed
  moreover have "job_key x \<noteq> job_key (last ?rows)" using less le by auto
  ultimately show ?thesis unfolding use by simp
qed

section \<open>What a run removes\<close>

text \<open>Every job a run deletes has the id of a job whose target it had just recomputed, and that needs nothing more of the engine.\<close>

definition removed_by :: "target list \<Rightarrow> (target \<times> job list) list \<Rightarrow> job \<Rightarrow> bool" where
  "removed_by done' gs x = (\<exists>(k, js) \<in> set gs. k \<in> set done' \<and> \<not> claimNeedsEngineFollowUp (snd k) \<and> (\<exists>j \<in> set js. jb_id j = jb_id x))"

definition arrived :: "settle_env \<Rightarrow> nat \<Rightarrow> job \<Rightarrow> bool" where
  "arrived env n x = (\<exists>i < n. x \<in> set (se_arrive env i))"

definition run_keeps :: "settle_env \<Rightarrow> (target \<times> job list) list \<Rightarrow> settle_state \<Rightarrow> settle_state \<Rightarrow> bool" where
  "run_keeps env gs st st' =
     (ss_calls st \<le> ss_calls st' \<and> set (ss_done st) \<subseteq> set (ss_done st')
      \<and> (\<forall>x \<in> set (ss_jobs st'). x \<in> set (ss_jobs st) \<or> arrived env (ss_calls st') x)
      \<and> (\<forall>x. x \<in> set (ss_jobs st) \<or> (arrived env (ss_calls st') x \<and> \<not> arrived env (ss_calls st) x) \<longrightarrow>
           x \<in> set (ss_jobs st') \<or> removed_by (ss_done st') gs x))"

lemma removed_by_mono: "removed_by d gs x \<Longrightarrow> set d \<subseteq> set d' \<Longrightarrow> set gs \<subseteq> set gs' \<Longrightarrow> removed_by d' gs' x"
  unfolding removed_by_def by blast

lemma arrived_Suc: "arrived env (Suc n) x \<longleftrightarrow> arrived env n x \<or> x \<in> set (se_arrive env n)"
  by (auto simp: arrived_def less_Suc_eq)

lemma kept_chunks_subset: "set (concat (map snd (filter P (enumerate n xss)))) \<subseteq> set (concat xss)"
proof (induction xss arbitrary: n)
  case Nil
  show ?case by simp
next
  case (Cons xs xss)
  show ?case using Cons.IH [of "Suc n"] by auto
qed

lemma deleted_ids_subset: "set (deleted_ids env i batch) \<subseteq> set (done_ids batch)"
  using kept_chunks_subset [of "\<lambda>(j, ids). se_delete env i j" 0 "chunks 499 (done_ids batch)"]
  by (simp only: concat_chunks deleted_ids_def)

lemma deleted_ids_all: "(\<And>j. se_delete env i j) \<Longrightarrow> deleted_ids env i batch = done_ids batch"
  by (simp add: deleted_ids_def case_prod_unfold)

lemma in_done_ids: "n \<in> set (done_ids b) \<longleftrightarrow> (\<exists>k js x. (k, js) \<in> set b \<and> \<not> claimNeedsEngineFollowUp (snd k) \<and> x \<in> set js \<and> jb_id x = n)"
  by (auto simp: done_ids_def)

lemma settle_batch_keeps: "run_keeps env batch st (settle_batch env st batch)"
proof (cases "se_run env (ss_calls st) (map fst batch)")
  case None
  then show ?thesis by (auto simp: settle_batch_def run_keeps_def Let_def arrived_Suc)
next
  case (Some w)
  have rem: "removed_by (ss_done st @ map fst batch) batch x" if "jb_id x \<in> set (deleted_ids env (ss_calls st) batch)" for x
  proof -
    from that obtain k js j where "(k, js) \<in> set batch" "\<not> claimNeedsEngineFollowUp (snd k)" "j \<in> set js" "jb_id j = jb_id x"
      using deleted_ids_subset in_done_ids by (meson subsetD)
    moreover from this(1) have "k \<in> set (map fst batch)" by (simp add: rev_image_eqI)
    ultimately show ?thesis unfolding removed_by_def by (intro bexI [of _ "(k, js)"]) auto
  qed
  with Some show ?thesis by (auto simp: settle_batch_def run_keeps_def Let_def arrived_Suc)
qed

lemma run_keeps_trans:
  assumes "run_keeps env gs st st'" and "run_keeps env hs st' st''"
  shows "run_keeps env (gs @ hs) st st''"
  unfolding run_keeps_def
proof (intro conjI ballI allI impI)
  show "ss_calls st \<le> ss_calls st''" "set (ss_done st) \<subseteq> set (ss_done st'')" using assms by (auto simp: run_keeps_def)
next
  fix x assume x: "x \<in> set (ss_jobs st'')"
  have "arrived env (ss_calls st') x \<Longrightarrow> arrived env (ss_calls st'') x"
    using assms(2) by (auto simp: run_keeps_def arrived_def) (meson less_le_trans)
  with x show "x \<in> set (ss_jobs st) \<or> arrived env (ss_calls st'') x" using assms by (auto simp: run_keeps_def)
next
  fix x assume x: "x \<in> set (ss_jobs st) \<or> (arrived env (ss_calls st'') x \<and> \<not> arrived env (ss_calls st) x)"
  have mono: "removed_by (ss_done st') gs x \<Longrightarrow> removed_by (ss_done st'') (gs @ hs) x"
    "removed_by (ss_done st'') hs x \<Longrightarrow> removed_by (ss_done st'') (gs @ hs) x"
    using assms(2) by (auto simp: run_keeps_def intro: removed_by_mono)
  show "x \<in> set (ss_jobs st'') \<or> removed_by (ss_done st'') (gs @ hs) x"
  proof (cases "x \<in> set (ss_jobs st') \<or> (arrived env (ss_calls st'') x \<and> \<not> arrived env (ss_calls st') x)")
    case True
    then show ?thesis using assms(2) mono(2) by (auto simp: run_keeps_def)
  next
    case False
    with x have "x \<in> set (ss_jobs st) \<or> (arrived env (ss_calls st') x \<and> \<not> arrived env (ss_calls st) x)" by auto
    with False have "removed_by (ss_done st') gs x" using assms(1) by (auto simp: run_keeps_def)
    then show ?thesis using mono(1) by blast
  qed
qed

lemma run_keeps_refl: "run_keeps env [] st st"
  by (auto simp: run_keeps_def)

lemma settle_batches_keep: "run_keeps env (concat bs) st (foldl (settle_batch env) st bs)"
proof (induction bs arbitrary: st)
  case Nil
  show ?case by (simp add: run_keeps_refl)
next
  case (Cons b bs)
  show ?case using run_keeps_trans [OF settle_batch_keeps Cons.IH] by simp
qed

lemma settle_page_keeps: "run_keeps env (js_group_by job_key rows) st (settle_page env rows st)"
  using settle_batches_keep [of env "chunks 299 (js_group_by job_key rows)" st] by (simp add: settle_page_def)

lemma removed_by_page:
  "removed_by d (js_group_by job_key rows) x \<Longrightarrow>
   \<exists>j \<in> set rows. jb_id j = jb_id x \<and> job_key j \<in> set d \<and> \<not> claimNeedsEngineFollowUp (jb_property j)"
  by (auto simp: removed_by_def js_group_by_entry job_key_def)

section \<open>Nothing is lost\<close>

text \<open>What other processes do while it runs: they enqueue new jobs, with ids of their own and stamped when they do.\<close>

definition env_ok :: "settle_env \<Rightarrow> int \<Rightarrow> job list \<Rightarrow> bool" where
  "env_ok env start jobs = (distinct (map jb_id jobs)
     \<and> (\<forall>i. \<forall>x \<in> set (se_arrive env i). start \<le> jb_enqueued x \<and> jb_id x \<notin> jb_id ` set jobs))"

definition run_ok :: "settle_env \<Rightarrow> int \<Rightarrow> job list \<Rightarrow> settle_state \<Rightarrow> bool" where
  "run_ok env start jobs st =
     ((\<forall>x \<in> set (ss_jobs st). x \<in> set jobs \<or> arrived env (ss_calls st) x)
      \<and> (\<forall>x. x \<in> set jobs \<or> arrived env (ss_calls st) x \<longrightarrow> x \<in> set (ss_jobs st)
           \<or> (x \<in> set jobs \<and> \<not> jb_picked x \<and> jb_enqueued x < start \<and> job_key x \<in> set (ss_done st)
              \<and> \<not> claimNeedsEngineFollowUp (jb_property x))))"

lemma page_of_start:
  assumes "env_ok env start jobs" and "run_ok env start jobs st" and "x \<in> set (read_page start critical cursor (ss_jobs st))"
  shows "x \<in> set jobs \<and> eligible start critical x \<and> beyond cursor x"
proof -
  have x: "x \<in> set (ss_jobs st)" "eligible start critical x" "beyond cursor x" using read_page_rows [OF assms(3)] by auto
  have "\<not> arrived env n x" for n using assms(1) x(2) by (force simp: env_ok_def arrived_def eligible_def)
  with x show ?thesis using assms(2) by (auto simp: run_ok_def)
qed

lemma settle_page_ok:
  assumes env: "env_ok env start jobs" and st: "run_ok env start jobs st"
    and rows: "\<And>x. x \<in> set rows \<Longrightarrow> x \<in> set jobs \<and> \<not> jb_picked x \<and> jb_enqueued x < start"
  shows "run_ok env start jobs (settle_page env rows st)"
proof -
  let ?st = "settle_page env rows st"
  note k = settle_page_keeps [of env rows st, unfolded run_keeps_def]
  have same: "j = x" if "j \<in> set jobs" "jb_id j = jb_id x" "x \<in> set jobs" for j x
    using env that by (metis distinct_map env_ok_def inj_onD)
  have gone: "x \<in> set jobs \<and> \<not> jb_picked x \<and> jb_enqueued x < start \<and> job_key x \<in> set (ss_done ?st) \<and> \<not> claimNeedsEngineFollowUp (jb_property x)"
    if r: "removed_by (ss_done ?st) (js_group_by job_key rows) x" and x: "x \<in> set jobs \<or> arrived env n x" for x n
  proof -
    from removed_by_page [OF r] obtain j where j: "j \<in> set rows" "jb_id j = jb_id x" "job_key j \<in> set (ss_done ?st)"
      "\<not> claimNeedsEngineFollowUp (jb_property j)" by auto
    have "jb_id x \<in> jb_id ` set jobs" using rows [OF j(1)] j(2) by (metis imageI)
    then have "\<not> arrived env n x" using env by (auto simp: env_ok_def arrived_def)
    with x rows [OF j(1)] j same [of j x] show ?thesis by auto
  qed
  show ?thesis unfolding run_ok_def
  proof (intro conjI ballI allI impI)
    fix x assume "x \<in> set (ss_jobs ?st)"
    then have "x \<in> set (ss_jobs st) \<or> arrived env (ss_calls ?st) x" using k by blast
    moreover have "arrived env (ss_calls st) x \<Longrightarrow> arrived env (ss_calls ?st) x" using k unfolding arrived_def by (meson less_le_trans)
    ultimately show "x \<in> set jobs \<or> arrived env (ss_calls ?st) x" using st by (auto simp: run_ok_def)
  next
    fix x assume x: "x \<in> set jobs \<or> arrived env (ss_calls ?st) x"
    show "x \<in> set (ss_jobs ?st) \<or> (x \<in> set jobs \<and> \<not> jb_picked x \<and> jb_enqueued x < start \<and> job_key x \<in> set (ss_done ?st)
        \<and> \<not> claimNeedsEngineFollowUp (jb_property x))"
    proof (cases "x \<in> set (ss_jobs st) \<or> (arrived env (ss_calls ?st) x \<and> \<not> arrived env (ss_calls st) x)")
      case True
      then show ?thesis using k gone [of x] x by blast
    next
      case False
      with x have "x \<in> set jobs \<or> arrived env (ss_calls st) x" by blast
      with False st k show ?thesis unfolding run_ok_def by blast
    qed
  qed
qed

lemma run_ok_reads [simp]: "run_ok env start jobs (st\<lparr>ss_reads := n\<rparr>) = run_ok env start jobs st"
  by (simp add: run_ok_def)

lemma settle_phase_ok:
  "env_ok env start jobs \<Longrightarrow> run_ok env start jobs st \<Longrightarrow> settle_phase n env start critical cursor st = Inr st' \<Longrightarrow> run_ok env start jobs st'"
proof (induction n env start critical cursor st rule: settle_phase.induct)
  case (1 env start critical cursor st)
  then show ?case by simp
next
  case (2 n env start critical cursor st)
  let ?rows = "read_page start critical cursor (ss_jobs st)"
  have "x \<in> set jobs \<and> \<not> jb_picked x \<and> jb_enqueued x < start" if "x \<in> set (usable_rows ?rows)" for x
    using page_of_start [OF 2(2,3) subsetD [OF usable_rows_subset that]] by (simp add: eligible_def)
  then have "run_ok env start jobs (settle_page env (usable_rows ?rows) (st\<lparr>ss_reads := Suc (ss_reads st)\<rparr>))"
    using settle_page_ok [OF 2(2), of "st\<lparr>ss_reads := Suc (ss_reads st)\<rparr>" "usable_rows ?rows"] 2(3) by simp
  then show ?case using 2 by (auto simp: Let_def split: if_splits)
qed



section \<open>It always returns\<close>

text \<open>What a phase has left: the jobs of the start it still has to step past. Every full page moves the cursor over
  one of them, which is why a round for each job, and one to see the end, is enough.\<close>

definition left_over :: "int \<Rightarrow> bool \<Rightarrow> target option \<Rightarrow> job list \<Rightarrow> nat" where
  "left_over start critical cursor jobs = length (filter (\<lambda>j. eligible start critical j \<and> beyond cursor j) jobs)"

lemma shorter_filter:
  assumes "\<And>x. P x \<Longrightarrow> Q x" and "y \<in> set xs" "Q y" "\<not> P y"
  shows "length (filter P xs) < length (filter Q xs)"
proof -
  have "filter P xs = filter P (filter Q xs)" using assms(1) by (auto intro!: filter_cong)
  moreover have "length (filter P (filter Q xs)) < length (filter Q xs)"
    using assms(2-4) by (intro length_filter_less [of y]) auto
  ultimately show ?thesis by simp
qed

lemma beyond_advances: "beyond cursor u \<Longrightarrow> beyond (Some (job_key u)) x \<Longrightarrow> beyond cursor x"
  by (auto simp: beyond_def split: option.splits intro: key_less_trans)

lemma left_over_decreases:
  assumes "u \<in> set jobs" "eligible start critical u" "beyond cursor u"
  shows "left_over start critical (Some (job_key u)) jobs < left_over start critical cursor jobs"
  unfolding left_over_def
  by (rule shorter_filter [of _ _ u]) (use assms in \<open>auto simp: beyond_def split: option.splits intro: key_less_trans\<close>)

lemma last_usable_of_start:
  assumes "env_ok env start jobs" and "run_ok env start jobs st" and "read_page start critical cursor (ss_jobs st) \<noteq> []"
  shows "last (usable_rows (read_page start critical cursor (ss_jobs st))) \<in> set jobs
    \<and> eligible start critical (last (usable_rows (read_page start critical cursor (ss_jobs st))))
    \<and> beyond cursor (last (usable_rows (read_page start critical cursor (ss_jobs st))))"
  using page_of_start [OF assms(1,2) subsetD [OF usable_rows_subset last_in_set [OF usable_rows_nonempty [OF assms(3)]]]] .

lemma usable_page_ok:
  assumes env: "env_ok env start jobs" and st: "run_ok env start jobs st"
  shows "run_ok env start jobs (settle_page env (usable_rows (read_page start critical cursor (ss_jobs st))) (st\<lparr>ss_reads := n\<rparr>))"
proof (rule settle_page_ok [OF env])
  show "run_ok env start jobs (st\<lparr>ss_reads := n\<rparr>)" using st by simp
  fix x assume "x \<in> set (usable_rows (read_page start critical cursor (ss_jobs st)))"
  then show "x \<in> set jobs \<and> \<not> jb_picked x \<and> jb_enqueued x < start"
    using page_of_start [OF env st subsetD [OF usable_rows_subset]] by (simp add: eligible_def)
qed

text \<open>The three ways a round that could read the queue goes on.\<close>

definition after_page :: "settle_env \<Rightarrow> int \<Rightarrow> bool \<Rightarrow> target option \<Rightarrow> settle_state \<Rightarrow> settle_state" where
  "after_page env start critical cursor st =
     settle_page env (usable_rows (read_page start critical cursor (ss_jobs st))) (st\<lparr>ss_reads := Suc (ss_reads st)\<rparr>)"

definition next_cursor :: "int \<Rightarrow> bool \<Rightarrow> target option \<Rightarrow> settle_state \<Rightarrow> target" where
  "next_cursor start critical cursor st = job_key (last (usable_rows (read_page start critical cursor (ss_jobs st))))"

lemma settle_round:
  assumes "se_read env (ss_reads st)"
  shows "read_page start critical cursor (ss_jobs st) = [] \<Longrightarrow>
      settle_phase (Suc n) env start critical cursor st = Inr (st\<lparr>ss_reads := Suc (ss_reads st)\<rparr>)"
    and "read_page start critical cursor (ss_jobs st) \<noteq> [] \<Longrightarrow> length (read_page start critical cursor (ss_jobs st)) \<noteq> JOBS_PER_READ \<Longrightarrow>
      settle_phase (Suc n) env start critical cursor st = Inr (after_page env start critical cursor st)"
    and "read_page start critical cursor (ss_jobs st) \<noteq> [] \<Longrightarrow> length (read_page start critical cursor (ss_jobs st)) = JOBS_PER_READ \<Longrightarrow>
      settle_phase (Suc n) env start critical cursor st
      = settle_phase n env start critical (Some (next_cursor start critical cursor st)) (after_page env start critical cursor st)"
  using assms by (simp_all add: Let_def after_page_def next_cursor_def)

lemma settle_phase_returns:
  assumes env: "env_ok env start jobs" and reads: "\<And>i. se_read env i"
  shows "run_ok env start jobs st \<Longrightarrow> left_over start critical cursor jobs < n \<Longrightarrow>
    \<exists>st'. settle_phase n env start critical cursor st = Inr st'"
proof (induction n arbitrary: cursor st)
  case 0
  then show ?case by simp
next
  case (Suc n)
  let ?rows = "read_page start critical cursor (ss_jobs st)"
  consider "?rows = []" | "?rows \<noteq> []" "length ?rows \<noteq> JOBS_PER_READ" | "?rows \<noteq> []" "length ?rows = JOBS_PER_READ" by blast
  then show ?case
  proof cases
    case 1
    then show ?thesis using settle_round(1) [OF reads] by blast
  next
    case 2
    then show ?thesis using settle_round(2) [OF reads] by blast
  next
    case 3
    have "left_over start critical (Some (next_cursor start critical cursor st)) jobs < left_over start critical cursor jobs"
      unfolding next_cursor_def using left_over_decreases last_usable_of_start [OF env Suc.prems(1) 3(1)] by blast
    then have "left_over start critical (Some (next_cursor start critical cursor st)) jobs < n" using Suc.prems(2) by simp
    moreover have "run_ok env start jobs (after_page env start critical cursor st)"
      unfolding after_page_def by (rule usable_page_ok [OF env Suc.prems(1)])
    ultimately show ?thesis using Suc.IH settle_round(3) [OF reads 3] by metis
  qed
qed


section \<open>It drains\<close>

text \<open>A job of the start does not come back, and no work of the run adds to the jobs enqueued before it.\<close>

lemma settle_batch_keeps_away:
  assumes "\<And>i. x \<notin> set (se_arrive env i)" and "x \<notin> set (ss_jobs st)"
  shows "x \<notin> set (ss_jobs (settle_batch env st b))"
  using assms by (simp add: settle_batch_def Let_def split: option.splits)

lemma settle_batches_keep_away:
  "(\<And>i. x \<notin> set (se_arrive env i)) \<Longrightarrow> x \<notin> set (ss_jobs st) \<Longrightarrow> x \<notin> set (ss_jobs (foldl (settle_batch env) st bs))"
  by (induction bs arbitrary: st) (simp_all add: settle_batch_keeps_away)

lemma filter_filter_shorter: "length (filter P (filter R xs)) \<le> length (filter P xs)"
  by (induction xs) auto

lemma settle_batch_shrinks:
  assumes "\<forall>i. \<forall>x \<in> set (se_arrive env i). \<not> P x"
  shows "length (filter P (ss_jobs (settle_batch env st b))) \<le> length (filter P (ss_jobs st))"
proof -
  have "filter P (se_arrive env (ss_calls st)) = []" using assms by (auto simp: filter_empty_conv)
  then have "length (filter P (filter R (ss_jobs st @ se_arrive env (ss_calls st)))) \<le> length (filter P (ss_jobs st))"
    "length (filter P (ss_jobs st @ se_arrive env (ss_calls st))) \<le> length (filter P (ss_jobs st))" for R
    using filter_filter_shorter [of P R "ss_jobs st @ se_arrive env (ss_calls st)"] by simp_all
  then show ?thesis unfolding settle_batch_def Let_def by (simp del: filter_append filter_filter split: option.splits)
qed

lemma settle_page_shrinks:
  assumes "\<forall>i. \<forall>x \<in> set (se_arrive env i). \<not> P x"
  shows "length (filter P (ss_jobs (settle_page env rows st))) \<le> length (filter P (ss_jobs st))"
proof -
  have "length (filter P (ss_jobs (foldl (settle_batch env) st bs))) \<le> length (filter P (ss_jobs st))" for bs
  proof (induction bs arbitrary: st)
    case Nil
    show ?case by simp
  next
    case (Cons b bs)
    show ?case using le_trans [OF Cons.IH settle_batch_shrinks [OF assms]] by simp
  qed
  then show ?thesis by (simp add: settle_page_def)
qed

text \<open>What a run can do when nothing fails.\<close>

definition all_works :: "settle_env \<Rightarrow> bool" where
  "all_works env = (\<forall>i. se_read env i \<and> (\<forall>b. se_run env i b \<noteq> None) \<and> (\<forall>j. se_delete env i j))"

lemma settle_batch_step:
  assumes "all_works env"
  shows "\<exists>w. settle_batch env st b = st\<lparr>ss_jobs := filter (\<lambda>x. jb_id x \<notin> set (done_ids b)) (ss_jobs st @ se_arrive env (ss_calls st)),
      ss_calls := Suc (ss_calls st), ss_settled := ss_settled st + length b, ss_written := ss_written st + w,
      ss_cleared := ss_cleared st + length (done_ids b), ss_done := ss_done st @ map fst b\<rparr>"
proof -
  from assms obtain w where "se_run env (ss_calls st) (map fst b) = Some w" unfolding all_works_def by blast
  moreover have "deleted_ids env (ss_calls st) b = done_ids b" by (rule deleted_ids_all) (use assms in \<open>simp add: all_works_def\<close>)
  ultimately show ?thesis by (intro exI [of _ w]) (simp add: settle_batch_def Let_def)
qed

lemma settle_batch_works:
  assumes works: "all_works env" and x: "(k, js) \<in> set b" "x \<in> set js"
  shows "k \<in> set (ss_done (settle_batch env st b))
    \<and> (\<not> claimNeedsEngineFollowUp (snd k) \<longrightarrow> x \<notin> set (ss_jobs (settle_batch env st b)))"
proof -
  have "\<not> claimNeedsEngineFollowUp (snd k) \<Longrightarrow> jb_id x \<in> set (done_ids b)" using x in_done_ids by blast
  moreover have "k \<in> set (map fst b)" using x(1) by (simp add: rev_image_eqI)
  moreover obtain st' where "settle_batch env st b = st'" "set (ss_done st') = set (ss_done st) \<union> set (map fst b)"
    "ss_jobs st' = filter (\<lambda>x. jb_id x \<notin> set (done_ids b)) (ss_jobs st @ se_arrive env (ss_calls st))"
    using settle_batch_step [OF works, of st b] by (elim exE) simp
  ultimately show ?thesis by (metis (mono_tags, lifting) Un_iff mem_Collect_eq set_filter)
qed

lemma settle_batch_failed: "all_works env \<Longrightarrow> ss_failed (settle_batch env st b) = ss_failed st"
  using settle_batch_step [of env st b] by auto

lemma settle_page_failed: "all_works env \<Longrightarrow> ss_failed (settle_page env rows st) = ss_failed st"
proof -
  assume works: "all_works env"
  have "ss_failed (foldl (settle_batch env) st bs) = ss_failed st" for bs
    by (induction bs arbitrary: st) (simp_all add: settle_batch_failed [OF works])
  then show ?thesis by (simp add: settle_page_def)
qed

lemma settle_batches_work:
  assumes works: "all_works env" and away: "\<And>i. x \<notin> set (se_arrive env i)" and x: "(k, js) \<in> set (concat bs)" "x \<in> set js"
  shows "k \<in> set (ss_done (foldl (settle_batch env) st bs))
    \<and> (\<not> claimNeedsEngineFollowUp (snd k) \<longrightarrow> x \<notin> set (ss_jobs (foldl (settle_batch env) st bs)))"
  using x(1)
proof (induction bs arbitrary: st)
  case Nil
  then show ?case by simp
next
  case (Cons b bs)
  show ?case
  proof (cases "(k, js) \<in> set b")
    case True
    have "k \<in> set (ss_done (settle_batch env st b))"
      "\<not> claimNeedsEngineFollowUp (snd k) \<longrightarrow> x \<notin> set (ss_jobs (settle_batch env st b))"
      using settle_batch_works [OF works True x(2)] by auto
    then show ?thesis
      using settle_batches_keep [of env bs "settle_batch env st b"] settle_batches_keep_away [of x env, OF away]
      by (auto simp: run_keeps_def)
  next
    case False
    with Cons show ?thesis by simp
  qed
qed

lemma settle_page_works:
  assumes works: "all_works env" and away: "\<And>i. x \<notin> set (se_arrive env i)" and x: "x \<in> set rows"
  shows "job_key x \<in> set (ss_done (settle_page env rows st))
    \<and> (\<not> claimNeedsEngineFollowUp (jb_property x) \<longrightarrow> x \<notin> set (ss_jobs (settle_page env rows st)))"
proof -
  obtain js where "(job_key x, js) \<in> set (js_group_by job_key rows)" "x \<in> set js"
    using x by (auto simp: js_group_by_entry)
  then show ?thesis
    using settle_batches_work [of env x "job_key x" js "chunks 299 (js_group_by job_key rows)" st, OF works away]
    by (simp add: settle_page_def job_key_def)
qed


text \<open>After a phase that nothing disturbed, every job it was for has had its target recomputed, and is gone unless the
  engine still needs it. \<open>stepped\<close> is what holds between two rounds: it is so up to the cursor.\<close>

definition stepped :: "int \<Rightarrow> bool \<Rightarrow> (job \<Rightarrow> bool) \<Rightarrow> job list \<Rightarrow> settle_state \<Rightarrow> bool" where
  "stepped start critical seen jobs st =
     (\<forall>x \<in> set jobs. eligible start critical x \<and> seen x \<longrightarrow>
        job_key x \<in> set (ss_done st) \<and> (\<not> claimNeedsEngineFollowUp (jb_property x) \<longrightarrow> x \<notin> set (ss_jobs st)))"

definition few_copies :: "job list \<Rightarrow> bool" where
  "few_copies jobs = (\<forall>k. length (filter (\<lambda>j. job_key j = k) jobs) < JOBS_PER_READ)"

definition free_copies :: "int \<Rightarrow> target \<Rightarrow> job list \<Rightarrow> nat" where
  "free_copies start k jobs = length (filter (\<lambda>j. jb_enqueued j < start \<and> job_key j = k) jobs)"

lemma filter_take_shorter: "length (filter P (take n xs)) \<le> length (filter P xs)"
  by (induction xs arbitrary: n) (auto simp: take_Cons split: nat.splits intro: le_SucI)

lemma full_page_two:
  assumes full: "length (read_page start critical cursor jobs) = JOBS_PER_READ"
    and few: "\<And>k. free_copies start k jobs < JOBS_PER_READ"
  shows "\<exists>x \<in> set (read_page start critical cursor jobs). job_key x \<noteq> job_key (last (read_page start critical cursor jobs))"
proof (rule ccontr)
  let ?rows = "read_page start critical cursor jobs"
  let ?k = "job_key (last ?rows)"
  let ?E = "\<lambda>j. eligible start critical j \<and> beyond cursor j"
  let ?F = "\<lambda>j. jb_enqueued j < start \<and> job_key j = ?k"
  assume "\<not> ?thesis"
  then have all: "filter ?F ?rows = ?rows" using read_page_rows by (intro filter_True) (auto simp: eligible_def)
  have "length (filter ?F ?rows) \<le> length (filter ?F (js_sort job_le (filter ?E jobs)))"
    unfolding read_page_def by (rule filter_take_shorter)
  also have "\<dots> = length (filter ?F (filter ?E jobs))" 
  proof -
    have "mset (filter ?F (js_sort job_le (filter ?E jobs))) = mset (filter ?F (filter ?E jobs))" by (simp only: mset_filter mset_js_sort)
    then show ?thesis by (rule mset_eq_length)
  qed
  also have "\<dots> \<le> length (filter ?F jobs)" by (rule filter_filter_shorter)
  finally show False using all few [of ?k] full by (simp add: free_copies_def)
qed

lemma away_of_start: "env_ok env start jobs \<Longrightarrow> x \<in> set jobs \<Longrightarrow> x \<notin> set (se_arrive env i)"
  by (auto simp: env_ok_def)

lemma stepped_round:
  assumes env: "env_ok env start jobs" and st: "run_ok env start jobs st" and works: "all_works env"
    and old: "stepped start critical (\<lambda>x. \<not> beyond cursor x) jobs st"
    and page: "\<And>x. x \<in> set (ss_jobs st) \<Longrightarrow> eligible start critical x \<Longrightarrow> beyond cursor x \<Longrightarrow> seen x \<Longrightarrow>
      x \<in> set (usable_rows (read_page start critical cursor (ss_jobs st)))"
  shows "stepped start critical seen jobs (after_page env start critical cursor st)"
  unfolding stepped_def
proof (intro ballI impI, elim conjE)
  fix x assume x: "x \<in> set jobs" "eligible start critical x" "seen x"
  let ?use = "usable_rows (read_page start critical cursor (ss_jobs st))"
  let ?st1 = "st\<lparr>ss_reads := Suc (ss_reads st)\<rparr>"
  have away: "x \<notin> set (se_arrive env i)" for i using away_of_start [OF env x(1)] .
  have keep: "job_key x \<in> set (ss_done ?st1) \<Longrightarrow> job_key x \<in> set (ss_done (settle_page env ?use ?st1))"
    "x \<notin> set (ss_jobs ?st1) \<Longrightarrow> x \<notin> set (ss_jobs (settle_page env ?use ?st1))"
    using settle_page_keeps [of env ?use ?st1] settle_batches_keep_away [of x env, OF away] unfolding run_keeps_def settle_page_def by blast+
  show "job_key x \<in> set (ss_done (after_page env start critical cursor st))
    \<and> (\<not> claimNeedsEngineFollowUp (jb_property x) \<longrightarrow> x \<notin> set (ss_jobs (after_page env start critical cursor st)))"
  proof (cases "x \<in> set ?use")
    case True
    then show ?thesis using settle_page_works [OF works away] unfolding after_page_def by blast
  next
    case False
    with page x have "x \<notin> set (ss_jobs st) \<or> \<not> beyond cursor x" by blast
    then have "job_key x \<in> set (ss_done st) \<and> (\<not> claimNeedsEngineFollowUp (jb_property x) \<longrightarrow> x \<notin> set (ss_jobs st))"
      using old x st unfolding stepped_def run_ok_def by blast
    then show ?thesis using keep unfolding after_page_def by simp
  qed
qed

lemma arrivals_late: "env_ok env start jobs \<Longrightarrow> x \<in> set (se_arrive env i) \<Longrightarrow> \<not> jb_enqueued x < start"
  by (metis env_ok_def not_less)

lemma ss_reads_jobs: "ss_jobs (st\<lparr>ss_reads := n\<rparr>) = ss_jobs st"
  by simp

lemma after_page_copies:
  assumes "env_ok env start jobs"
  shows "free_copies start k (ss_jobs (after_page env start critical cursor st)) \<le> free_copies start k (ss_jobs st)"
proof -
  have "\<forall>i. \<forall>x \<in> set (se_arrive env i). \<not> (jb_enqueued x < start \<and> job_key x = k)" using arrivals_late [OF assms] by blast
  from settle_page_shrinks [OF this, of "usable_rows (read_page start critical cursor (ss_jobs st))" "st\<lparr>ss_reads := Suc (ss_reads st)\<rparr>"]
  show ?thesis unfolding after_page_def free_copies_def ss_reads_jobs .
qed

lemma settle_phase_drains:
  assumes env: "env_ok env start jobs" and works: "all_works env"
  shows "run_ok env start jobs st \<Longrightarrow> (\<And>k. free_copies start k (ss_jobs st) < JOBS_PER_READ) \<Longrightarrow>
    stepped start critical (\<lambda>x. \<not> beyond cursor x) jobs st \<Longrightarrow> settle_phase n env start critical cursor st = Inr st' \<Longrightarrow>
    stepped start critical (\<lambda>x. True) jobs st' \<and> (\<forall>k. free_copies start k (ss_jobs st') < JOBS_PER_READ) \<and> ss_failed st' = ss_failed st"
proof (induction n arbitrary: cursor st)
  case 0
  then show ?case by simp
next
  case (Suc n)
  let ?rows = "read_page start critical cursor (ss_jobs st)"
  let ?st2 = "after_page env start critical cursor st"
  have reads: "se_read env (ss_reads st)" using works by (simp add: all_works_def)
  note round = stepped_round [OF env Suc.prems(1) works Suc.prems(3)]
  have few: "free_copies start k (ss_jobs ?st2) < JOBS_PER_READ" for k
    using le_less_trans [OF after_page_copies [OF env] Suc.prems(2)] .
  have failed: "ss_failed ?st2 = ss_failed st" by (simp add: after_page_def settle_page_failed [OF works])
  have short: "x \<in> set (usable_rows ?rows)"
    if "length ?rows \<noteq> JOBS_PER_READ" "x \<in> set (ss_jobs st)" "eligible start critical x" "beyond cursor x" for x
    using short_page [OF that(1)] that by simp
  consider "?rows = []" | "?rows \<noteq> []" "length ?rows \<noteq> JOBS_PER_READ" | "?rows \<noteq> []" "length ?rows = JOBS_PER_READ" by blast
  then show ?case
  proof cases
    case 1
    then have "stepped start critical (\<lambda>x. True) jobs ?st2" using round [of "\<lambda>x. True"] short by (simp add: JOBS_PER_READ_def)
    moreover have "?st2 = st\<lparr>ss_reads := Suc (ss_reads st)\<rparr>" using 1
      by (simp add: after_page_def settle_page_def usable_rows_def js_group_by_def chunks.simps)
    moreover have "st' = st\<lparr>ss_reads := Suc (ss_reads st)\<rparr>" using Suc.prems(4) settle_round(1) [OF reads 1] by simp
    ultimately show ?thesis using few failed by metis
  next
    case 2
    then have "stepped start critical (\<lambda>x. True) jobs ?st2" using round [of "\<lambda>x. True"] short by simp
    moreover have "st' = ?st2" using Suc.prems(4) settle_round(2) [OF reads 2] by simp
    ultimately show ?thesis using few failed by simp
  next
    case 3
    let ?c = "Some (next_cursor start critical cursor st)"
    have "stepped start critical (\<lambda>x. \<not> beyond ?c x) jobs ?st2"
      by (rule round) (rule full_page [OF 3(2) full_page_two [OF 3(2) Suc.prems(2)]], auto simp: beyond_def next_cursor_def)
    moreover have "run_ok env start jobs ?st2" unfolding after_page_def by (rule usable_page_ok [OF env Suc.prems(1)])
    moreover have "settle_phase n env start critical ?c ?st2 = Inr st'" using Suc.prems(4) settle_round(3) [OF reads 3] by simp
    ultimately show ?thesis using Suc.IH [of ?st2 ?c] few failed by simp
  qed
qed


lemma stepped_stays:
  assumes env: "env_ok env start jobs" and st: "stepped start c seen jobs st"
    and keeps: "run_keeps env gs st st'" and away: "\<And>x. x \<in> set jobs \<Longrightarrow> x \<notin> set (ss_jobs st) \<Longrightarrow> x \<notin> set (ss_jobs st')"
  shows "stepped start c seen jobs st'"
  using assms unfolding stepped_def run_keeps_def by blast

lemma settle_phase_keeps_away:
  "(\<And>i. x \<notin> set (se_arrive env i)) \<Longrightarrow> x \<notin> set (ss_jobs st) \<Longrightarrow> settle_phase n env start critical cursor st = Inr st' \<Longrightarrow>
   x \<notin> set (ss_jobs st')"
proof (induction n env start critical cursor st rule: settle_phase.induct)
  case (1 env start critical cursor st)
  then show ?case by simp
next
  case (2 n env start critical cursor st)
  have "x \<notin> set (ss_jobs (settle_page env (usable_rows (read_page start critical cursor (ss_jobs st))) (st\<lparr>ss_reads := Suc (ss_reads st)\<rparr>)))"
    unfolding settle_page_def by (rule settle_batches_keep_away) (use 2(2,3) in simp_all)
  then show ?case using 2 by (auto simp: Let_def split: if_splits)
qed

lemma settle_phase_done_grows:
  "settle_phase n env start critical cursor st = Inr st' \<Longrightarrow> set (ss_done st) \<subseteq> set (ss_done st')"
proof (induction n env start critical cursor st rule: settle_phase.induct)
  case (1 env start critical cursor st)
  then show ?case by simp
next
  case (2 n env start critical cursor st)
  have "set (ss_done st) \<subseteq> set (ss_done (settle_page env (usable_rows (read_page start critical cursor (ss_jobs st)))
      (st\<lparr>ss_reads := Suc (ss_reads st)\<rparr>)))"
    using settle_page_keeps [of env "usable_rows (read_page start critical cursor (ss_jobs st))" "st\<lparr>ss_reads := Suc (ss_reads st)\<rparr>"]
    unfolding run_keeps_def by simp
  then show ?case using 2 by (auto simp: Let_def split: if_splits del: subsetI intro: subset_trans)
qed

lemma left_over_le: "left_over start critical cursor jobs < Suc (length jobs)"
  by (simp add: left_over_def less_Suc_eq_le)

lemma settle_runs:
  assumes env: "env_ok env start jobs" and reads: "\<And>i. se_read env i" and st: "run_ok env start jobs st"
  obtains st1 st2 where "settle_phase (Suc (length jobs)) env start True None st = Inr st1"
    and "settle_phase (Suc (length jobs)) env start False None st1 = Inr st2" and "run_ok env start jobs st1" and "run_ok env start jobs st2"
proof -
  from settle_phase_returns [OF env reads st left_over_le]
  obtain st1 where one: "settle_phase (Suc (length jobs)) env start True None st = Inr st1" by blast
  then have ok: "run_ok env start jobs st1" using settle_phase_ok [OF env st] by blast
  from settle_phase_returns [OF env reads ok left_over_le]
  obtain st2 where two: "settle_phase (Suc (length jobs)) env start False None st1 = Inr st2" by blast
  from that [OF one two ok settle_phase_ok [OF env ok two]] show thesis .
qed

lemma pending_is_unfinished: "x \<in> set (pending_jobs start jobs) \<longleftrightarrow>
   x \<in> set jobs \<and> \<not> jb_picked x \<and> jb_enqueued x < start \<and> \<not> claimNeedsEngineFollowUp (jb_property x)"
  by (auto simp: pending_jobs_def claimNeedsEngineFollowUp_def isScoreAffectingProperty_def SCORE_AFFECTING_def)

text \<open>C34: When nothing fails, settling drains the queue. If every read, recompute and delete works, and no target has a
  page full of copies of its job, then, whatever is enqueued meanwhile, the call returns: every job that was free and
  enqueued before it has had its target recomputed, is gone from the table exactly when the engine need not see it again,
  and the result reports nothing failed and nothing pending.\<close>

lemma settle_drains:
  assumes env: "env_ok env start jobs" and works: "all_works env" and few: "few_copies jobs"
  shows "\<exists>r st. settleClaimQueue env start jobs = Inr (r, st) \<and> sr_failed r = 0 \<and> sr_pending r = 0
    \<and> (\<forall>x \<in> set jobs. \<not> jb_picked x \<and> jb_enqueued x < start \<longrightarrow>
         job_key x \<in> set (ss_done st) \<and> (x \<in> set (ss_jobs st) \<longleftrightarrow> claimNeedsEngineFollowUp (jb_property x)))"
proof -
  let ?st0 = "\<lparr>ss_jobs = jobs, ss_calls = 0, ss_reads = 0, ss_settled = 0, ss_written = 0, ss_failed = 0, ss_cleared = 0, ss_done = []\<rparr>"
  have ok0: "run_ok env start jobs ?st0" by (simp add: run_ok_def arrived_def)
  have reads: "se_read env i" for i using works by (simp add: all_works_def)
  obtain st1 st2 where one: "settle_phase (Suc (length jobs)) env start True None ?st0 = Inr st1"
    and two: "settle_phase (Suc (length jobs)) env start False None st1 = Inr st2"
    and ok1: "run_ok env start jobs st1" and ok2: "run_ok env start jobs st2"
    using settle_runs [OF env reads ok0] by blast
  have "free_copies start k jobs \<le> length (filter (\<lambda>j. job_key j = k) jobs)" for k
    unfolding free_copies_def by (induction jobs) auto
  then have few0: "free_copies start k (ss_jobs ?st0) < JOBS_PER_READ" for k
    using few unfolding few_copies_def by (simp only: settle_state.simps) (blast intro: le_less_trans)
  have fresh: "stepped start c (\<lambda>x. \<not> beyond None x) jobs st" for c st by (simp add: stepped_def beyond_def)
  have critical: "stepped start True (\<lambda>x. True) jobs st1" "ss_failed st1 = 0" and few1: "free_copies start k (ss_jobs st1) < JOBS_PER_READ" for k
    using settle_phase_drains [OF env works ok0 few0 fresh one] by (simp_all del: split_paired_All)
  have rest: "stepped start False (\<lambda>x. True) jobs st2" "ss_failed st2 = 0"
    using settle_phase_drains [OF env works ok1 few1 fresh two] critical(2) by simp_all
  have fin: "job_key x \<in> set (ss_done st2) \<and> (x \<in> set (ss_jobs st2) \<longleftrightarrow> claimNeedsEngineFollowUp (jb_property x))"
    if x: "x \<in> set jobs" "\<not> jb_picked x" "jb_enqueued x < start" for x
  proof -
    have away: "x \<notin> set (se_arrive env i)" for i using away_of_start [OF env x(1)] .
    have "job_key x \<in> set (ss_done st2) \<and> (\<not> claimNeedsEngineFollowUp (jb_property x) \<longrightarrow> x \<notin> set (ss_jobs st2))"
      using x critical(1) rest(1) settle_phase_done_grows [OF two] settle_phase_keeps_away [OF away _ two]
      unfolding stepped_def eligible_def by blast
    moreover have "x \<in> set (ss_jobs st2)" if "claimNeedsEngineFollowUp (jb_property x)"
      using that x(1) ok2 unfolding run_ok_def by blast
    ultimately show ?thesis by blast
  qed
  have "pending_jobs start (ss_jobs st2) = []"
  proof (rule ccontr)
    assume "\<not> ?thesis"
    then obtain x where x: "x \<in> set (ss_jobs st2)" "\<not> jb_picked x" "jb_enqueued x < start" "\<not> claimNeedsEngineFollowUp (jb_property x)"
      using pending_is_unfinished by (metis last_in_set)
    then have "x \<in> set jobs" using ok2 arrivals_late [OF env] unfolding run_ok_def arrived_def by blast
    with fin x show False by blast
  qed
  then show ?thesis using one two rest(2) fin by (auto simp: settleClaimQueue_def Let_def simp del: settle_phase.simps)
qed

text \<open>A queue with a job of another process in hand, two copies of a target, a follow-up, and a new job that arrives.\<close>

definition sample_queue :: "job list" where
  "sample_queue = [\<lparr>jb_id = 1, jb_entity = ''d1'', jb_property = ''stage'', jb_picked = False, jb_enqueued = 5\<rparr>,
     \<lparr>jb_id = 2, jb_entity = ''d1'', jb_property = ''stage'', jb_picked = False, jb_enqueued = 7\<rparr>,
     \<lparr>jb_id = 3, jb_entity = ''p1'', jb_property = ''job_title'', jb_picked = False, jb_enqueued = 6\<rparr>,
     \<lparr>jb_id = 4, jb_entity = ''p1'', jb_property = ''phone'', jb_picked = True, jb_enqueued = 6\<rparr>]"

definition sample_env :: settle_env where
  "sample_env = \<lparr>se_run = \<lambda>i b. Some (length b),
     se_arrive = \<lambda>i. [\<lparr>jb_id = 10 + i, jb_entity = ''d1'', jb_property = ''stage'', jb_picked = False, jb_enqueued = 12\<rparr>],
     se_delete = \<lambda>i j. True, se_read = \<lambda>i. True, se_count = True\<rparr>"

lemma sample_env_ok: "env_ok sample_env 10 sample_queue"
  by (auto simp: env_ok_def sample_env_def sample_queue_def)

lemma sample_env_works: "all_works sample_env" "few_copies sample_queue"
  by (auto simp: all_works_def sample_env_def few_copies_def sample_queue_def JOBS_PER_READ_def)

lemma settle_drains_witness:
  "\<exists>r st. settleClaimQueue sample_env 10 sample_queue = Inr (r, st) \<and> sr_failed r = 0 \<and> sr_pending r = 0
    \<and> (''d1'', ''stage'') \<in> set (ss_done st) \<and> hd sample_queue \<notin> set (ss_jobs st)"
proof -
  have x: "hd sample_queue \<in> set sample_queue" "\<not> jb_picked (hd sample_queue)" "jb_enqueued (hd sample_queue) < 10"
    "job_key (hd sample_queue) = (''d1'', ''stage'')" "\<not> claimNeedsEngineFollowUp (jb_property (hd sample_queue))"
    by code_simp+
  show ?thesis using settle_drains [OF sample_env_ok sample_env_works] x by metis
qed




section \<open>Settling the targets of one caller\<close>

text \<open>\<open>settleClaimTargets\<close>: read the jobs of the targets, recompute them, then delete those jobs. \<open>readable\<close> says which of
  the reads, of fifty targets each, worked; the first that did not ends the reading. \<open>later\<close> are the jobs enqueued after the reads.\<close>

fun target_jobs :: "(nat \<Rightarrow> bool) \<Rightarrow> nat \<Rightarrow> target list \<Rightarrow> target list list \<Rightarrow> job list \<Rightarrow> nat list" where
  "target_jobs readable i uniq [] jobs = []"
| "target_jobs readable i uniq (slice # slices) jobs =
     (if readable i then
        map jb_id (filter (\<lambda>j. job_key j \<in> set uniq)
          (filter (\<lambda>j. \<not> jb_picked j \<and> jb_entity j \<in> fst ` set slice \<and> jb_property j \<in> snd ` set slice) jobs))
        @ target_jobs readable (Suc i) uniq slices jobs
      else [])"

definition wanted_targets :: "(string option \<times> string option) list \<Rightarrow> target list" where
  "wanted_targets ts = jm_keys (js_group_by id (concat (map (\<lambda>(e, p). case (e, p) of (Some e', Some p') \<Rightarrow>
     (if e' \<noteq> [] \<and> p' \<noteq> [] then [(e', p')] else []) | _ \<Rightarrow> []) ts)))"

definition settleClaimTargets ::
  "(nat \<Rightarrow> bool) \<Rightarrow> (target list \<Rightarrow> nat option) \<Rightarrow> (nat \<Rightarrow> bool) \<Rightarrow> job list \<Rightarrow> (string option \<times> string option) list \<Rightarrow> job list
   \<Rightarrow> (nat \<times> nat \<times> job list) option" where
  "settleClaimTargets readable run del later ts jobs =
     (let uniq = wanted_targets ts in
      if uniq = [] then Some (0, 0, jobs)
      else case run uniq of
        None \<Rightarrow> None
      | Some w \<Rightarrow>
          (let ids = target_jobs readable 0 uniq (chunks 49 uniq) jobs;
               gone = concat (map snd (filter (\<lambda>(j, xs). del j) (enumerate 0 (chunks 499 ids))))
           in Some (w, length gone, filter (\<lambda>x. jb_id x \<notin> set gone) (jobs @ later))))"

section \<open>The sweeps of the engine\<close>

text \<open>\<open>processClaimJobs\<close>: sweep after sweep until the queue is empty, the deadline has passed (after \<open>n\<close> sweeps) or a
  whole sweep failed. \<open>ok i k\<close> says whether the recompute of a target in sweep \<open>i\<close> succeeds, \<open>del i\<close> whether the delete does. The jobs
  of all workspaces are in one queue; an entity belongs to one workspace, so an entity stands for the pair in the sets of what changed.\<close>

definition BATCH_SIZE :: nat where "BATCH_SIZE = 2000"

record tick =
  tk_jobs :: "job list"
  tk_recomputed :: "target list"
  tk_failed :: nat
  tk_sweeps :: nat
  tk_stage :: "string list"
  tk_rescore :: "string list"
  tk_list :: "string list"

definition sweep_jobs :: "job list \<Rightarrow> job list" where
  "sweep_jobs jobs = take BATCH_SIZE (js_sort job_le (filter (\<lambda>j. \<not> jb_picked j) jobs))"

definition sweep_ok :: "(nat \<Rightarrow> target \<Rightarrow> bool) \<Rightarrow> (nat \<Rightarrow> bool) \<Rightarrow> tick \<Rightarrow> tick \<times> target list" where
  "sweep_ok ok del t =
     (let page = sweep_jobs (tk_jobs t); targets = jm_keys (js_group_by job_key page); i = tk_sweeps t;
          succeeded = filter (ok i) targets; doneIds = map jb_id (filter (\<lambda>j. job_key j \<in> set succeeded) page);
          changed = (\<lambda>p. map fst (filter (\<lambda>k. p (snd k)) succeeded))
      in (t\<lparr>tk_jobs := (if doneIds \<noteq> [] \<and> del i then filter (\<lambda>x. jb_id x \<notin> set doneIds) (tk_jobs t) else tk_jobs t),
            tk_recomputed := tk_recomputed t @ succeeded,
            tk_failed := tk_failed t + length (filter (\<lambda>k. \<not> ok i k) targets),
            tk_sweeps := Suc i,
            tk_stage := tk_stage t @ changed (\<lambda>p. p = ''pipeline_stage''),
            tk_rescore := tk_rescore t @ changed isScoreAffectingProperty,
            tk_list := tk_list t @ changed isListRowProperty\<rparr>, succeeded))"

fun processClaimJobs :: "nat \<Rightarrow> (nat \<Rightarrow> target \<Rightarrow> bool) \<Rightarrow> (nat \<Rightarrow> bool) \<Rightarrow> tick \<Rightarrow> tick" where
  "processClaimJobs 0 ok del t = t"
| "processClaimJobs (Suc n) ok del t =
     (if sweep_jobs (tk_jobs t) = [] then t
      else case sweep_ok ok del t of (t', succeeded) \<Rightarrow>
        if succeeded = [] then t' else processClaimJobs n ok del t')"


text \<open>The jobs enqueued after the reads survive, whatever is deleted.\<close>

lemma target_jobs_subset: "set (target_jobs readable i uniq slices jobs) \<subseteq> jb_id ` {x \<in> set jobs. \<not> jb_picked x \<and> job_key x \<in> set uniq}"
  by (induction readable i uniq slices jobs rule: target_jobs.induct) auto

lemma settle_targets_spares:
  assumes run: "settleClaimTargets readable run del later ts jobs = Some (w, n, jobs')" and x: "x \<in> set (jobs @ later)"
    and spared: "\<And>y. y \<in> set jobs \<Longrightarrow> jb_id y = jb_id x \<Longrightarrow> jb_picked y \<or> job_key y \<notin> set (wanted_targets ts)" and any: "wanted_targets ts \<noteq> []"
  shows "x \<in> set jobs'"
proof -
  let ?ids = "target_jobs readable 0 (wanted_targets ts) (chunks 49 (wanted_targets ts)) jobs"
  have "jb_id x \<notin> set ?ids" using spared target_jobs_subset [of readable 0 "wanted_targets ts" "chunks 49 (wanted_targets ts)" jobs] by force
  then have "jb_id x \<notin> set (concat (map snd (filter P (enumerate 0 (chunks 499 ?ids)))))" for P
    using kept_chunks_subset [of P 0 "chunks 499 ?ids"] by (simp only: concat_chunks) blast
  note safe = this [of "\<lambda>(j, xs). del j"]
  have "jobs' = filter (\<lambda>x. jb_id x \<notin> set (concat (map snd (filter (\<lambda>(j, xs). del j) (enumerate 0 (chunks 499 ?ids)))))) (jobs @ later)"
    using run any by (cases "run (wanted_targets ts)") (simp_all add: settleClaimTargets_def Let_def)
  then show ?thesis using x safe by (simp only: set_filter mem_Collect_eq simp_thms)
qed

lemma keys_of_groups [simp]: "set (jm_keys (js_group_by key xs)) = key ` set xs"
  by (rule js_group_by_keys)

lemma sweep_jobs_in: "x \<in> set (sweep_jobs jobs) \<Longrightarrow> x \<in> set jobs \<and> \<not> jb_picked x"
  by (auto simp: sweep_jobs_def dest: in_set_takeD)

text \<open>When the whole first page fails, the tick changes nothing and looks at nothing behind it. The page is the first by
  target, not the oldest: the next tick reads the same one.\<close>

lemma sweep_blocked:
  assumes "\<forall>k \<in> job_key ` set (sweep_jobs (tk_jobs t)). \<not> ok (tk_sweeps t) k"
  shows "snd (sweep_ok ok del t) = [] \<and> tk_jobs (fst (sweep_ok ok del t)) = tk_jobs t \<and> tk_recomputed (fst (sweep_ok ok del t)) = tk_recomputed t"
proof -
  have "filter (ok (tk_sweeps t)) (jm_keys (js_group_by job_key (sweep_jobs (tk_jobs t)))) = []" using assms by (auto simp: filter_empty_conv)
  then show ?thesis by (simp add: sweep_ok_def Let_def)
qed

lemma head_blocks_the_queue:
  assumes "\<forall>k \<in> job_key ` set (sweep_jobs (tk_jobs t)). \<not> ok (tk_sweeps t) k"
  shows "tk_jobs (processClaimJobs n ok del t) = tk_jobs t \<and> tk_recomputed (processClaimJobs n ok del t) = tk_recomputed t"
  using sweep_blocked [of t ok del] assms by (cases n) (auto split: prod.splits)

text \<open>When nothing fails, the queue is empty once the deadline has let a sweep pass for every page of it.\<close>

lemma sweep_shrinks:
  "length (filter (\<lambda>j. \<not> jb_picked j) (tk_jobs (fst (sweep_ok (\<lambda>i k. True) (\<lambda>i. True) t))))
    \<le> length (filter (\<lambda>j. \<not> jb_picked j) (tk_jobs t)) - BATCH_SIZE"
proof -
  let ?F = "filter (\<lambda>j. \<not> jb_picked j) (tk_jobs t)"
  let ?page = "sweep_jobs (tk_jobs t)"
  let ?R = "\<lambda>x. jb_id x \<notin> jb_id ` set ?page"
  have ids: "filter (\<lambda>j. job_key j \<in> job_key ` set ?page) ?page = ?page" by (rule filter_True) simp
  have none: "?page = [] \<Longrightarrow> filter ?R (tk_jobs t) = tk_jobs t" by simp
  have jobs: "tk_jobs (fst (sweep_ok (\<lambda>i k. True) (\<lambda>i. True) t)) = filter ?R (tk_jobs t)"
    using ids none by (cases "?page = []") (simp_all add: sweep_ok_def Let_def)
  have "mset ?F = mset ?page + mset (drop BATCH_SIZE (js_sort job_le ?F))"
    unfolding sweep_jobs_def by (metis append_take_drop_id mset_append mset_js_sort)
  then have "mset (filter ?R ?F) = filter_mset ?R (mset ?page) + filter_mset ?R (mset (drop BATCH_SIZE (js_sort job_le ?F)))"
    by (simp only: mset_filter filter_union_mset)
  moreover have "filter_mset ?R (mset ?page) = {#}" by (auto simp: filter_mset_eq_conv)
  ultimately have "mset (filter ?R ?F) \<subseteq># mset (drop BATCH_SIZE (js_sort job_le ?F))" by simp
  then have "length (filter ?R ?F) \<le> length (drop BATCH_SIZE (js_sort job_le ?F))" by (metis size_mset size_mset_mono)
  then show ?thesis unfolding jobs by (simp add: conj_commute)
qed

lemma sweep_targets_nonempty: "sweep_jobs (tk_jobs t) \<noteq> [] \<Longrightarrow> snd (sweep_ok (\<lambda>i k. True) (\<lambda>i. True) t) \<noteq> []"
  using keys_of_groups [of job_key "sweep_jobs (tk_jobs t)"] by (cases "jm_keys (js_group_by job_key (sweep_jobs (tk_jobs t)))")
    (simp_all add: sweep_ok_def Let_def del: keys_of_groups)

lemma engine_drains:
  "length (filter (\<lambda>j. \<not> jb_picked j) (tk_jobs t)) \<le> BATCH_SIZE * n \<Longrightarrow>
    filter (\<lambda>j. \<not> jb_picked j) (tk_jobs (processClaimJobs n (\<lambda>i k. True) (\<lambda>i. True) t)) = []"
proof (induction n arbitrary: t)
  case 0
  then show ?case by simp
next
  case (Suc n)
  show ?case
  proof (cases "sweep_jobs (tk_jobs t) = []")
    case True
    then show ?thesis by (simp add: sweep_jobs_def BATCH_SIZE_def)
  next
    case False
    then have "snd (sweep_ok (\<lambda>i k. True) (\<lambda>i. True) t) \<noteq> []"  by (rule sweep_targets_nonempty)
    moreover have "filter (\<lambda>j. \<not> jb_picked j) (tk_jobs (processClaimJobs n (\<lambda>i k. True) (\<lambda>i. True) (fst (sweep_ok (\<lambda>i k. True) (\<lambda>i. True) t)))) = []"
      by (rule Suc.IH) (use Suc.prems sweep_shrinks [of t] in simp)
    ultimately show ?thesis using False by (auto split: prod.splits)
  qed
qed

end
