(* ===== verification/ClaimCategories.thy ===== *)
theory ClaimCategories
  imports JsRegex JsNumber
begin

text \<open>
  The taxonomy of claims, \<^verbatim>\<open>packages/core/src/db/claimCategories.ts\<close>: the categories, how any
  input is brought to one, what our own side says, the sub-tags and free text a category carries, which claims are shown as
  facts, and the chip on a claim. The descriptions and examples of the categories are prompt text and left out.
  The class \<^verbatim>\<open>\p{L}\<close> is by its ASCII members.
\<close>

section \<open>The categories\<close>

datatype claim_domain = DomAccount | DomDeal | DomCustomer | DomProduct | DomGeneral

record category_def =
  cd_key :: string
  cd_label :: string
  cd_domain :: claim_domain
  cd_about :: string

definition CLAIM_CATEGORIES :: "category_def list" where
  "CLAIM_CATEGORIES = map (\<lambda>(k, l, d, a). \<lparr>cd_key = k, cd_label = l, cd_domain = d, cd_about = a\<rparr>)
    [(''status_quo'', ''Status Quo'', DomAccount, ''either''), (''goal'', ''Goal'', DomProduct, ''either''),
     (''pain'', ''Pain'', DomProduct, ''either''), (''objection'', ''Objection'', DomDeal, ''either''),
     (''authority'', ''Authority'', DomAccount, ''person''), (''budget'', ''Budget'', DomDeal, ''either''),
     (''timeline'', ''Timeline'', DomDeal, ''either''), (''buying_signal'', ''Buying Signal'', DomDeal, ''either''),
     (''preference'', ''Preference'', DomAccount, ''person''), (''competitor'', ''Competitor'', DomDeal, ''either''),
     (''discovery'', ''Discovery'', DomAccount, ''person''), (''relationship'', ''Connections'', DomAccount, ''person''),
     (''proficiency'', ''Proficiency'', DomCustomer, ''person''), (''adoption'', ''Adoption'', DomCustomer, ''either''),
     (''seasonality'', ''Seasonality'', DomAccount, ''company''), (''staff_change'', ''Staff Change'', DomAccount, ''either''),
     (''firmographic'', ''Business Profile'', DomAccount, ''company''), (''performance'', ''Performance'', DomProduct, ''company''),
     (''expansion_signal'', ''Expansion Signal'', DomCustomer, ''company''), (''risk_signal'', ''Risk Signal'', DomCustomer, ''company''),
     (''tech_stack'', ''Tech Stack'', DomAccount, ''company''), (''blocker'', ''Blocker'', DomDeal, ''either''),
     (''requirement'', ''Requirement'', DomDeal, ''either''), (''general'', ''General'', DomGeneral, ''either'')]"

definition CLAIM_CATEGORY_KEYS :: "string list" where
  "CLAIM_CATEGORY_KEYS = map cd_key CLAIM_CATEGORIES"

definition OUR_SIDE_CATEGORIES :: "(string \<times> string) list" where
  "OUR_SIDE_CATEGORIES = [(''our_reply'', ''Our reply''), (''our_commitment'', ''Our commitment''), (''pitch_line'', ''Pitch line'')]"

definition OUR_SIDE_CATEGORY_KEYS :: "string list" where
  "OUR_SIDE_CATEGORY_KEYS = map fst OUR_SIDE_CATEGORIES"

definition OUR_SIDE_ALIASES :: "(string \<times> string) list" where
  "OUR_SIDE_ALIASES = [(''reply'', ''our_reply''), (''answer'', ''our_reply''), (''response'', ''our_reply''), (''rebuttal'', ''our_reply''),
     (''commitment'', ''our_commitment''), (''promise'', ''our_commitment''), (''our_promise'', ''our_commitment''),
     (''pitch'', ''pitch_line''), (''pitch_lines'', ''pitch_line''), (''claim'', ''pitch_line''), (''framing'', ''pitch_line''),
     (''our_pitch'', ''pitch_line'')]"

definition CATEGORY_ALIASES :: "(string \<times> string) list" where
  "CATEGORY_ALIASES = [(''pain points'', ''pain''), (''painpoints'', ''pain''), (''painpoint'', ''pain''),
     (''objections'', ''objection''), (''concern'', ''objection''), (''pushback'', ''objection''),
     (''discovered'', ''discovery''), (''origin'', ''discovery''), (''inbound'', ''discovery''),
     (''found us'', ''discovery''), (''source'', ''discovery''), (''intro'', ''relationship''),
     (''introduction'', ''relationship''), (''offer'', ''relationship''), (''preferences'', ''preference''),
     (''relationships'', ''relationship''), (''connection'', ''relationship''), (''connections'', ''relationship''),
     (''network'', ''relationship''), (''networking'', ''relationship''), (''knows'', ''relationship''),
     (''mutual'', ''relationship''), (''budgets'', ''budget''), (''timelines'', ''timeline''),
     (''timing'', ''timeline''), (''timeframe'', ''timeline''), (''time frame'', ''timeline''),
     (''buying signal'', ''buying_signal''), (''buying signals'', ''buying_signal''), (''buying_signals'', ''buying_signal''),
     (''commitment'', ''buying_signal''), (''verbal commit'', ''buying_signal''), (''verbal_commit'', ''buying_signal''),
     (''agreement'', ''buying_signal''), (''closing'', ''buying_signal''), (''ready to buy'', ''buying_signal''),
     (''next steps'', ''buying_signal''), (''competitors'', ''competitor''), (''competition'', ''competitor''),
     (''goals'', ''goal''), (''initiative'', ''goal''), (''initiatives'', ''goal''),
     (''status quo'', ''status_quo''), (''current state'', ''status_quo''), (''current stack'', ''status_quo''),
     (''stack'', ''status_quo''), (''tools'', ''status_quo''), (''role'', ''authority''),
     (''buying role'', ''authority''), (''pains'', ''pain''), (''authorities'', ''authority''),
     (''staff changes'', ''staff_change''), (''adoptions'', ''adoption''), (''expansion'', ''expansion_signal''),
     (''expansion signal'', ''expansion_signal''), (''expansion signals'', ''expansion_signal''), (''expansion_signals'', ''expansion_signal''),
     (''upsell'', ''expansion_signal''), (''upsell signal'', ''expansion_signal''), (''cross-sell'', ''expansion_signal''),
     (''cross_sell'', ''expansion_signal''), (''health_expansion'', ''expansion_signal''), (''risk'', ''risk_signal''),
     (''risk signal'', ''risk_signal''), (''risk signals'', ''risk_signal''), (''risk_signals'', ''risk_signal''),
     (''churn'', ''risk_signal''), (''churn risk'', ''risk_signal''), (''churn_risk'', ''risk_signal''),
     (''health_risk'', ''risk_signal'')]"

definition ACCOUNT_ROLLUP_CATEGORIES :: "string list" where
  "ACCOUNT_ROLLUP_CATEGORIES = [''objection'', ''competitor'', ''budget'', ''timeline'', ''authority'', ''buying_signal'',
     ''expansion_signal'', ''risk_signal'', ''firmographic'', ''performance'', ''blocker'', ''requirement'', ''tech_stack'']"

section \<open>Bringing an input to a category\<close>

text \<open>The tables are object literals, so a lookup also finds what every object inherits: the answer is then no text but
  that member.\<close>

datatype category = Cat string | Member string

definition table_get :: "(string \<times> string) list \<Rightarrow> string \<Rightarrow> category option" where
  "table_get t k = (case map_of t k of Some v \<Rightarrow> Some (Cat v) | None \<Rightarrow> if k \<in> set OBJECT_KEYS then Some (Member k) else None)"

definition cat_raw :: "string option \<Rightarrow> string" where
  "cat_raw s = to_lower (js_trim (str_of s))"

definition normalizeClaimCategory :: "string option \<Rightarrow> category" where
  "normalizeClaimCategory input =
     (if \<not> nonempty input then Cat ''general''
      else
       (let raw = cat_raw input; underscored = rx_replace_all False (rplus space) ''_'' raw in
        if raw \<in> set CLAIM_CATEGORY_KEYS then Cat raw
        else if raw \<in> set OUR_SIDE_CATEGORY_KEYS then Cat raw
        else if underscored \<in> set CLAIM_CATEGORY_KEYS then Cat underscored
        else case table_get CATEGORY_ALIASES raw of Some c \<Rightarrow> c | None \<Rightarrow> Cat ''general''))"

definition is_cat :: "category \<Rightarrow> string list \<Rightarrow> bool" where
  "is_cat c ks = (case c of Cat k \<Rightarrow> k \<in> set ks | Member m \<Rightarrow> False)"

definition normalizeClaimAbout :: "string option \<Rightarrow> string" where
  "normalizeClaimAbout s = (if cat_raw s = ''company'' then ''company'' else ''person'')"

definition isValidClaimCategory :: "string option \<Rightarrow> bool" where
  "isValidClaimCategory s = (nonempty s \<and> cat_raw s \<in> set CLAIM_CATEGORY_KEYS)"

definition category_label :: "string \<Rightarrow> string option" where
  "category_label key = map_option cd_label (List.find (\<lambda>c. cd_key c = key) CLAIM_CATEGORIES)"

definition claimCategoryLabel :: "string \<Rightarrow> string" where
  "claimCategoryLabel key = (case category_label key of Some l \<Rightarrow> l
     | None \<Rightarrow> (case map_of OUR_SIDE_CATEGORIES key of Some l \<Rightarrow> l | None \<Rightarrow> ''General''))"

definition claimDomainOf :: "string option \<Rightarrow> claim_domain" where
  "claimDomainOf s = (case normalizeClaimCategory s of
     Cat k \<Rightarrow> (case List.find (\<lambda>c. cd_key c = k) CLAIM_CATEGORIES of Some c \<Rightarrow> cd_domain c | None \<Rightarrow> DomGeneral)
   | Member m \<Rightarrow> DomGeneral)"

definition categoriesInDomain :: "claim_domain \<Rightarrow> string list" where
  "categoriesInDomain d = map cd_key (filter (\<lambda>c. cd_domain c = d) CLAIM_CATEGORIES)"

definition COMPANY_CATEGORIES :: "string list" where
  "COMPANY_CATEGORIES = [''tech_stack'', ''firmographic'', ''performance'', ''seasonality'']"

definition claimAboutFor :: "string option \<Rightarrow> string option \<Rightarrow> string" where
  "claimAboutFor category about =
     (if is_cat (normalizeClaimCategory category) COMPANY_CATEGORIES then ''company'' else normalizeClaimAbout about)"

section \<open>Our own side\<close>

definition isOurSideCategory :: "jsval \<Rightarrow> bool" where
  "isOurSideCategory v = (to_lower (js_trim (js_tostring (js_coalesce v (JStr [])))) \<in> set OUR_SIDE_CATEGORY_KEYS)"

definition normalizeOurSideCategory :: "string option \<Rightarrow> category option" where
  "normalizeOurSideCategory s =
     (let raw = rx_replace_all False (rplus (RCls False [(CHR '' '', CHR '' ''), (CHR 0x09, CHR 0x0D), (CHR 0xA0, CHR 0xA0), (CHR ''-'', CHR ''-'')]))
                  ''_'' (cat_raw s) in
      if raw = [] then None
      else if raw \<in> set OUR_SIDE_CATEGORY_KEYS then Some (Cat raw)
      else table_get OUR_SIDE_ALIASES raw)"

definition isOurSideClaim :: "jsval \<Rightarrow> bool" where
  "isOurSideClaim v = (js_is_object v \<and>
     (js_prop (js_prop v ''metadata'') ''side'' = JStr ''ours'' \<or> isOurSideCategory (js_prop v ''category'')))"

section \<open>Sub-tags and free text\<close>

definition CLAIM_SUBTAGS :: "(string \<times> (string \<times> string list) list) list" where
  "CLAIM_SUBTAGS =
     [(''competitor'', [(''stance'', [''evaluating'', ''incumbent'', ''past_failure'', ''mentioned''])]),
      (''objection'', [(''status'', [''open'', ''resolved'', ''addressed'']), (''hardness'', [''hard'', ''soft''])]),
      (''staff_change'', [(''change'', [''left'', ''joined'', ''moved'', ''reorg'', ''away''])]),
      (''authority'', [(''role'', [''economic_buyer'', ''decision_maker'', ''champion'', ''blocker'', ''technical''])]),
      (''expansion_signal'', [(''stance'', [''asked'', ''considering'', ''declined''])]),
      (''risk_signal'', [(''severity'', [''stated_churn'', ''at_risk'', ''friction''])]),
      (''blocker'', [(''status'', [''open'', ''resolved''])])]"

definition CLAIM_FREE_TEXT :: "(string \<times> string list) list" where
  "CLAIM_FREE_TEXT = [(''competitor'', [''entity'']), (''expansion_signal'', [''product'']), (''tech_stack'', [''tool''])]"

definition spaced :: "rx \<Rightarrow> rx" where "spaced r = ropt (RSeq (rstar space) r)"

definition TOOL_ALIASES :: "(rx \<times> string) list" where
  "TOOL_ALIASES =
     [(rseq [RBeg, lit ''grok'', ropt (RAlt (rseq [rstar space, lit ''bot'', ropt (lit ''s'')])
                                             (rseq [rstar space, lit ''agent'', ropt (lit ''s'')])), REnd], ''GrokBot''),
      (rseq [RBeg, lit ''justcall'', spaced (lit ''ai''), REnd], ''JustCall''),
      (rseq [RBeg, lit ''hub'', rstar space, lit ''spot'', spaced (lit ''crm''), REnd], ''HubSpot''),
      (rseq [RBeg, lit ''ring'', rstar space, lit ''central'', REnd], ''RingCentral''),
      (rseq [RBeg, lit ''open'', rstar space, lit ''phone'', REnd], ''OpenPhone''),
      (rseq [RBeg, lit ''post'', rstar space, lit ''hog'', REnd], ''PostHog''),
      (rseq [RBeg, lit ''zoom'', rstar space, lit ''info'', REnd], ''ZoomInfo''),
      (rseq [RBeg, lit ''sales'', rstar space, lit ''force'', spaced (lit ''crm''), REnd], ''Salesforce''),
      (rseq [RBeg, lit ''slack'', REnd], ''Slack'')]"

definition normalizeToolName :: "string option \<Rightarrow> string option" where
  "normalizeToolName input =
     (let name = rx_replace_all False (rplus space) '' '' (js_trim (str_of input)) in
      if name = [] then None
      else case List.find (\<lambda>(r, canonical). rx_test_i r name) TOOL_ALIASES of
        Some (r, canonical) \<Rightarrow> Some canonical | None \<Rightarrow> Some name)"

definition claimFreeTextFor :: "string \<Rightarrow> (string \<Rightarrow> jsval) \<Rightarrow> (string \<times> string option) list" where
  "claimFreeTextFor category offered =
     (case map_of CLAIM_FREE_TEXT category of None \<Rightarrow> []
      | Some fs \<Rightarrow> map (\<lambda>f.
          let text = (case offered f of JStr s \<Rightarrow> (let t = take 60 (js_trim s) in if t = [] then None else Some t) | _ \<Rightarrow> None)
          in (f, if category = ''tech_stack'' \<and> f = ''tool'' then normalizeToolName text else text)) fs)"

definition claimSubtagsFor :: "string \<Rightarrow> (string \<Rightarrow> jsval) \<Rightarrow> (string \<times> string option) list" where
  "claimSubtagsFor category offered =
     (case map_of CLAIM_SUBTAGS category of None \<Rightarrow> []
      | Some spec \<Rightarrow> map (\<lambda>(field, allowed).
          (field, case offered field of JStr s \<Rightarrow> (if s \<in> set allowed then Some s else None) | _ \<Rightarrow> None)) spec)"

section \<open>What is shown as a fact\<close>

definition dash :: rx where "dash = rchars [em_dash, CHR ''-'']"

definition TRANSCRIPT_RE :: rx where
  "TRANSCRIPT_RE = rseq [RBeg, rstar (RCls False [(CHR '' '', CHR '' ''), (CHR 0x09, CHR 0x0D), (CHR 0xA0, CHR 0xA0), (em_dash, em_dash), (CHR ''-'', CHR ''-'')]),
     RRep True 3 None dash, rstar space, lit ''Transcript'']"

definition HEADING_RE :: rx where
  "HEADING_RE = rseq [RBeg, rrep 1 3 (rchar (CHR ''#'')), space, rplus (RCls True [(nl, nl)]), rchar nl]"

definition isIntelClaim :: "jsval \<Rightarrow> bool" where
  "isIntelClaim v =
     (let meta = js_prop v ''metadata''; content = js_tostring (js_coalesce (js_prop v ''content'') (JStr [])) in
      \<not> js_truthy (js_prop meta ''doc_type'') \<and> \<not> isOurSideClaim v \<and> js_prop meta ''summary'' \<noteq> JBool True
      \<and> js_prop meta ''flag'' \<noteq> JStr ''speaker_name_link'' \<and> js_prop meta ''signal_type'' \<noteq> JStr ''health_adoption''
      \<and> \<not> rx_test_i TRANSCRIPT_RE content \<and> \<not> rx_test HEADING_RE content)"

section \<open>The chip on a claim\<close>

definition ROLE_WORDS :: "(string \<times> string) list" where
  "ROLE_WORDS = [(''economic_buyer'', ''Budget holder''), (''decision_maker'', ''Decision maker''), (''champion'', ''Champion''),
     (''blocker'', ''Blocker''), (''technical'', ''Technical buyer'')]"

definition upper :: rx where "upper = RCls False [(CHR ''A'', CHR ''Z'')]"
definition lower :: rx where "lower = RCls False [(CHR ''a'', CHR ''z'')]"
definition rx_letter :: rx where "rx_letter = RCls False [(CHR ''a'', CHR ''z''), (CHR ''A'', CHR ''Z'')]"
definition word_or :: "string \<Rightarrow> rx" where
  "word_or cs = RCls False ([(CHR ''a'', CHR ''z''), (CHR ''A'', CHR ''Z''), (CHR ''0'', CHR ''9''), (CHR ''_'', CHR ''_'')] @ map (\<lambda>c. (c, c)) cs)"
definition apostrophe :: rx where "apostrophe = rchars [CHR 0x27, CHR 0x92]"

definition TITLE_RE :: rx where
  "TITLE_RE = rseq [RBeg, ropt (RSeq (words_rx [''The'', ''Their'', ''Our'']) (rplus space)),
     ropt (rseq [rplus (word_or ''&.-''), apostrophe, lit ''s'', rplus space]),
     RGroup 1 (ralt ([lit ''CEO'', lit ''CTO'', lit ''CFO'', lit ''COO'', lit ''CRO'', lit ''CMO'', lit ''CPO'', lit ''CIO'', lit ''CISO'',
       RSeq (lit ''VP of '') (rplus rx_letter), RSeq (lit ''Head of '') (rplus rx_letter), RSeq (rchars ''Ff'') (lit ''ounder''),
       RSeq (rchars ''Cc'') (lit ''o-founder'')])), RWordB]"

definition UNNAMED_RE :: rx where
  "UNNAMED_RE = ralt
     [rseq [RWordB, lit ''name '', ropt (lit ''is ''), RAlt (rseq [lit ''not '', ropt (lit ''yet ''), lit ''known'']) (lit ''unknown''), RWordB],
      rseq [RWordB, lit ''not '', ropt (lit ''yet ''), lit ''named'', RWordB],
      rseq [RWordB, lit ''unnamed'', RWordB]]"

definition amount :: rx where
  "amount = rseq [digit, rstar (RCls False [(CHR ''0'', CHR ''9''), (CHR '','', CHR '','')]), ropt (RSeq (lit ''.'') (rplus digit))]"

definition MONEY_RE :: rx where
  "MONEY_RE = rseq
     [RAlt (rseq [rchars [CHR ''$'', CHR 0x80, CHR 0xA3], ropt space, amount,
               ropt (rseq [ropt space, words_rx [''k'', ''m'', ''bn'', ''million'', ''thousand''], RNot lower])])
           (rseq [RWordB, amount, ropt space, ropt (words_rx [''k'', ''m'']), ropt space,
               words_rx [''USD'', ''CAD'', ''EUR'', ''GBP'', ''dollars'', ''euros''], RWordB]),
      ropt (rseq [ropt space, words_rx [''/'', ''per'', ''a'', ''an''], ropt space,
               words_rx [''year'', ''yr'', ''month'', ''mo'', ''seat'', ''user''], RWordB])]"

definition ATTRIBUTION_VERBS :: "string list" where
  "ATTRIBUTION_VERBS = [''says'', ''said'', ''wants'', ''wanted'', ''thinks'', ''believes'', ''explained'', ''explains'', ''noted'', ''notes'',
     ''mentioned'', ''plans'', ''planned'', ''raised'', ''asked'', ''questioned'', ''set'', ''sees'', ''still'', ''does'', ''did'', ''has'', ''had'',
     ''is'', ''was'', ''will'', ''would'', ''can'', ''cannot'', ''approached'', ''found'', ''pushed'', ''backtracked'', ''signs'', ''decides'', ''owns'',
     ''leads'', ''runs'', ''champions'', ''controls'', ''approves'', ''reviews'']"

text \<open>A positive lookahead is the negation of the negative one.\<close>

definition LEADING_NAME_RE :: rx where
  "LEADING_NAME_RE = rseq [RBeg, RGroup 1 (rseq [upper, rplus lower, lit '' '', upper, rplus (RCls False [(CHR ''a'', CHR ''z''), (CHR ''-'', CHR ''-'')])]),
     RNot (RNot (rseq [lit '' '', words_rx ATTRIBUTION_VERBS, RWordB]))]"

definition BUDGET_STATE_RE :: rx where
  "BUDGET_STATE_RE = rseq [RWordB, words_rx [''frozen'', ''freeze'', ''approved'', ''approval'', ''cut'', ''slashed'', ''increased'', ''reduced'', ''pending'',
     ''allocated'', ''locked'', ''signed off'', ''no budget'', ''over budget'', ''under budget'', ''ran out'', ''exhausted''], RWordB]"

definition company_word :: rx where "company_word = rseq [upper, rstar (word_or ''&.-'')]"
definition person_word :: rx where "person_word = rseq [upper, rstar (word_or ''-'')]"

definition POSSESSIVE_COMPANY_RE :: rx where
  "POSSESSIVE_COMPANY_RE = rseq [RBeg, person_word, ropt (RSeq (lit '' '') person_word), apostrophe, lit ''s company '', company_word,
     ropt (RSeq (lit '' '') company_word), apostrophe, lit ''s'', rplus space]"

definition SAYING_RE :: rx where
  "SAYING_RE = rseq [RBeg, words_rx [''says'', ''said'', ''explains'', ''explained'', ''notes'', ''noted'', ''mentions'', ''mentioned'', ''states'', ''stated''],
     ropt (lit '' that''), rplus space]"

definition FILLER_RE :: rx where
  "FILLER_RE = rseq [RBeg, words_rx [''still'', ''also'', ''now'', ''then''], rplus space]"

definition TRAILING_STOP :: "string list" where
  "TRAILING_STOP = [''a'', ''an'', ''the'', ''to'', ''of'', ''as'', ''for'', ''and'', ''or'', ''with'', ''in'', ''on'', ''by'', ''at'', ''that'', ''how'', ''who'']"

definition START_WORDS :: nat where "START_WORDS = 7"
definition MAX_CHIP :: nat where "MAX_CHIP = 60"
definition bullet :: char where "bullet = CHR 0x95"
definition en_dash :: char where "en_dash = CHR 0x96"
definition middot :: string where "middot = [CHR '' '', CHR 0xB7, CHR '' '']"

definition capitalised :: "string \<Rightarrow> string" where
  "capitalised s = map upper_char (take 1 s) @ drop 1 s"

text \<open>The words that must not end a chip are dropped from its end, never the last one left.\<close>

definition is_stop :: "string \<Rightarrow> bool" where
  "is_stop w = (filter (\<lambda>c. in_ranges c [(CHR ''a'', CHR ''z'')]) (to_lower w) \<in> set TRAILING_STOP)"

fun drop_stops_rev :: "string list \<Rightarrow> string list" where
  "drop_stops_rev [] = []"
| "drop_stops_rev [w] = [w]"
| "drop_stops_rev (w # v # ws) = (if is_stop w then drop_stops_rev (v # ws) else w # v # ws)"

fun drop_speaker :: "string list \<Rightarrow> string \<Rightarrow> string" where
  "drop_speaker [] s = s"
| "drop_speaker (n # ns) s = (if starts_with (n @ '' '') s then drop (Suc (length n)) s else drop_speaker ns s)"

definition speaker_names :: "string option \<Rightarrow> string list" where
  "speaker_names speaker = (case speaker of None \<Rightarrow> []
     | Some n \<Rightarrow> filter (\<lambda>m. 1 < length m) [n, hd (split_on (CHR '' '') n)])"

definition said_part :: "string \<Rightarrow> string option \<Rightarrow> string" where
  "said_part content speaker =
     (let s1 = rx_replace_all False (rplus (rchars ''*_`>#'')) '' '' content;
          s2 = rx_replace_all False (rseq [RLine, rstar space, rchars [CHR ''-'', bullet], rplus space]) [] s1;
          s3 = rx_replace_all False (rplus space) '' '' (js_trim s2);
          s4 = drop_speaker (speaker_names speaker) (rx_replace1 False POSSESSIVE_COMPANY_RE [] s3);
          s5 = js_trim (rx_replace1 False LEADING_NAME_RE [] s4)
      in rx_replace1 True FILLER_RE [] (rx_replace1 True SAYING_RE [] s5))"

definition chip_of_words :: "string list \<Rightarrow> string" where
  "chip_of_words ws =
     (let head = take START_WORDS ws;
          kept = (if START_WORDS < length ws then rev (drop_stops_rev (rev head)) else head);
          txt = rx_replace1 False (rseq [rstar space, rplus (rchars ('',;:'' @ [em_dash, en_dash, CHR ''-''])), REnd]) [] (js_join '' '' kept);
          cut = (if MAX_CHIP < length txt
                 then rx_replace1 False (rseq [rplus space, rstar not_space, REnd]) [] (take MAX_CHIP txt) @ [ellipsis] else txt)
      in capitalised cut @ (if START_WORDS < length ws \<and> cut = txt then [ellipsis] else []))"

definition sentenceStart :: "string \<Rightarrow> string option \<Rightarrow> category \<Rightarrow> string" where
  "sentenceStart content speaker cat =
     (let s = said_part content speaker in
      if s = [] then (case (case cat of Cat k \<Rightarrow> category_label k | Member m \<Rightarrow> None) of Some l \<Rightarrow> l | None \<Rightarrow> ''Note'')
      else chip_of_words (split_on (CHR '' '') s))"

definition SMALL_WORDS :: "string list" where
  "SMALL_WORDS = [''a'', ''an'', ''the'', ''in'', ''on'', ''of'', ''to'', ''for'', ''and'', ''or'', ''at'', ''by'', ''vs'', ''with'', ''from'', ''into'', ''per'']"

text \<open>Whether the fact writes the word inside a sentence: neither at its very start, nor after the end of a sentence, nor as
  part of a longer word.\<close>

definition is_letter :: "char \<Rightarrow> bool" where
  "is_letter c = in_ranges c [(CHR ''a'', CHR ''z''), (CHR ''A'', CHR ''Z'')]"

definition said_inside :: "string \<Rightarrow> string \<Rightarrow> bool" where
  "said_inside form content = list_ex (\<lambda>i.
     starts_with form (drop i content) \<and> 0 < i \<and> \<not> is_letter (content ! (i - 1))
     \<and> \<not> (2 \<le> i \<and> is_ws (content ! (i - 1)) \<and> content ! (i - 2) \<in> set ''.!?'')
     \<and> (case drop (i + length form) content of [] \<Rightarrow> True | c # _ \<Rightarrow> \<not> is_letter c)) [0..<Suc (length content)]"

definition CAPITAL_RE :: rx where
  "CAPITAL_RE = rseq [RBeg, upper, rplus lower, rstar (RSeq (lit ''-'') (rplus lower)), ropt (rchars '',:''), REnd]"

definition case_word :: "string \<Rightarrow> nat \<times> string \<Rightarrow> string" where
  "case_word content iw =
     (let i = fst iw; w = snd iw in
      if 0 < i \<and> to_lower w \<in> set SMALL_WORDS then to_lower w
      else if i = 0 \<or> \<not> rx_test CAPITAL_RE w then w
      else (let bare = rx_replace1 False (RSeq (rchars '',:'') REnd) [] w in
            if said_inside (to_lower bare) content then to_lower w
            else if said_inside bare content \<or> length bare \<le> 3 then w
            else to_lower w))"

definition sentenceCase :: "string \<Rightarrow> string \<Rightarrow> string" where
  "sentenceCase label content = js_join '' '' (map (case_word content) (enumerate 0 (split_on (CHR '' '') label)))"

definition rx_match0 :: "bool \<Rightarrow> rx \<Rightarrow> string \<Rightarrow> string option" where
  "rx_match0 ic r s = (case rx_search ic r None s of None \<Rightarrow> None
     | Some (sk, q) \<Rightarrow> Some (take (length s - length sk - length (rx_rest q)) (drop (length sk) s)))"

definition rx_group1 :: "rx \<Rightarrow> string \<Rightarrow> string option" where
  "rx_group1 r s = (case rx_exec False r s of None \<Rightarrow> None | Some cs \<Rightarrow> rx_cap cs 1)"

record chip_claim =
  ch_category :: "string option"
  ch_label :: "string option"
  ch_content :: "string option"
  ch_meta :: jsval

definition text_or_null :: "jsval \<Rightarrow> string option" where
  "text_or_null v = (case v of JStr s \<Rightarrow> (if js_trim s \<noteq> [] then Some (js_trim s) else None) | _ \<Rightarrow> None)"

definition opt_text :: "string option \<Rightarrow> string option" where
  "opt_text s = (case s of None \<Rightarrow> None | Some t \<Rightarrow> text_or_null (JStr t))"

text \<open>\<open>shown\<close> is the text an inherited member is printed as.\<close>

definition role_words :: "(string \<Rightarrow> string) \<Rightarrow> jsval \<Rightarrow> string option" where
  "role_words shown role = (case table_get ROLE_WORDS (js_tostring (js_coalesce role (JStr []))) of
     None \<Rightarrow> None | Some (Cat w) \<Rightarrow> Some w | Some (Member m) \<Rightarrow> Some (shown m))"

definition budget_label :: "string option \<Rightarrow> string \<Rightarrow> jsval \<Rightarrow> category \<Rightarrow> string" where
  "budget_label modelLabel content meta cat =
     (case rx_match0 True MONEY_RE (str_of (text_or_null (js_prop meta ''quote'')) @ [nl] @ content) of
        Some m \<Rightarrow> js_trim m
      | None \<Rightarrow>
          (if rx_test_i BUDGET_STATE_RE (str_of modelLabel @ '' '' @ content)
           then (case modelLabel of Some l \<Rightarrow> l | None \<Rightarrow> sentenceStart content (text_or_null (js_prop meta ''speaker'')) cat)
           else ''No number yet''))"

definition authority_label :: "(string \<Rightarrow> string) \<Rightarrow> string option \<Rightarrow> string \<Rightarrow> jsval \<Rightarrow> category \<Rightarrow> string" where
  "authority_label shown modelLabel content meta cat =
     (let role = role_words shown (js_prop meta ''role'') in
      case rx_group1 TITLE_RE content of
        Some title \<Rightarrow>
          (case (if rx_test_i UNNAMED_RE content then Some ''not named yet'' else role) of
             Some who \<Rightarrow> title @ middot @ who | None \<Rightarrow> title)
      | None \<Rightarrow> (case modelLabel of Some l \<Rightarrow> l
          | None \<Rightarrow>
            (let start = sentenceStart content (text_or_null (js_prop meta ''speaker'')) cat in
             case (rx_group1 LEADING_NAME_RE content, role) of
               (Some name, Some r) \<Rightarrow> name @ middot @ r
             | (None, Some r) \<Rightarrow> r @ middot @ start
             | (_, None) \<Rightarrow> start)))"

definition claimLabel :: "(string \<Rightarrow> string) \<Rightarrow> chip_claim \<Rightarrow> string" where
  "claimLabel shown c =
     (let cat = normalizeClaimCategory (ch_category c); meta = ch_meta c; content = str_of (opt_text (ch_content c));
          modelLabel = map_option (\<lambda>l. sentenceCase (take 40 l) content) (opt_text (ch_label c));
          start = sentenceStart content (text_or_null (js_prop meta ''speaker'')) cat;
          rest = (case modelLabel of Some l \<Rightarrow> l | None \<Rightarrow> start)
      in if cat = Cat ''competitor'' then (case normalizeToolName (text_or_null (js_prop meta ''entity'')) of Some n \<Rightarrow> n | None \<Rightarrow> rest)
         else if cat = Cat ''tech_stack'' then (case normalizeToolName (text_or_null (js_prop meta ''tool'')) of Some n \<Rightarrow> n | None \<Rightarrow> rest)
         else if cat = Cat ''budget'' then budget_label modelLabel content meta cat
         else if cat = Cat ''authority'' then authority_label shown modelLabel content meta cat
         else rest)"


section \<open>Every input has a category\<close>

text \<open>The tables agree: every alias stands for a category, and none of them is a category's own key.\<close>

lemma aliases_canonical: "snd ` set CATEGORY_ALIASES \<subseteq> set CLAIM_CATEGORY_KEYS"
  by code_simp

lemma keys_apart: "set CLAIM_CATEGORY_KEYS \<inter> set OUR_SIDE_CATEGORY_KEYS = {}" "distinct CLAIM_CATEGORY_KEYS"
  by code_simp+

lemma known_categories:
  "set (map fst CLAIM_SUBTAGS @ map fst CLAIM_FREE_TEXT @ ACCOUNT_ROLLUP_CATEGORIES @ COMPANY_CATEGORIES) \<subseteq> set CLAIM_CATEGORY_KEYS"
  by code_simp

definition canonical :: "string \<Rightarrow> bool" where
  "canonical k = (k \<in> set CLAIM_CATEGORY_KEYS \<or> k \<in> set OUR_SIDE_CATEGORY_KEYS)"

lemma table_get_cases: "table_get t k = Some c \<Longrightarrow> (\<exists>v. c = Cat v \<and> v \<in> snd ` set t) \<or> (c = Member k \<and> k \<in> set OBJECT_KEYS)"
  by (auto simp: table_get_def split: option.splits if_splits dest!: map_of_SomeD) force+

lemma normalize_cases:
  "(\<exists>k. normalizeClaimCategory s = Cat k \<and> canonical k) \<or> (normalizeClaimCategory s = Member (cat_raw s) \<and> cat_raw s \<in> set OBJECT_KEYS)"
proof -
  have general: "canonical ''general''" by code_simp
  show ?thesis
  proof (cases "table_get CATEGORY_ALIASES (cat_raw s)")
    case None
    then show ?thesis using general by (auto simp: normalizeClaimCategory_def Let_def canonical_def)
  next
    case (Some c)
    from table_get_cases [OF this] Some general aliases_canonical show ?thesis
      by (auto simp: normalizeClaimCategory_def Let_def canonical_def)
  qed
qed

lemma canonical_text: "k \<in> set (CLAIM_CATEGORY_KEYS @ OUR_SIDE_CATEGORY_KEYS) \<Longrightarrow> k \<noteq> [] \<and> cat_raw (Some k) = k"
proof -
  have "\<forall>k \<in> set (CLAIM_CATEGORY_KEYS @ OUR_SIDE_CATEGORY_KEYS). k \<noteq> [] \<and> cat_raw (Some k) = k" by code_simp
  then show "k \<in> set (CLAIM_CATEGORY_KEYS @ OUR_SIDE_CATEGORY_KEYS) \<Longrightarrow> k \<noteq> [] \<and> cat_raw (Some k) = k" by blast
qed

lemma normalize_key: "canonical k \<Longrightarrow> normalizeClaimCategory (Some k) = Cat k"
  using canonical_text [of k] by (auto simp: normalizeClaimCategory_def canonical_def Let_def)

text \<open>Only two of the names every object inherits are lower case, so only these two escape the taxonomy.\<close>

lemma lower_char_idem [simp]: "lower_char (lower_char c) = lower_char c"
  by (auto simp: lower_char_def Let_def)

lemma member_names: "cat_raw s \<in> set OBJECT_KEYS \<Longrightarrow> cat_raw s = ''constructor'' \<or> cat_raw s = ''__proto__''"
proof -
  have "\<forall>m \<in> set OBJECT_KEYS. to_lower m = m \<longrightarrow> m = ''constructor'' \<or> m = ''__proto__''" by code_simp
  moreover have "to_lower (cat_raw s) = cat_raw s" by (simp add: cat_raw_def to_lower_def)
  ultimately show "cat_raw s \<in> set OBJECT_KEYS \<Longrightarrow> cat_raw s = ''constructor'' \<or> cat_raw s = ''__proto__''" by blast
qed

lemma member_category: "normalizeClaimCategory (Some ''Constructor'') = Member ''constructor''"
  by code_simp

text \<open>C40: Every input has a category. Whatever text a writer offers, the answer is a key of the taxonomy or one of our own
  side's, and to normalise it again changes nothing; the one exception is a text that is, up to case and outer blanks, one of
  the two lower-case names every object inherits, which comes back as that member.\<close>

lemma category_of_anything:
  "(\<exists>k. normalizeClaimCategory s = Cat k \<and> canonical k \<and> normalizeClaimCategory (Some k) = Cat k)
   \<or> (\<exists>m \<in> {''constructor'', ''__proto__''}. cat_raw s = m \<and> normalizeClaimCategory s = Member m)"
  using normalize_cases [of s] normalize_key member_names [of s] by auto

section \<open>What a claim carries\<close>

text \<open>A sub-tag is one of the words of its vocabulary or nothing, whatever was offered, and the fields are those of the category.\<close>

lemma subtags_in_vocabulary:
  "(field, v) \<in> set (claimSubtagsFor cat offered) \<Longrightarrow>
   \<exists>spec allowed. map_of CLAIM_SUBTAGS cat = Some spec \<and> (field, allowed) \<in> set spec
     \<and> (case v of None \<Rightarrow> True | Some w \<Rightarrow> w \<in> set allowed \<and> offered field = JStr w)"
proof -
  assume f: "(field, v) \<in> set (claimSubtagsFor cat offered)"
  then obtain spec where spec: "map_of CLAIM_SUBTAGS cat = Some spec" 
    by (cases "map_of CLAIM_SUBTAGS cat") (simp_all add: claimSubtagsFor_def)
  with f obtain allowed where a: "(field, allowed) \<in> set spec"
    "v = (case offered field of JStr s \<Rightarrow> (if s \<in> set allowed then Some s else None) | _ \<Rightarrow> None)"
    by (auto simp: claimSubtagsFor_def)
  then have "case v of None \<Rightarrow> True | Some w \<Rightarrow> w \<in> set allowed \<and> offered field = JStr w" by (auto split: jsval.splits)
  with spec a(1) show ?thesis by blast
qed

lemma subtags_every_field:
  "map_of CLAIM_SUBTAGS cat = Some spec \<Longrightarrow> map fst (claimSubtagsFor cat offered) = map fst spec"
  by (simp add: claimSubtagsFor_def case_prod_unfold)

lemma our_side_is_no_intel: "isOurSideClaim v \<Longrightarrow> \<not> isIntelClaim v"
  by (simp add: isIntelClaim_def Let_def)

section \<open>A chip is short\<close>

lemma rx_replace1_nil_le: "length (rx_replace1 ic r [] s) \<le> length s"
  by (auto simp: rx_replace1_def split: option.splits dest!: rx_search_split)

lemma chip_of_words_short: "length (chip_of_words ws) \<le> MAX_CHIP + 2"
proof -
  define full where "full = rx_replace1 False (rseq [rstar space, rplus (rchars ('',;:'' @ [em_dash, en_dash, CHR ''-''])), REnd]) []
    (js_join '' '' (if START_WORDS < length ws then rev (drop_stops_rev (rev (take START_WORDS ws))) else take START_WORDS ws))"
  define cut where "cut = (if MAX_CHIP < length full
     then rx_replace1 False (rseq [rplus space, rstar not_space, REnd]) [] (take MAX_CHIP full) @ [ellipsis] else full)"
  have "length cut \<le> MAX_CHIP + 1"
    using le_trans [OF rx_replace1_nil_le [of False "rseq [rplus space, rstar not_space, REnd]" "take MAX_CHIP full"]]
    by (auto simp: cut_def)
  moreover have "length (capitalised cut) = length cut" by (simp add: capitalised_def)
  moreover have "chip_of_words ws = capitalised cut @ (if START_WORDS < length ws \<and> cut = full then [ellipsis] else [])"
    by (simp add: chip_of_words_def Let_def cut_def full_def)
  ultimately show ?thesis by auto
qed

lemma drop_stops_rev_nonempty: "ws \<noteq> [] \<Longrightarrow> drop_stops_rev ws \<noteq> []"
  by (induction ws rule: drop_stops_rev.induct) auto

end
