(* ===== verification/ClaimTime.thy ===== *)
theory ClaimTime
  imports ClaimCategories Claims
begin

text \<open>
  When a claim was said, how long it stays worth acting on and what reads first,
  \<^verbatim>\<open>packages/core/src/db/claimTime.ts\<close>. A fact is a record of the fields these rules read; the code tells the
  facts apart by object identity, here the position \<open>df_id\<close> of the fact in the list it was handed. Dates are
  text, read by \<open>date_parse\<close>; a fact without a readable date has the instant 0 where the code writes \<^verbatim>\<open>|| 0\<close>.
\<close>

section \<open>How a claim ages\<close>

definition HALF_LIFE_DAYS :: "(string \<times> int) list" where
  "HALF_LIFE_DAYS = [(''buying_signal'', 14), (''blocker'', 30), (''timeline'', 30), (''objection'', 30), (''risk_signal'', 30), (''adoption'', 30),
     (''budget'', 45), (''goal'', 45), (''expansion_signal'', 45), (''competitor'', 60), (''pain'', 60), (''performance'', 60), (''general'', 60),
     (''requirement'', 90), (''status_quo'', 90), (''authority'', 120), (''staff_change'', 120), (''preference'', 180), (''proficiency'', 180),
     (''tech_stack'', 180), (''seasonality'', 365), (''firmographic'', 365), (''relationship'', 365), (''discovery'', 365)]"

definition TIME_BOUND_CATEGORIES :: "string list" where
  "TIME_BOUND_CATEGORIES = [''buying_signal'', ''timeline'', ''budget'', ''objection'', ''goal'', ''competitor'', ''risk_signal'',
     ''expansion_signal'', ''adoption'', ''authority'', ''staff_change'', ''performance'', ''pain'', ''status_quo'', ''blocker'', ''requirement'', ''tech_stack'']"

definition halfLifeDays :: "string option \<Rightarrow> int" where
  "halfLifeDays s = (case normalizeClaimCategory s of Cat k \<Rightarrow> (case map_of HALF_LIFE_DAYS k of Some d \<Rightarrow> d | None \<Rightarrow> 60) | Member m \<Rightarrow> 60)"

definition isTimeBound :: "string option \<Rightarrow> bool" where
  "isTimeBound s = is_cat (normalizeClaimCategory s) TIME_BOUND_CATEGORIES"

definition said_ms :: "string option \<Rightarrow> int option" where
  "said_ms s = (case s of None \<Rightarrow> None | Some t \<Rightarrow> if t = [] then None else date_parse t)"

definition noteFreshness :: "string option \<Rightarrow> string option \<Rightarrow> int \<Rightarrow> freshness" where
  "noteFreshness cat saidAt now =
     (case said_ms saidAt of None \<Rightarrow> Suspect
      | Some t \<Rightarrow>
         (let age = now - t; hl = halfLifeDays cat * day_ms in
          if age < hl then Fresh else if age < 2 * hl then Aging else if age < 4 * hl then Suspect else Expired))"

text \<open>\<open>None\<close> is the exception an unreadable date throws.\<close>

definition noteDecaysAt :: "string option \<Rightarrow> string \<Rightarrow> string option" where
  "noteDecaysAt cat saidAt = map_option (\<lambda>t. iso_of (t + 2 * halfLifeDays cat * day_ms)) (date_parse saidAt)"

definition SKEW_MS :: int where "SKEW_MS = 600000"

definition resolveSaidAt :: "string option \<Rightarrow> int \<Rightarrow> string" where
  "resolveSaidAt input now = (case said_ms input of None \<Rightarrow> iso_of now
     | Some t \<Rightarrow> if t > now + SKEW_MS then iso_of now else iso_of t)"

definition ISO_DAY_RE :: rx where
  "ISO_DAY_RE = rseq [RBeg, rrep 4 4 digit, lit ''-'', rrep 2 2 digit, lit ''-'', rrep 2 2 digit, REnd]"

definition day_text :: "jsval \<Rightarrow> string option" where
  "day_text v = (case v of JStr s \<Rightarrow> if rx_test ISO_DAY_RE s then Some s else None | _ \<Rightarrow> None)"

definition occurredLabel :: "jsval \<Rightarrow> string option" where
  "occurredLabel meta =
     (if \<not> js_truthy meta \<or> (\<not> js_nullish (js_prop meta ''fact_kind'') \<and> js_prop meta ''fact_kind'' \<noteq> JStr ''event'') then None
      else case (day_text (js_prop meta ''occurred_start''), day_text (js_prop meta ''occurred_end'')) of
        (Some s, Some e) \<Rightarrow> Some (if s = e then s else s @ '' to '' @ e)
      | (Some s, None) \<Rightarrow> Some (''from '' @ s)
      | (None, Some e) \<Rightarrow> Some (''until '' @ e)
      | (None, None) \<Rightarrow> None)"

text \<open>A fact handed on also carries its freshness, which is \<open>fact_fresh\<close> below. The tiers make freshness a linear order: fresher first.\<close>

definition TIER :: "freshness \<Rightarrow> nat" where
  "TIER f = (case f of Fresh \<Rightarrow> 0 | Aging \<Rightarrow> 1 | Suspect \<Rightarrow> 2 | Expired \<Rightarrow> 3)"

instantiation freshness :: linorder
begin

definition less_eq_freshness :: "freshness \<Rightarrow> freshness \<Rightarrow> bool" where
  "less_eq_freshness a b = (TIER a \<le> TIER b)"

definition less_freshness :: "freshness \<Rightarrow> freshness \<Rightarrow> bool" where
  "less_freshness a b = (TIER a < TIER b)"

instance
  by standard (auto simp: less_eq_freshness_def less_freshness_def TIER_def split: freshness.splits)

end

section \<open>Facts\<close>

record dated_fact =
  df_id :: nat
  df_category :: string
  df_date :: "string option"
  df_status :: jsval
  df_tool :: "string option"
  df_content :: jsval

definition fact_cat :: "dated_fact \<Rightarrow> category" where
  "fact_cat f = normalizeClaimCategory (Some (df_category f))"

definition fact_fresh :: "int \<Rightarrow> dated_fact \<Rightarrow> freshness" where
  "fact_fresh now f = noteFreshness (Some (df_category f)) (df_date f) now"

definition fact_ms :: "dated_fact \<Rightarrow> int" where
  "fact_ms f = (case date_parse (str_of (df_date f)) of None \<Rightarrow> 0 | Some t \<Rightarrow> t)"

definition current_le :: "int \<Rightarrow> dated_fact \<Rightarrow> dated_fact \<Rightarrow> bool" where
  "current_le now a b = (fact_fresh now a < fact_fresh now b \<or> fact_fresh now a = fact_fresh now b \<and> fact_ms b \<le> fact_ms a)"

definition newest_le :: "dated_fact \<Rightarrow> dated_fact \<Rightarrow> bool" where
  "newest_le a b = (fact_ms b \<le> fact_ms a)"

interpretation current_first: js_comparator "current_le now"
  by unfold_locales (auto simp: current_le_def)


definition orderCurrentFirst :: "int \<Rightarrow> dated_fact list \<Rightarrow> dated_fact list" where
  "orderCurrentFirst now facts = js_sort (current_le now) facts"

text \<open>The newest fact of each category; of two said at the same instant, the first.\<close>

definition keep_newest :: "(category \<times> dated_fact) list \<Rightarrow> dated_fact \<Rightarrow> (category \<times> dated_fact) list" where
  "keep_newest m f = (case jm_get m (fact_cat f) of None \<Rightarrow> jm_set m (fact_cat f) f
     | Some cur \<Rightarrow> if fact_ms f > fact_ms cur then jm_set m (fact_cat f) f else m)"

definition is_live :: "int \<Rightarrow> dated_fact \<Rightarrow> bool" where
  "is_live now f = (fact_fresh now f = Fresh \<or> fact_fresh now f = Aging)"

definition currentPositions :: "int \<Rightarrow> dated_fact list \<Rightarrow> dated_fact list" where
  "currentPositions now facts = js_sort newest_le (jm_values (foldl keep_newest []
     (filter (\<lambda>f. is_cat (fact_cat f) TIME_BOUND_CATEGORIES \<and> is_live now f) facts)))"

definition DEAL_POSITION_CATEGORIES :: "string list" where
  "DEAL_POSITION_CATEGORIES = [''buying_signal'', ''timeline'', ''blocker'', ''requirement'', ''objection'', ''budget'', ''authority'', ''competitor'']"

definition MULTI_POSITION_CATEGORIES :: "string list" where
  "MULTI_POSITION_CATEGORIES = [''blocker'', ''requirement'']"

definition resolved_blocker :: "dated_fact \<Rightarrow> bool" where
  "resolved_blocker f = (fact_cat f = Cat ''blocker'' \<and> to_lower (js_tostring (js_coalesce (df_status f) (JStr []))) = ''resolved'')"

definition is_position :: "int \<Rightarrow> dated_fact \<Rightarrow> bool" where
  "is_position now f = (is_cat (fact_cat f) DEAL_POSITION_CATEGORIES \<and> is_live now f \<and> \<not> resolved_blocker f)"

definition is_multi :: "dated_fact \<Rightarrow> bool" where
  "is_multi f = is_cat (fact_cat f) MULTI_POSITION_CATEGORIES"

definition dealPosition :: "int \<Rightarrow> dated_fact list \<Rightarrow> dated_fact list" where
  "dealPosition now facts =
     (let ps = filter (is_position now) facts
      in js_sort newest_le (jm_values (foldl keep_newest [] (filter (\<lambda>f. \<not> is_multi f) ps)) @ filter is_multi ps))"

section \<open>The stack\<close>

record tech_group =
  tg_tool :: string
  tg_summary :: string
  tg_facts :: "dated_fact list"

definition TECH_FACTS_PER_TOOL :: nat where "TECH_FACTS_PER_TOOL = 5"

definition fact_tool :: "dated_fact \<Rightarrow> string" where
  "fact_tool f = (case normalizeToolName (df_tool f) of Some t \<Rightarrow> t | None \<Rightarrow> ''Other'')"

definition tool_le :: "string \<times> dated_fact list \<Rightarrow> string \<times> dated_fact list \<Rightarrow> bool" where
  "tool_le a b =
     (let oa = fst a = ''Other''; ob = fst b = ''Other'' in
      (\<not> oa \<and> ob) \<or> (oa = ob \<and> fact_ms (hd (snd b)) \<le> fact_ms (hd (snd a))))"

interpretation named_first: js_comparator tool_le
  by unfold_locales (auto simp: tool_le_def Let_def)

definition techStackGroups :: "dated_fact list \<Rightarrow> tech_group list" where
  "techStackGroups facts =
     map (\<lambda>(tool, list). (let fs = take TECH_FACTS_PER_TOOL list in
            \<lparr>tg_tool = tool, tg_summary = (case fs of [] \<Rightarrow> [] | f # _ \<Rightarrow> js_tostring (js_coalesce (df_content f) (JStr []))), tg_facts = fs\<rparr>))
       (js_sort tool_le
         (map (\<lambda>(tool, list). (tool, js_sort newest_le list))
           (js_group_by fact_tool (filter (\<lambda>f. fact_cat f = Cat ''tech_stack'') facts))))"

section \<open>What was replaced\<close>

record replacement_side =
  rp_category :: string
  rp_content :: string
  rp_said_at :: "string option"

record retired_claim = replacement_side +
  rp_superseded_by :: "string option"
  rp_invalid_at :: "string option"

definition ms_or0 :: "string option \<Rightarrow> int" where
  "ms_or0 s = (case date_parse (str_of s) of None \<Rightarrow> 0 | Some t \<Rightarrow> t)"

record replaced_pair =
  pr_old :: replacement_side
  pr_new :: replacement_side
  pr_tn :: int
  pr_ti :: int

fun pair_up :: "int \<Rightarrow> (string \<Rightarrow> replacement_side option) \<Rightarrow> string list \<Rightarrow> retired_claim list \<Rightarrow> replaced_pair list" where
  "pair_up cutoff successors seen [] = []"
| "pair_up cutoff successors seen (old # rs) =
     (case rp_superseded_by old of None \<Rightarrow> pair_up cutoff successors seen rs
      | Some i \<Rightarrow>
         (case (if i = [] then None else successors i) of None \<Rightarrow> pair_up cutoff successors seen rs
          | Some nx \<Rightarrow>
             (let ti = ms_or0 (rp_invalid_at old); tn = ms_or0 (rp_said_at nx); key = rp_category old @ ''|'' @ rp_content old @ ''|'' @ i in
              if (ti < cutoff \<and> tn < cutoff) \<or> key \<in> set seen then pair_up cutoff successors seen rs
              else \<lparr>pr_old = replacement_side.truncate old, pr_new = nx, pr_tn = tn, pr_ti = ti\<rparr> # pair_up cutoff successors (key # seen) rs)))"

definition pair_le :: "replaced_pair \<Rightarrow> replaced_pair \<Rightarrow> bool" where
  "pair_le a b = (pr_tn b < pr_tn a \<or> (pr_tn a = pr_tn b \<and> pr_ti b \<le> pr_ti a))"

interpretation newest_pair: js_comparator pair_le
  by unfold_locales (auto simp: pair_le_def)

definition pairReplacements :: "int \<Rightarrow> int \<Rightarrow> nat \<Rightarrow> (string \<Rightarrow> replacement_side option) \<Rightarrow> retired_claim list \<Rightarrow> (replacement_side \<times> replacement_side) list" where
  "pairReplacements now windowDays limit successors retired =
     map (\<lambda>p. (pr_old p, pr_new p)) (take limit (js_sort pair_le (pair_up (now - windowDays * day_ms) successors [] retired)))"

section \<open>The facts block of a read\<close>

record context_facts =
  cf_facts :: "dated_fact list"
  cf_position :: "dated_fact list"
  cf_stack :: "tech_group list"
  cf_total :: nat

definition shown_ids :: "int \<Rightarrow> dated_fact list \<Rightarrow> nat list" where
  "shown_ids now facts = map df_id (dealPosition now facts @ concat (map tg_facts (techStackGroups facts)))"

definition shapeContextFacts :: "int \<Rightarrow> nat \<Rightarrow> dated_fact list \<Rightarrow> context_facts" where
  "shapeContextFacts now cap facts =
     (let rest = filter (\<lambda>f. df_id f \<notin> set (shown_ids now facts)) facts
      in \<lparr>cf_facts = take cap (orderCurrentFirst now rest), cf_position = dealPosition now facts,
          cf_stack = techStackGroups facts, cf_total = length rest\<rparr>)"

section \<open>The newest of each topic\<close>

lemma keep_newest_get:
  "jm_get (keep_newest m f) c = (if c = fact_cat f \<and> (case jm_get m c of None \<Rightarrow> True | Some cur \<Rightarrow> fact_ms f > fact_ms cur)
     then Some f else jm_get m c)"
  by (auto simp: keep_newest_def jm_get_set split: option.splits)

text \<open>A category is in the table exactly when a fact has it, and then with one of the newest facts of that category.\<close>

lemma newest_kept:
  "case jm_get (foldl keep_newest [] fs) c of
     None \<Rightarrow> \<forall>g \<in> set fs. fact_cat g \<noteq> c
   | Some f \<Rightarrow> f \<in> set fs \<and> fact_cat f = c \<and> (\<forall>g \<in> set fs. fact_cat g = c \<longrightarrow> fact_ms g \<le> fact_ms f)"
proof (induction fs rule: rev_induct)
  case Nil
  show ?case by simp
next
  case (snoc f fs)
  then show ?case
    by (auto simp: keep_newest_get split: option.splits if_splits)
qed

lemma newest_distinct: "distinct (jm_keys (foldl keep_newest [] fs))"
proof (induction fs rule: rev_induct)
  case Nil
  show ?case by (simp add: jm_keys_def)
next
  case (snoc f fs)
  then show ?case by (auto simp: keep_newest_def jm_distinct_set split: option.splits)
qed

lemma newest_values: "f \<in> set (jm_values (foldl keep_newest [] fs)) \<longleftrightarrow> jm_get (foldl keep_newest [] fs) (fact_cat f) = Some f"
proof -
  let ?m = "foldl keep_newest [] fs"
  have d: "distinct (map fst ?m)" using newest_distinct [of fs] by (simp add: jm_keys_def)
  have "(c, f) \<in> set ?m \<Longrightarrow> c = fact_cat f" for c
    using newest_kept [of fs c] d by (auto simp: jm_get_def split: option.splits)
  then have "f \<in> set (jm_values ?m) \<longleftrightarrow> (fact_cat f, f) \<in> set ?m" by (force simp: jm_values_def)
  then show ?thesis using d by (simp add: jm_get_def)
qed

lemma newest_value_iff:
  "f \<in> set (jm_values (foldl keep_newest [] fs)) \<Longrightarrow> f \<in> set fs \<and> (\<forall>g \<in> set fs. fact_cat g = fact_cat f \<longrightarrow> fact_ms g \<le> fact_ms f)"
  using newest_kept [of fs "fact_cat f"] by (simp add: newest_values)









section \<open>Nothing shown twice, nothing lost\<close>

lemma jm_set_values: "mset (jm_values (jm_set m k v)) \<subseteq># add_mset v (mset (jm_values m))"
  by (induction m k v rule: jm_set.induct) (auto simp: jm_values_def intro: subset_mset.order_trans)

lemma newest_submset: "mset (jm_values (foldl keep_newest [] fs)) \<subseteq># mset fs"
proof (induction fs rule: rev_induct)
  case Nil
  show ?case by (simp add: jm_values_def)
next
  case (snoc f fs)
  let ?m = "foldl keep_newest [] fs"
  have "mset (jm_values (keep_newest ?m f)) \<subseteq># add_mset f (mset (jm_values ?m))"
    using jm_set_values [of ?m "fact_cat f" f] by (auto simp: keep_newest_def split: option.splits)
  then show ?case using snoc by (simp add: subset_mset.order_trans)
qed

lemma position_submset: "mset (dealPosition now facts) \<subseteq># mset (filter (is_position now) facts)"
proof -
  let ?ps = "filter (is_position now) facts"
  have "mset (dealPosition now facts) \<subseteq># mset (filter (\<lambda>f. \<not> is_multi f) ?ps) + mset (filter is_multi ?ps)"
    using newest_submset [of "filter (\<lambda>f. \<not> is_multi f) ?ps"] by (simp add: dealPosition_def Let_def)
  also have "\<dots> = mset ?ps" by (metis mset_filter multiset_partition union_commute)
  finally show ?thesis .
qed

lemma group_mset_from:
  "mset (concat (map snd (group_rows jm_get jm_set key m rs))) = mset (concat (map snd m)) + mset rs"
proof (induction rs arbitrary: m)
  case Nil
  show ?case by simp
next
  case (Cons r rs)
  have "mset (concat (map snd (jm_set m k ((case jm_get m k of None \<Rightarrow> [] | Some g \<Rightarrow> g) @ [r])))) = add_mset r (mset (concat (map snd m)))" for k
    by (induction m) (auto simp: jm_get_def)
  then show ?case using Cons.IH by simp
qed

lemma group_mset: "mset (concat (map snd (js_group_by key rs))) = mset rs"
  by (simp add: js_group_by_def group_mset_from)

lemma concat_take_submset: "mset (concat (map (\<lambda>x. take n (f x)) xs)) \<subseteq># mset (concat (map f xs))"
proof (induction xs)
  case Nil
  show ?case by simp
next
  case (Cons x xs)
  have "mset (take n (f x)) \<subseteq># mset (f x)" by (metis append_take_drop_id mset_append mset_subset_eq_add_left)
  then show ?case using Cons by (simp add: subset_mset.add_mono)
qed

lemma mset_concat_cong: "mset xss = mset yss \<Longrightarrow> mset (concat xss) = mset (concat yss)"
  by (metis mset_concat mset_map sum_mset_sum_list)

lemma stack_submset: "mset (concat (map tg_facts (techStackGroups facts))) \<subseteq># mset (filter (\<lambda>f. fact_cat f = Cat ''tech_stack'') facts)"
proof -
  let ?G = "js_group_by fact_tool (filter (\<lambda>f. fact_cat f = Cat ''tech_stack'') facts)"
  let ?S = "js_sort tool_le (map (\<lambda>(tool, list). (tool, js_sort newest_le list)) ?G)"
  have "map tg_facts (techStackGroups facts) = map (\<lambda>p. take TECH_FACTS_PER_TOOL (snd p)) ?S"
    by (simp add: techStackGroups_def Let_def case_prod_unfold comp_def)
  then have "mset (concat (map tg_facts (techStackGroups facts))) \<subseteq># mset (concat (map snd ?S))"
    using concat_take_submset [of TECH_FACTS_PER_TOOL snd ?S] by simp
  also have "mset (concat (map snd ?S)) = mset (concat (map snd (map (\<lambda>(tool, list). (tool, js_sort newest_le list)) ?G)))"
    by (rule mset_concat_cong) (simp only: mset_map mset_js_sort)
  also have "\<dots> = mset (concat (map snd ?G))"
    by (simp add: mset_concat comp_def case_prod_unfold)
  finally show ?thesis by (simp only: group_mset)
qed

lemma filters_apart:
  assumes "\<And>x. P x \<Longrightarrow> \<not> Q x"
  shows "mset (filter P xs) + mset (filter Q xs) \<subseteq># mset xs"
  using assms by (induction xs) (auto simp: subset_mset.le_add_same_cancel1 intro: subset_mset.order_trans)

lemma shown_submset: "mset (dealPosition now facts @ concat (map tg_facts (techStackGroups facts))) \<subseteq># mset facts"
proof -
  have "is_position now f \<Longrightarrow> fact_cat f \<noteq> Cat ''tech_stack''" for f
    by (auto simp: is_position_def is_cat_def DEAL_POSITION_CATEGORIES_def)
  then have "mset (filter (is_position now) facts) + mset (filter (\<lambda>f. fact_cat f = Cat ''tech_stack'') facts) \<subseteq># mset facts"
    by (intro filters_apart) auto
  then show ?thesis using position_submset [of now facts] stack_submset [of facts]
    by (simp add: subset_mset.order_trans [OF subset_mset.add_mono])
qed

lemma rest_of_shown:
  assumes "distinct (map df_id facts)" and "mset shown \<subseteq># mset facts"
  shows "mset shown + mset (filter (\<lambda>f. df_id f \<notin> set (map df_id shown)) facts) = mset facts"
proof -
  have d: "distinct facts" "inj_on df_id (set facts)" using assms(1) by (simp_all add: distinct_map)
  obtain zs where "mset facts = mset (shown @ zs)" using assms(2) by (metis ex_mset mset_append mset_subset_eq_exists_conv)
  then have sub: "set shown \<subseteq> set facts" and dist: "distinct shown"
    using d(1) by (metis le_sup_iff order_refl set_append set_mset_mset, metis distinct_append mset_eq_imp_distinct_iff)
  have same: "df_id f \<in> set (map df_id shown) \<longleftrightarrow> f \<in> set shown" if "f \<in> set facts" for f
    using that sub d(2) by (auto dest: inj_onD)
  let ?rest = "filter (\<lambda>f. df_id f \<notin> set (map df_id shown)) facts"
  have "set (shown @ ?rest) = set facts" using sub same by auto
  moreover have "distinct (shown @ ?rest)" using dist d(1) by auto
  ultimately have "mset (shown @ ?rest) = mset facts" using d(1) by (metis set_eq_iff_mset_eq_distinct)
  then show ?thesis by simp
qed

text \<open>C38: A read of an account's facts pays for nothing twice and loses nothing. The position, the stack and the other facts
  it returns, with the ones it leaves out, are exactly the facts it was handed; what it leaves out is what the cap cuts off
  the other facts, the total counts these before the cut, and nothing cut reads before anything shown.\<close>

lemma context_loses_no_fact:
  assumes "distinct (map df_id facts)"
  shows "\<exists>hidden. mset (cf_position (shapeContextFacts now cap facts) @ concat (map tg_facts (cf_stack (shapeContextFacts now cap facts)))
        @ cf_facts (shapeContextFacts now cap facts) @ hidden) = mset facts
    \<and> length (cf_facts (shapeContextFacts now cap facts)) = min cap (cf_total (shapeContextFacts now cap facts))
    \<and> length hidden = cf_total (shapeContextFacts now cap facts) - cap
    \<and> (\<forall>f \<in> set (cf_facts (shapeContextFacts now cap facts)). \<forall>h \<in> set hidden. current_le now f h)"
proof -
  let ?c = "shapeContextFacts now cap facts"
  let ?shown = "dealPosition now facts @ concat (map tg_facts (techStackGroups facts))"
  define rest where "rest = filter (\<lambda>f. df_id f \<notin> set (map df_id ?shown)) facts"
  define order where "order = orderCurrentFirst now rest"
  have c: "cf_facts ?c = take cap order" "cf_position ?c = dealPosition now facts" "cf_stack ?c = techStackGroups facts"
    "cf_total ?c = length order"
    by (simp_all add: shapeContextFacts_def Let_def order_def rest_def orderCurrentFirst_def shown_ids_def)
  have "mset ?shown + mset rest = mset facts" unfolding rest_def by (rule rest_of_shown [OF assms shown_submset])
  moreover have "mset order = mset rest" by (simp add: order_def orderCurrentFirst_def)
  moreover have "mset (take cap order) + mset (drop cap order) = mset order" by (metis append_take_drop_id mset_append)
  ultimately have all: "mset (cf_position ?c @ concat (map tg_facts (cf_stack ?c)) @ cf_facts ?c @ drop cap order) = mset facts"
    by (simp only: c mset_append add.assoc)
  have "sorted_wrt (current_le now) (take cap order @ drop cap order)"
    by (simp add: order_def orderCurrentFirst_def current_first.sort_sorted)
  then have "\<forall>f \<in> set (take cap order). \<forall>h \<in> set (drop cap order). current_le now f h"
    unfolding sorted_wrt_append by blast
  with all show ?thesis by (intro exI [of _ "drop cap order"]) (simp add: c)
qed

text \<open>Two facts about the deal, a stack of one tool, an expired aside, read with room for one other fact.\<close>

definition sample_facts :: "dated_fact list" where
  "sample_facts =
    [\<lparr>df_id = 0, df_category = ''Buying Signal'', df_date = Some ''2026-03-01'', df_status = JUndef, df_tool = None, df_content = JStr ''wants it''\<rparr>,
     \<lparr>df_id = 1, df_category = ''blocker'', df_date = Some ''2026-03-02'', df_status = JStr ''Resolved'', df_tool = None, df_content = JStr ''legal''\<rparr>,
     \<lparr>df_id = 2, df_category = ''tech_stack'', df_date = Some ''2026-02-01'', df_status = JUndef, df_tool = Some ''hub spot'', df_content = JStr ''on HubSpot''\<rparr>,
     \<lparr>df_id = 3, df_category = ''goal'', df_date = Some ''2025-01-01'', df_status = JUndef, df_tool = None, df_content = JStr ''grow''\<rparr>]"

lemma context_loses_no_fact_witness:
  "distinct (map df_id sample_facts) \<and>
   (\<exists>hidden. mset (cf_position (shapeContextFacts 1772500000000 1 sample_facts)
        @ concat (map tg_facts (cf_stack (shapeContextFacts 1772500000000 1 sample_facts)))
        @ cf_facts (shapeContextFacts 1772500000000 1 sample_facts) @ hidden) = mset sample_facts)"
  using context_loses_no_fact [of sample_facts 1772500000000 1] by (simp add: sample_facts_def) blast

section \<open>Ageing\<close>

text \<open>The tables cover the taxonomy: every category has a half-life of its own, and the topics a later claim can replace are categories.\<close>

lemma half_lives_cover: "set (map fst HALF_LIFE_DAYS) = set CLAIM_CATEGORY_KEYS"
  by code_simp

lemma topics_are_categories: "set (TIME_BOUND_CATEGORIES @ DEAL_POSITION_CATEGORIES) \<subseteq> set CLAIM_CATEGORY_KEYS"
  "set DEAL_POSITION_CATEGORIES \<subseteq> set TIME_BOUND_CATEGORIES" "set MULTI_POSITION_CATEGORIES \<subseteq> set DEAL_POSITION_CATEGORIES"
  by code_simp+

lemma halfLifeDays_pos: "0 < halfLifeDays s"
proof -
  have "\<forall>d \<in> set (map snd HALF_LIFE_DAYS). 0 < d" by code_simp
  then have "map_of HALF_LIFE_DAYS k = Some d \<Longrightarrow> 0 < d" for k d by (metis map_of_SomeD in_set_zipE zip_map_fst_snd)
  then show ?thesis by (auto simp: halfLifeDays_def split: category.splits option.splits)
qed

text \<open>A claim only ages; one without a date is suspect at once and stays so.\<close>

lemma only_ages: "now \<le> later \<Longrightarrow> noteFreshness c d now \<le> noteFreshness c d later"
proof -
  assume le: "now \<le> later"
  define hl where "hl = halfLifeDays c * day_ms"
  have "0 < hl" using halfLifeDays_pos [of c] by (simp add: hl_def)
  with le show ?thesis
    by (auto simp: noteFreshness_def Let_def hl_def [symmetric] less_eq_freshness_def TIER_def split: option.splits)
qed

lemma positions_live: "f \<in> set (currentPositions now facts) \<Longrightarrow> f \<in> set facts \<and> is_live now f \<and> is_cat (fact_cat f) TIME_BOUND_CATEGORIES"
  by (auto simp: currentPositions_def dest!: newest_value_iff)

lemma deal_position_is_current_topic: "f \<in> set (dealPosition now facts) \<Longrightarrow> isTimeBound (Some (df_category f))"
proof -
  assume "f \<in> set (dealPosition now facts)"
  then have "is_position now f" using position_submset [of now facts] by (auto dest!: mset_subset_eqD)
  then show ?thesis using topics_are_categories(2)
    by (auto simp: is_position_def isTimeBound_def fact_cat_def is_cat_def split: category.splits)
qed

text \<open>At most the limit of replacements, each once, newest first.\<close>

lemma pairs_limited: "length (pairReplacements now d limit successors retired) \<le> limit"
  by (simp add: pairReplacements_def)

lemma pair_up_inside:
  "p \<in> set (pair_up cutoff successors seen rs) \<Longrightarrow> cutoff \<le> pr_ti p \<or> cutoff \<le> pr_tn p"
  by (induction cutoff successors seen rs rule: pair_up.induct) (auto simp: Let_def not_less split: option.splits if_splits)

lemma pair_up_needs_both:
  "p \<in> set (pair_up cutoff successors seen rs) \<Longrightarrow>
   \<exists>old i. old \<in> set rs \<and> rp_superseded_by old = Some i \<and> i \<noteq> [] \<and> successors i = Some (pr_new p) \<and> pr_old p = replacement_side.truncate old"
  by (induction cutoff successors seen rs rule: pair_up.induct) (fastforce simp: Let_def split: option.splits if_splits)+

end
