(* ===== verification/WebhookGuard.thy ===== *)
theory WebhookGuard
  imports Egress
begin

text \<open>
  The copy of the outbound guard that the automations' webhook steps use when the app registered none,
  \<^verbatim>\<open>packages/core/src/services/automationRun.mjs\<close> (\<open>isPrivateIp\<close>, \<open>assertPublicWebhookUrl\<close>, \<open>guardedFetch\<close>), and how far it is in
  step with the guard of the api.
\<close>

section \<open>Private addresses\<close>

definition is_hex :: "char \<Rightarrow> bool" where
  "is_hex c = in_ranges c [(CHR ''0'', CHR ''9''), (CHR ''a'', CHR ''f'')]"

definition hex_digit :: "char \<Rightarrow> int" where
  "hex_digit c = (if is_digit c then of_char c - 48 else of_char c - 87)"

definition hex_val :: "string \<Rightarrow> int" where
  "hex_val s = foldl (\<lambda>n c. 16 * n + hex_digit c) 0 s"

text \<open>The two groups of \<open>^([0-9a-f]{1,4}):([0-9a-f]{1,4})$\<close>, as numbers.\<close>

definition hex_pair :: "string \<Rightarrow> (int \<times> int) option" where
  "hex_pair s = (case split_on CHR '':'' s of
     [x, y] \<Rightarrow> if list_all (\<lambda>g. 1 \<le> length g \<and> length g \<le> 4 \<and> list_all is_hex g) [x, y] then Some (hex_val x, hex_val y) else None
   | _ \<Rightarrow> None)"

definition private_v4_text :: "string \<Rightarrow> bool" where
  "private_v4_text ip = private_v4 (octets ip ! 0) (octets ip ! 1)"

definition dotted :: "int \<Rightarrow> int \<Rightarrow> string" where
  "dotted hi lo = show_int (hi div 256) @ ''.'' @ show_int (hi mod 256) @ ''.'' @ show_int (lo div 256) @ ''.'' @ show_int (lo mod 256)"

text \<open>The calls on the mapped address are on an IPv4 address, so on the first branch.\<close>

definition isPrivateIpCore :: "string \<Rightarrow> bool" where
  "isPrivateIpCore ip =
     (if is_ipv4 ip then private_v4_text ip
      else (let low = to_lower ip in
        if low = ''::1'' \<or> low = ''::'' then True
        else if starts_with ''fe80'' low \<or> starts_with ''fc'' low \<or> starts_with ''fd'' low then True
        else if starts_with ''::ffff:'' low then
          (let v4 = drop 7 low in
           if is_ipv4 v4 then private_v4_text v4
           else (case hex_pair v4 of Some (hi, lo) \<Rightarrow> private_v4_text (dotted hi lo) | None \<Rightarrow> False))
        else False))"

section \<open>The guard\<close>

text \<open>\<open>replace(/^\[|\]$/g, '')\<close>: an IPv6 host without its brackets.\<close>

definition strip_brackets :: "string \<Rightarrow> string" where
  "strip_brackets h = (let t = (if starts_with ''['' h then drop 1 h else h) in if ends_with '']'' t then butlast t else t)"

definition assertPublicWebhookUrl ::
  "(string \<Rightarrow> url option) \<Rightarrow> (string \<Rightarrow> bool) \<Rightarrow> (string \<Rightarrow> string list option) \<Rightarrow> string \<Rightarrow> url_error + url" where
  "assertPublicWebhookUrl parse is_ipv6 lookup rawUrl =
     (case parse rawUrl of None \<Rightarrow> Inl InvalidUrl
      | Some u \<Rightarrow>
         if u_protocol u \<noteq> ''https:'' \<and> u_protocol u \<noteq> ''http:'' then Inl BlockedProtocol
         else (let host = strip_brackets (u_hostname u) in
           if is_ipv4 host \<or> is_ipv6 host then
             (if isPrivateIpCore host then Inl BlockedPrivate else Inr u)
           else if host = ''localhost'' \<or> ends_with ''.internal'' host \<or> ends_with ''.local'' host
             \<or> \<not> js_includes ''.'' host then Inl BlockedInternalHost
           else (case lookup host of None \<Rightarrow> Inl DnsFailed
             | Some results \<Rightarrow>
                 if results = [] then Inl DnsFailed
                 else if list_ex isPrivateIpCore results then Inl BlockedPrivate
                 else Inr u)))"

definition guardedFetch ::
  "(nat \<Rightarrow> string \<Rightarrow> url_error + url) \<Rightarrow> (nat \<Rightarrow> string \<Rightarrow> http_response option)
    \<Rightarrow> (string \<Rightarrow> string \<Rightarrow> string option) \<Rightarrow> nat \<Rightarrow> string \<Rightarrow> (fetch_error + http_response) \<times> string list" where
  "guardedFetch guard get resolve maxRedirects rawUrl =
     (case guard 0 rawUrl of Inl e \<Rightarrow> (Inl (UrlError e), [])
      | Inr u \<Rightarrow> fetch_hops guard get resolve (Suc maxRedirects) 0 (u_href u))"

section \<open>In step with the api\<close>

lemma copies_agree_on_v4: "is_ipv4 ip \<Longrightarrow> isPrivateIpCore ip = isPrivateIp ip"
  by (simp add: isPrivateIpCore_def private_v4_text_def isPrivateIp.simps)

text \<open>On names and IPv4 addresses, resolved to IPv4 addresses, the copies answer alike.\<close>

lemma copies_agree:
  assumes "\<And>u. parse raw = Some u \<Longrightarrow> strip_brackets (u_hostname u) = u_hostname u \<and> \<not> is_ipv6 (u_hostname u)" "\<And>h ips. lookup h = Some ips \<Longrightarrow> list_all is_ipv4 ips"
  shows "assertPublicWebhookUrl parse is_ipv6 lookup raw = assertPublicUrl parse is_ipv6 lookup raw"
proof -
  have "list_ex isPrivateIpCore ips = list_ex isPrivateIp ips" if "lookup h = Some ips" for h ips
    using assms(2) [OF that] copies_agree_on_v4 by (auto simp: list_ex_iff list_all_iff)
  then show ?thesis
    using assms(1) unfolding assertPublicWebhookUrl_def assertPublicUrl_def
    by (auto simp: Let_def copies_agree_on_v4 split: option.splits)
qed

text \<open>On an IPv6 host they do not. The api's guard leaves the brackets on and so refuses every such host as a name without a dot;
  the copy takes them off and judges the address.\<close>

definition v6_url :: "string \<Rightarrow> url option" where
  "v6_url raw = Some \<lparr>u_protocol = ''https:'', u_hostname = ''[2606:4700::1111]'', u_hash = [], u_href = raw\<rparr>"

lemma v6_hosts_differ:
  "assertPublicUrl v6_url (\<lambda>h. h = ''2606:4700::1111'') (\<lambda>h. None) raw = Inl BlockedInternalHost
   \<and> assertPublicWebhookUrl v6_url (\<lambda>h. h = ''2606:4700::1111'') (\<lambda>h. None) raw = Inr (the (v6_url raw))"
proof -
  have "is_ipv4 ''[2606:4700::1111]'' = False" "js_includes ''.'' ''[2606:4700::1111]'' = False" "is_ipv4 ''2606:4700::1111'' = False"
    "strip_brackets ''[2606:4700::1111]'' = ''2606:4700::1111''" "isPrivateIpCore ''2606:4700::1111'' = False" by code_simp+
  then show ?thesis by (simp add: assertPublicUrl_def assertPublicWebhookUrl_def v6_url_def)
qed

text \<open>A mapped IPv4 address in hexadecimal: only the copy reads it back.\<close>

lemma mapped_hex_differs: "isPrivateIpCore ''::ffff:7f00:1'' \<and> \<not> isPrivateIp ''::ffff:7f00:1''"
proof
  have "hex_pair ''7f00:1'' = Some (32512, 1)" by code_simp
  moreover have "dotted 32512 1 = ''127.0.0.1''" by code_simp
  moreover have "private_v4_text ''127.0.0.1''" "\<not> is_ipv4 ''::ffff:7f00:1''" "\<not> is_ipv4 ''7f00:1''" "to_lower ''::ffff:7f00:1'' = ''::ffff:7f00:1''"
    by code_simp+
  ultimately show "isPrivateIpCore ''::ffff:7f00:1''"
    by (simp add: isPrivateIpCore_def starts_with_def)
  show "\<not> isPrivateIp ''::ffff:7f00:1''" by code_simp
qed

end
