(* ===== verification/AutomationRun.thy ===== *)
theory AutomationRun
  imports JsRegex JsNumber Egress
begin

text \<open>
  How an automation's steps run and wait for a person, \<^verbatim>\<open>packages/core/src/services/automationRun.mjs\<close>: the rules
  of an Only-if, which steps act outside, the plan, one pass over the steps with its pauses, the review of a pause, and the
  decision that resumes a run. What a step does when it is let through (a model call, a send, a write) is the argument
  \<open>fe_act\<close>, by the step's index, with the reviewer's decision it is given; \<open>ext\<close> is the registered extension. The words of
  messages and previews are left out, and numbers are exact. The file's copy of the address guard is in \<open>WebhookGuard\<close>.
\<close>

section \<open>Only if\<close>

definition number_of :: "string \<Rightarrow> rat option" where
  "number_of x = str_number (filter (\<lambda>c. in_ranges c [(CHR ''0'', CHR ''9''), (CHR ''.'', CHR ''.''), (CHR ''-'', CHR ''-'')]) x)"

text \<open>\<open>vars f\<close> is the value of the run's variable \<open>f\<close>.\<close>

definition rulePasses :: "jsval \<Rightarrow> (string \<Rightarrow> jsval) \<Rightarrow> bool" where
  "rulePasses rule vars =
     (let raw = vars (js_tostring (js_prop rule ''field''));
          v = (if js_nullish raw then [] else js_trim (js_tostring raw));
          want = js_trim (js_tostring (js_coalesce (js_prop rule ''value'') (JStr [])));
          compare = (\<lambda>p. v \<noteq> [] \<and> (case (number_of v, number_of want) of (Some a, Some b) \<Rightarrow> p a b | _ \<Rightarrow> False))
      in case js_prop rule ''op'' of
           JStr oper \<Rightarrow>
             (if oper = ''set'' then v \<noteq> []
              else if oper = ''not_set'' then v = []
              else if oper = ''is'' then to_lower v = to_lower want
              else if oper = ''is_not'' then to_lower v \<noteq> to_lower want
              else if oper = ''contains'' then js_includes (to_lower want) (to_lower v)
              else if oper = ''gt'' then compare (\<lambda>a b. b < a)
              else if oper = ''lt'' then compare (\<lambda>a b. a < b)
              else False)
         | _ \<Rightarrow> False)"

definition rulesPass :: "jsval \<Rightarrow> (string \<Rightarrow> jsval) \<Rightarrow> bool" where
  "rulesPass config vars =
     (let rules = filter (\<lambda>r. js_truthy (js_prop r ''field'')) (js_elems (js_prop config ''rules'')) in
      rules = [] \<or> (if js_prop config ''match'' = JStr ''any'' then list_ex (\<lambda>r. rulePasses r vars) rules
                      else list_all (\<lambda>r. rulePasses r vars) rules))"

section \<open>Steps and the plan\<close>

record auto_step =
  as_id :: "string option"
  as_type :: string
  as_config :: jsval

record ext_step =
  xs_action :: bool
  xs_read :: bool
  xs_holds :: bool

type_synonym extension = "string \<Rightarrow> ext_step option"

definition cfg :: "auto_step \<Rightarrow> string \<Rightarrow> jsval" where
  "cfg st k = js_prop (as_config st) k"

definition is_mail_step :: "auto_step \<Rightarrow> bool" where
  "is_mail_step st = (as_type st = ''gmail'' \<or> as_type st = ''email'')"

definition draftsItself :: "auto_step \<Rightarrow> auto_step list \<Rightarrow> bool" where
  "draftsItself st steps = (as_type st = ''agent'' \<and> cfg st ''mode'' = JStr ''pick'' \<and> cfg st ''job'' = JStr ''follow_up''
     \<and> cfg st ''model'' = JStr ''opennous'' \<and> cfg st ''draft_in'' \<noteq> JStr ''none'' \<and> \<not> list_ex is_mail_step steps)"

definition ACTION_STEPS :: "string list" where
  "ACTION_STEPS = [''email'', ''gmail'', ''webhook'', ''slack'', ''hubspot'', ''__followup_draft'']"

definition isActionStep :: "extension \<Rightarrow> auto_step \<Rightarrow> bool" where
  "isActionStep ext st = (as_type st \<in> set ACTION_STEPS \<or> (case ext (as_type st) of None \<Rightarrow> False | Some x \<Rightarrow> xs_action x))"

definition isRead :: "extension \<Rightarrow> auto_step \<Rightarrow> bool" where
  "isRead ext st = ((as_type st = ''hubspot'' \<and> cfg st ''action'' = JStr ''read'')
     \<or> (case ext (as_type st) of None \<Rightarrow> False | Some x \<Rightarrow> xs_read x))"

definition followup_step :: auto_step where
  "followup_step = \<lparr>as_id = None, as_type = ''__followup_draft'', as_config = JObj []\<rparr>"

definition followAt :: "auto_step list \<Rightarrow> nat option" where
  "followAt steps = find_index (\<lambda>x. draftsItself x steps) steps"

definition run_plan :: "auto_step list \<Rightarrow> auto_step list" where
  "run_plan steps = (case followAt steps of None \<Rightarrow> steps
     | Some i \<Rightarrow> take (Suc i) steps @ [followup_step] @ drop (Suc i) steps)"

definition shownAt :: "auto_step list \<Rightarrow> nat \<Rightarrow> nat" where
  "shownAt steps i = (case followAt steps of None \<Rightarrow> i | Some k \<Rightarrow> if i > k then i - 1 else i)"

definition sendFromOf :: "auto_step list \<Rightarrow> auto_step \<Rightarrow> jsval" where
  "sendFromOf steps st =
     (if as_type st = ''__followup_draft''
      then (case List.find (\<lambda>x. draftsItself x steps) steps of Some x \<Rightarrow> cfg x ''send_from'' | None \<Rightarrow> JUndef)
      else cfg st ''send_from'')"

definition from_smtp :: "auto_step list \<Rightarrow> auto_step \<Rightarrow> bool" where
  "from_smtp steps st = (js_prop (sendFromOf steps st) ''kind'' = JStr ''smtp'')"

definition is_card :: "auto_step \<Rightarrow> bool" where
  "is_card st = (as_type st = ''slack''
     \<and> to_lower (js_trim (js_tostring (js_coalesce (cfg st ''format'') (JStr [])))) = ''approval'')"

definition holdsSend :: "extension \<Rightarrow> auto_step \<Rightarrow> bool" where
  "holdsSend ext st = (as_type st \<in> set [''email'', ''gmail'', ''webhook'', ''slack'', ''__followup_draft'']
     \<or> (case ext (as_type st) of None \<Rightarrow> False | Some x \<Rightarrow> xs_holds x)
     \<or> (as_type st = ''hubspot'' \<and> cfg st ''action'' \<noteq> JStr ''read''))"

text \<open>Whether a step waits for a person, unless it has been decided: \<open>gated\<close> says that an approval stands above it.\<close>

definition asks :: "extension \<Rightarrow> auto_step list \<Rightarrow> bool \<Rightarrow> auto_step \<Rightarrow> bool" where
  "asks ext steps gated st = (isActionStep ext st \<and> \<not> isRead ext st
     \<and> (gated \<or> cfg st ''approval'' = JBool True \<or> as_type st = ''hubspot'' \<or> as_type st = ''__followup_draft'' \<or> from_smtp steps st))"

section \<open>Decisions\<close>

text \<open>What the reviewer sent: an object keyed by the index as text. A falsy entry is none.\<close>

type_synonym decisions = "(string \<times> jsval) list"

definition decision_at :: "decisions \<Rightarrow> nat \<Rightarrow> jsval option" where
  "decision_at ds i = (case map_of ds (show_nat i) of None \<Rightarrow> None | Some d \<Rightarrow> if js_truthy d then Some d else None)"

definition skips :: "jsval \<Rightarrow> bool" where
  "skips d = (js_prop d ''approve'' = JBool False)"

definition approve_all :: "nat list \<Rightarrow> decisions" where
  "approve_all is = map (\<lambda>i. (show_nat i, JObj [(''approve'', JBool True)])) is"

section \<open>One pass over the steps\<close>

datatype act_result = Did "string list" | ActStops "string list" string | ActThrows string | ActHeld "string list"

record flow_env =
  fe_ext :: extension
  fe_act :: "nat \<Rightarrow> auto_step \<Rightarrow> jsval option \<Rightarrow> act_result"
  fe_vars :: "nat \<Rightarrow> string \<Rightarrow> jsval"
  fe_slack :: bool
    \<comment> \<open>a Slack handler is registered\<close>
  fe_hold :: bool
    \<comment> \<open>a test with its sends held\<close>
  fe_scope :: "string option"
    \<comment> \<open>why the scope of a scoped routine could not be read\<close>

record run_line =
  ll_step :: nat
  ll_type :: "string option"
  ll_status :: string

record pass_state =
  ps_gated :: bool
  ps_card :: bool
  ps_log :: "run_line list"
  ps_done :: "string list"
  ps_ran :: "(nat \<times> jsval option) list"
    \<comment> \<open>a ghost: the steps let through, with their decisions\<close>

definition add_note :: "auto_step list \<Rightarrow> nat \<Rightarrow> auto_step \<Rightarrow> string \<Rightarrow> pass_state \<Rightarrow> pass_state" where
  "add_note steps i st status ps =
     (if as_type st = ''__followup_draft'' \<and> ps_log ps \<noteq> [] \<and> status = ''ok'' then ps
      else ps\<lparr>ps_log := ps_log ps @ [\<lparr>ll_step = Suc (shownAt steps i), ll_type = Some (as_type st), ll_status = status\<rparr>]\<rparr>)"

text \<open>The review of a pause: the waiting step and those after it that would wait too, up to the next AI step, rule or wait.\<close>

fun bundle_from :: "extension \<Rightarrow> auto_step list \<Rightarrow> decisions \<Rightarrow> bool \<Rightarrow> nat \<Rightarrow> auto_step list \<Rightarrow> nat list" where
  "bundle_from ext steps ds g j [] = []"
| "bundle_from ext steps ds g j (st # rest) =
     (if as_type st = ''agent'' \<or> as_type st = ''only_if'' \<or> as_type st = ''wait'' then []
      else if as_type st = ''approval'' then bundle_from ext steps ds True (Suc j) rest
      else if asks ext steps g st \<and> decision_at ds j = None then j # bundle_from ext steps ds g (Suc j) rest
      else bundle_from ext steps ds g (Suc j) rest)"

datatype pass_end = PausedAt nat "nat list" | Finished | StoppedFor string bool | Threw string

fun pass :: "flow_env \<Rightarrow> auto_step list \<Rightarrow> nat \<Rightarrow> decisions \<Rightarrow> nat \<Rightarrow> auto_step list \<Rightarrow> pass_state \<Rightarrow> pass_end \<times> pass_state" where
  "pass env steps start ds i [] ps = (Finished, ps)"
| "pass env steps start ds i (st # rest) ps =
     (if i < start then
        (let ps1 = (if is_card st then ps\<lparr>ps_card := True, ps_gated := True\<rparr> else ps);
             ps2 = (if as_type st = ''approval'' then ps1\<lparr>ps_gated := True\<rparr> else ps1)
         in pass env steps start ds (Suc i) rest ps2)
      else
       (let dec = decision_at ds i in
        if dec = None \<and> \<not> fe_hold env \<and> asks (fe_ext env) steps (ps_gated ps) st
        then (PausedAt i (bundle_from (fe_ext env) steps ds (ps_gated ps) i (st # rest)), add_note steps i st ''waiting'' ps)
        else if (case dec of Some d \<Rightarrow> skips d | None \<Rightarrow> False)
        then pass env steps start ds (Suc i) rest (add_note steps i st ''skipped'' ps)
        else if fe_hold env \<and> holdsSend (fe_ext env) st
        then pass env steps start ds (Suc i) rest (add_note steps i st ''held'' ps)
        else if as_type st = ''approval'' then pass env steps start ds (Suc i) rest (ps\<lparr>ps_gated := True\<rparr>)
        else if is_card st \<and> \<not> fe_slack env
        then (StoppedFor ''slack_not_available_here'' True, add_note steps i st ''failed'' ps)
        else if is_card st
        then pass env steps start ds (Suc i) rest (add_note steps i st ''ok'' (ps\<lparr>ps_card := True, ps_gated := True\<rparr>))
        else if as_type st = ''only_if'' \<and> \<not> rulesPass (as_config st) (fe_vars env i)
        then (StoppedFor ''condition_not_met'' False, add_note steps i st ''stopped'' ps)
        else if as_type st = ''only_if'' then pass env steps start ds (Suc i) rest (add_note steps i st ''ok'' ps)
        else
         (let ps1 = ps\<lparr>ps_ran := ps_ran ps @ [(i, dec)]\<rparr> in
          case fe_act env i st dec of
            Did tokens \<Rightarrow> pass env steps start ds (Suc i) rest (add_note steps i st ''ok'' (ps1\<lparr>ps_done := ps_done ps1 @ tokens\<rparr>))
          | ActHeld tokens \<Rightarrow> pass env steps start ds (Suc i) rest (add_note steps i st ''held'' (ps1\<lparr>ps_done := ps_done ps1 @ tokens\<rparr>))
          | ActStops tokens r \<Rightarrow> (StoppedFor r (r \<noteq> ''condition_not_met''),
              add_note steps i st (if r = ''condition_not_met'' then ''stopped'' else ''failed'') (ps1\<lparr>ps_done := ps_done ps1 @ tokens\<rparr>))
          | ActThrows m \<Rightarrow> (Threw m, ps1))))"

definition runSteps :: "flow_env \<Rightarrow> auto_step list \<Rightarrow> nat \<Rightarrow> decisions \<Rightarrow> pass_end \<times> pass_state" where
  "runSteps env steps start ds =
     (let ps = \<lparr>ps_gated = False, ps_card = False, ps_log = [], ps_done = [], ps_ran = []\<rparr> in
      case fe_scope env of
        Some reason \<Rightarrow> (StoppedFor reason (reason \<noteq> ''condition_not_met''),
          (case drop start (run_plan steps) @ run_plan steps of
             [] \<Rightarrow> ps\<lparr>ps_log := [\<lparr>ll_step = Suc start, ll_type = None, ll_status = (if reason = ''condition_not_met'' then ''stopped'' else ''failed'')\<rparr>]\<rparr>
           | st # _ \<Rightarrow> add_note steps start st (if reason = ''condition_not_met'' then ''stopped'' else ''failed'') ps))
      | None \<Rightarrow> pass env steps start ds 0 (run_plan steps) ps)"

section \<open>A run's row\<close>

record run_row =
  rw_status :: string
  rw_index :: nat
  rw_bundle :: "nat list"
  rw_card :: "(nat \<times> string) option"
    \<comment> \<open>the Slack card of the pause: its index and nonce\<close>
  rw_steps :: "auto_step list"
  rw_partial :: bool
  rw_log :: "run_line list"
  rw_ran :: "(nat \<times> jsval option \<times> nat list) list"
    \<comment> \<open>a ghost: the steps let through so far, with their decisions and what that review showed\<close>

text \<open>The card is posted when the run pauses behind one; \<open>posted i\<close> is its nonce when Slack took it.\<close>

definition card_of :: "(nat \<Rightarrow> string option) \<Rightarrow> nat \<Rightarrow> pass_state \<Rightarrow> (nat \<times> string) option" where
  "card_of posted i ps = (if ps_card ps then map_option (\<lambda>n. (i, n)) (posted i) else None)"

definition merged_log :: "run_line list \<Rightarrow> run_line list \<Rightarrow> run_line list" where
  "merged_log old new =
     (let before = filter (\<lambda>x. ll_status x \<noteq> ''waiting'') old
      in before @ filter (\<lambda>x. \<not> list_ex (\<lambda>b. ll_step b = ll_step x) before) new)"

definition runOutcome :: "(nat \<Rightarrow> string option) \<Rightarrow> auto_step list \<Rightarrow> nat list \<Rightarrow> run_line list \<Rightarrow> pass_end \<times> pass_state \<Rightarrow> run_row \<Rightarrow> run_row" where
  "runOutcome posted steps shown old_log out row =
     (let ps = snd out;
          row1 = row\<lparr>rw_ran := rw_ran row @ map (\<lambda>(j, d). (j, d, shown)) (ps_ran ps)\<rparr>;
          row2 = row1\<lparr>rw_log := merged_log old_log (ps_log ps)\<rparr>
      in case fst out of
           PausedAt i b \<Rightarrow> row2\<lparr>rw_status := ''awaiting_approval'', rw_index := i, rw_bundle := b, rw_card := card_of posted i ps,
             rw_steps := steps, rw_partial := False\<rparr>
         | StoppedFor r failed \<Rightarrow> row2\<lparr>rw_status := (if failed then ''error'' else ''ok'')\<rparr>
         | Finished \<Rightarrow> row2\<lparr>rw_status := ''ok''\<rparr>
         | Threw m \<Rightarrow> row1\<lparr>rw_status := ''error''\<rparr>)"

definition first_run :: "flow_env \<Rightarrow> (nat \<Rightarrow> string option) \<Rightarrow> auto_step list \<Rightarrow> run_row" where
  "first_run env posted steps = runOutcome posted steps [] [] (runSteps env steps 0 [])
     \<lparr>rw_status = ''running'', rw_index = 0, rw_bundle = [], rw_card = None, rw_steps = steps, rw_partial = False, rw_log = [], rw_ran = []\<rparr>"

section \<open>The review\<close>

definition shown_of :: "run_row \<Rightarrow> nat list" where
  "shown_of row = (if rw_bundle row \<noteq> [] then rw_bundle row else [rw_index row])"

definition shownDecisions :: "run_row \<Rightarrow> decisions option \<Rightarrow> decisions option" where
  "shownDecisions row ds = map_option (filter (\<lambda>(k, d). k \<in> set (map show_nat (shown_of row)))) ds"

definition pauseMatches :: "run_row \<Rightarrow> (nat \<times> string) option \<Rightarrow> bool" where
  "pauseMatches row p = (case (rw_card row, p) of
     (Some c, Some (i, nonce)) \<Rightarrow> snd c = nonce \<and> fst c = i \<and> rw_index row = i
   | _ \<Rightarrow> False)"

datatype decide_answer = NotWaiting | StaleCard | AlreadyDecided | AutomationDeleted | DecidedAs string

record verdict =
  vd_approve :: bool
  vd_decisions :: "decisions option"
  vd_slack :: bool
  vd_pause :: "(nat \<times> string) option"
  vd_exists :: bool
    \<comment> \<open>the automation is still there\<close>

text \<open>\<open>read\<close> is the row as it was read, \<open>row\<close> as it is when the claim is made: other requests may come between. From then on the
  run is this request's.\<close>

definition decideAutomationRun ::
  "flow_env \<Rightarrow> (nat \<Rightarrow> string option) \<Rightarrow> verdict \<Rightarrow> run_row \<Rightarrow> run_row \<Rightarrow> decide_answer \<times> run_row" where
  "decideAutomationRun env posted v read row =
     (if rw_status read \<noteq> ''awaiting_approval'' then (NotWaiting, row)
      else if vd_slack v \<and> \<not> pauseMatches read (vd_pause v) then (StaleCard, row)
      else if rw_status row \<noteq> ''awaiting_approval'' \<or> (vd_slack v \<and> Some (rw_index row) \<noteq> map_option fst (vd_pause v)) then (AlreadyDecided, row)
      else if \<not> vd_approve v then (DecidedAs ''rejected'', row\<lparr>rw_status := ''rejected''\<rparr>)
      else if \<not> vd_exists v then (AutomationDeleted, row\<lparr>rw_status := ''error''\<rparr>)
      else
       (let ds = (case shownDecisions read (vd_decisions v) of Some d \<Rightarrow> d | None \<Rightarrow> approve_all (shown_of read));
            row' = runOutcome posted (rw_steps read) (shown_of read) (rw_log read) (runSteps env (rw_steps read) (rw_index read) ds)
                     (row\<lparr>rw_status := ''running''\<rparr>)
        in (DecidedAs (rw_status row'), row')))"

text \<open>A review half done is kept on the row; it is written with the state that was read.\<close>

definition saveApprovalChoices :: "run_row \<Rightarrow> run_row \<Rightarrow> run_row" where
  "saveApprovalChoices read row =
     (if rw_status read = ''awaiting_approval'' \<and> rw_status row = ''awaiting_approval''
      then row\<lparr>rw_bundle := rw_bundle read, rw_card := rw_card read, rw_steps := rw_steps read, rw_partial := True\<rparr> else row)"

text \<open>The life of a run. The row may have changed between a request's reading it and its claim: \<open>read\<close> is any earlier state of a
  run of these steps. Every pass may find the outside world different.\<close>

inductive run_reaches :: "extension \<Rightarrow> auto_step list \<Rightarrow> run_row \<Rightarrow> bool" for ext :: extension and steps :: "auto_step list" where
  Started: "fe_ext env = ext \<Longrightarrow> \<not> fe_hold env \<Longrightarrow> run_reaches ext steps (first_run env posted steps)"
| Decided: "run_reaches ext steps read \<Longrightarrow> run_reaches ext steps row \<Longrightarrow> fe_ext env = ext \<Longrightarrow> \<not> fe_hold env \<Longrightarrow>
    run_reaches ext steps (snd (decideAutomationRun env posted v read row))"
| Saved: "run_reaches ext steps read \<Longrightarrow> run_reaches ext steps row \<Longrightarrow> run_reaches ext steps (saveApprovalChoices read row)"

text \<open>The life of a run when every request claims the row as it read it.\<close>

inductive run_alone :: "extension \<Rightarrow> auto_step list \<Rightarrow> run_row \<Rightarrow> bool" for ext :: extension and steps :: "auto_step list" where
  Alone_started: "fe_ext env = ext \<Longrightarrow> \<not> fe_hold env \<Longrightarrow> run_alone ext steps (first_run env posted steps)"
| Alone_decided: "run_alone ext steps row \<Longrightarrow> fe_ext env = ext \<Longrightarrow> \<not> fe_hold env \<Longrightarrow>
    run_alone ext steps (snd (decideAutomationRun env posted v row row))"
| Alone_saved: "run_alone ext steps row \<Longrightarrow> run_alone ext steps (saveApprovalChoices row row)"

section \<open>What a pass lets through\<close>

definition skipped_at :: "decisions \<Rightarrow> nat \<Rightarrow> bool" where
  "skipped_at ds k = (case decision_at ds k of None \<Rightarrow> False | Some d \<Rightarrow> skips d)"

text \<open>An approval or a card above a step holds it, unless the card was itself skipped in this review.\<close>

definition gates :: "decisions \<Rightarrow> nat \<Rightarrow> nat \<Rightarrow> auto_step \<Rightarrow> bool" where
  "gates ds start i st = ((as_type st = ''approval'' \<or> is_card st) \<and> (i < start \<or> \<not> skipped_at ds i))"

definition held_above :: "decisions \<Rightarrow> nat \<Rightarrow> nat \<Rightarrow> auto_step list \<Rightarrow> nat \<Rightarrow> bool" where
  "held_above ds start i steps n = (\<exists>k < n. gates ds start (i + k) (steps ! k))"

lemma held_above_0 [simp]: "\<not> held_above ds start i steps 0"
  by (simp add: held_above_def)

lemma held_above_Suc: "held_above ds start i (st # rest) (Suc n) \<longleftrightarrow> gates ds start i st \<or> held_above ds start (Suc i) rest n"
  by (auto simp: held_above_def less_Suc_eq_0_disj)

lemma asks_mono: "asks ext steps a x \<Longrightarrow> (a \<Longrightarrow> b) \<Longrightarrow> asks ext steps b x"
  by (auto simp: asks_def)

lemma add_note_keeps [simp]:
  "ps_ran (add_note steps i st s ps) = ps_ran ps" "ps_gated (add_note steps i st s ps) = ps_gated ps" "ps_card (add_note steps i st s ps) = ps_card ps"
  by (simp_all add: add_note_def)

definition let_through :: "flow_env \<Rightarrow> auto_step list \<Rightarrow> nat \<Rightarrow> decisions \<Rightarrow> bool \<Rightarrow> auto_step list \<Rightarrow> nat \<Rightarrow> nat \<times> jsval option \<Rightarrow> bool" where
  "let_through env steps start ds g rest i jd =
     (start \<le> fst jd \<and> i \<le> fst jd \<and> fst jd < i + length rest \<and> snd jd = decision_at ds (fst jd) \<and> \<not> skipped_at ds (fst jd)
      \<and> (\<not> fe_hold env \<and> asks (fe_ext env) steps (g \<or> held_above ds start i rest (fst jd - i)) (rest ! (fst jd - i)) \<longrightarrow> decision_at ds (fst jd) \<noteq> None)
      \<and> (fe_hold env \<longrightarrow> \<not> holdsSend (fe_ext env) (rest ! (fst jd - i))))"

lemma let_through_later:
  assumes "let_through env steps start ds g' rest (Suc i) jd" and "g \<or> gates ds start i st \<Longrightarrow> \<not> fe_hold env \<Longrightarrow> g'"
  shows "let_through env steps start ds g (st # rest) i jd"
proof -
  have j: "Suc i \<le> fst jd" using assms(1) by (simp add: let_through_def)
  then obtain n where n: "fst jd = Suc (i + n)" using less_eq_Suc_le less_imp_Suc_add by blast
  have "asks (fe_ext env) steps (g \<or> gates ds start i st \<or> held_above ds start (Suc i) rest n) x \<Longrightarrow> \<not> fe_hold env \<Longrightarrow>
      asks (fe_ext env) steps (g' \<or> held_above ds start (Suc i) rest n) x" for x
    using assms(2) by (auto elim: asks_mono)
  then show ?thesis using assms(1) n unfolding let_through_def by (simp add: held_above_Suc)
qed

lemma let_through_here:
  assumes "start \<le> i" "\<not> skipped_at ds i"
    and "\<not> (decision_at ds i = None \<and> \<not> fe_hold env \<and> asks (fe_ext env) steps g st)" "\<not> (fe_hold env \<and> holdsSend (fe_ext env) st)"
  shows "let_through env steps start ds g (st # rest) i (i, decision_at ds i)"
  using assms by (auto simp: let_through_def)

text \<open>A pass adds to what was let through, in the order of the plan, each step once, and no step that asks without a decision.\<close>

definition pass_spec ::
  "flow_env \<Rightarrow> auto_step list \<Rightarrow> nat \<Rightarrow> decisions \<Rightarrow> bool \<Rightarrow> auto_step list \<Rightarrow> nat \<Rightarrow> (nat \<times> jsval option) list \<Rightarrow> pass_end \<times> pass_state \<Rightarrow> bool" where
  "pass_spec env steps start ds g rest i old r =
     (\<exists>new. ps_ran (snd r) = old @ new \<and> (\<forall>jd \<in> set new. let_through env steps start ds g rest i jd)
        \<and> sorted_wrt (<) (map fst new)
        \<and> (\<forall>k b. fst r = PausedAt k b \<longrightarrow> start \<le> k \<and> i \<le> k \<and> (\<forall>jd \<in> set new. fst jd < k)))"

lemma pass_spec_none: "ps_ran ps = old \<Longrightarrow> (\<And>k b. e = PausedAt k b \<Longrightarrow> start \<le> k \<and> i \<le> k) \<Longrightarrow> pass_spec env steps start ds g rest i old (e, ps)"
  unfolding pass_spec_def by (intro exI [of _ "[]"]) auto

lemma pass_spec_later:
  assumes "pass_spec env steps start ds g' rest (Suc i) old r" and "g \<or> gates ds start i st \<Longrightarrow> \<not> fe_hold env \<Longrightarrow> g'"
  shows "pass_spec env steps start ds g (st # rest) i old r"
proof -
  from assms(1) obtain new where new: "ps_ran (snd r) = old @ new" "\<forall>jd \<in> set new. let_through env steps start ds g' rest (Suc i) jd"
    "sorted_wrt (<) (map fst new)" "\<forall>k b. fst r = PausedAt k b \<longrightarrow> start \<le> k \<and> Suc i \<le> k \<and> (\<forall>jd \<in> set new. fst jd < k)"
    unfolding pass_spec_def by blast
  moreover have "\<forall>jd \<in> set new. let_through env steps start ds g (st # rest) i jd"
    using new(2) let_through_later [OF _ assms(2)] by blast
  ultimately show ?thesis unfolding pass_spec_def by (intro exI [of _ new]) auto
qed

lemma pass_spec_run:
  assumes "pass_spec env steps start ds g rest (Suc i) (old @ [(i, decision_at ds i)]) r" and here: "let_through env steps start ds g (st # rest) i (i, decision_at ds i)"
    and "\<not> gates ds start i st"
  shows "pass_spec env steps start ds g (st # rest) i old r"
proof -
  from assms(1) obtain new where new: "ps_ran (snd r) = (old @ [(i, decision_at ds i)]) @ new" "\<forall>jd \<in> set new. let_through env steps start ds g rest (Suc i) jd"
    "sorted_wrt (<) (map fst new)" "\<forall>k b. fst r = PausedAt k b \<longrightarrow> start \<le> k \<and> Suc i \<le> k \<and> (\<forall>jd \<in> set new. fst jd < k)"
    unfolding pass_spec_def by blast
  let ?new = "(i, decision_at ds i) # new"
  have "\<forall>jd \<in> set ?new. let_through env steps start ds g (st # rest) i jd"
    using new(2) here let_through_later [of env steps start ds g rest i _ g st] assms(3) by auto
  moreover have "\<forall>jd \<in> set new. i < fst jd" using new(2) by (auto simp: let_through_def)
  ultimately show ?thesis using new unfolding pass_spec_def by (intro exI [of _ ?new]) auto
qed

definition acted :: "flow_env \<Rightarrow> auto_step list \<Rightarrow> nat \<Rightarrow> decisions \<Rightarrow> nat \<Rightarrow> auto_step \<Rightarrow> auto_step list \<Rightarrow> pass_state \<Rightarrow> pass_end \<times> pass_state" where
  "acted env steps start ds i st rest ps =
     (let ps1 = ps\<lparr>ps_ran := ps_ran ps @ [(i, decision_at ds i)]\<rparr> in
      case fe_act env i st (decision_at ds i) of
        Did tokens \<Rightarrow> pass env steps start ds (Suc i) rest (add_note steps i st ''ok'' (ps1\<lparr>ps_done := ps_done ps1 @ tokens\<rparr>))
      | ActHeld tokens \<Rightarrow> pass env steps start ds (Suc i) rest (add_note steps i st ''held'' (ps1\<lparr>ps_done := ps_done ps1 @ tokens\<rparr>))
      | ActStops tokens r \<Rightarrow> (StoppedFor r (r \<noteq> ''condition_not_met''),
          add_note steps i st (if r = ''condition_not_met'' then ''stopped'' else ''failed'') (ps1\<lparr>ps_done := ps_done ps1 @ tokens\<rparr>))
      | ActThrows m \<Rightarrow> (Threw m, ps1))"

lemma pass_acts:
  assumes "\<not> i < start" "(decision_at ds i = None \<and> \<not> fe_hold env \<and> asks (fe_ext env) steps (ps_gated ps) st) = False"
    and "(case decision_at ds i of Some d \<Rightarrow> skips d | None \<Rightarrow> False) = False" "(fe_hold env \<and> holdsSend (fe_ext env) st) = False"
    and "(as_type st = ''approval'') = False" "is_card st = False" "(as_type st = ''only_if'') = False"
  shows "pass env steps start ds i (st # rest) ps = acted env steps start ds i st rest ps"
  by (simp only: pass.simps acted_def Let_def assms if_False simp_thms)

lemma pass_ran: "pass_spec env steps start ds (ps_gated ps) rest i (ps_ran ps) (pass env steps start ds i rest ps)"
proof (induction rest arbitrary: i ps)
  case Nil
  show ?case unfolding pass.simps by (rule pass_spec_none) simp_all
next
  case (Cons st rest)
  have later: "pass_spec env steps start ds g (st # rest) i (ps_ran ps') (pass env steps start ds (Suc i) rest ps')"
    if "(g \<or> gates ds start i st) \<and> \<not> fe_hold env \<longrightarrow> ps_gated ps'" for g ps'
    by (rule pass_spec_later [OF Cons.IH]) (use that in blast)
  show ?case
  proof (cases "i < start")
    case True
    then have "gates ds start i st \<longleftrightarrow> as_type st = ''approval'' \<or> is_card st" by (simp add: gates_def)
    with True show ?thesis
      using later [of "ps_gated ps" "ps\<lparr>ps_card := True, ps_gated := True\<rparr>"] later [of "ps_gated ps" "ps\<lparr>ps_gated := True\<rparr>"]
        later [of "ps_gated ps" ps] by (simp add: Let_def)
  next
    case start: False
    define dec where "dec = decision_at ds i"
    show ?thesis
    proof (cases "dec = None \<and> \<not> fe_hold env \<and> asks (fe_ext env) steps (ps_gated ps) st")
      case True
      with start show ?thesis by (auto simp: dec_def intro!: pass_spec_none)
    next
      case waits: False
      have skip: "skipped_at ds i \<longleftrightarrow> (case dec of Some d \<Rightarrow> skips d | None \<Rightarrow> False)"
        by (simp add: skipped_at_def dec_def split: option.splits)
      show ?thesis
      proof (cases "skipped_at ds i \<or> (fe_hold env \<and> holdsSend (fe_ext env) st)")
        case True
        then have "gates ds start i st \<Longrightarrow> \<not> fe_hold env \<Longrightarrow> False" using start by (auto simp: gates_def)
        with True start waits skip show ?thesis
          using later [of "ps_gated ps" "add_note steps i st ''skipped'' ps"] later [of "ps_gated ps" "add_note steps i st ''held'' ps"]
          by (auto simp: Let_def dec_def)
      next
        case acts: False
        show ?thesis
        proof (cases "as_type st = ''approval'' \<or> is_card st")
          case True
          have dec: "\<not> (case decision_at ds i of None \<Rightarrow> False | Some d \<Rightarrow> skips d)" using acts skip by (simp add: dec_def)
          have step: "pass env steps start ds i (st # rest) ps =
              (if as_type st = ''approval'' then pass env steps start ds (Suc i) rest (ps\<lparr>ps_gated := True\<rparr>)
               else if \<not> fe_slack env then (StoppedFor ''slack_not_available_here'' True, add_note steps i st ''failed'' ps)
               else pass env steps start ds (Suc i) rest (add_note steps i st ''ok'' (ps\<lparr>ps_card := True, ps_gated := True\<rparr>)))"
            using start waits acts True by (auto simp: Let_def dec dec_def)
          show ?thesis
            using later [of "ps_gated ps" "ps\<lparr>ps_gated := True\<rparr>"]
              later [of "ps_gated ps" "add_note steps i st ''ok'' (ps\<lparr>ps_card := True, ps_gated := True\<rparr>)"]
              pass_spec_none [of "add_note steps i st ''failed'' ps" "ps_ran ps" "StoppedFor ''slack_not_available_here'' True"]
            unfolding step by simp
        next
          case plain: False
          then have ng: "\<not> gates ds start i st" by (simp add: gates_def)
          have here: "let_through env steps start ds (ps_gated ps) (st # rest) i (i, decision_at ds i)"
            by (rule let_through_here) (use start waits acts in \<open>auto simp: dec_def\<close>)
          show ?thesis
          proof (cases "as_type st = ''only_if''")
            case True
            with start waits acts skip plain ng show ?thesis
              using later [of "ps_gated ps" "add_note steps i st ''ok'' ps"] by (auto simp: Let_def dec_def intro: pass_spec_none)
          next
            case False
            have more: "pass_spec env steps start ds (ps_gated ps) (st # rest) i (ps_ran ps)
                (pass env steps start ds (Suc i) rest (add_note steps i st x (ps\<lparr>ps_ran := ps_ran ps @ [(i, decision_at ds i)], ps_done := toks\<rparr>)))" for x toks
              using pass_spec_run [OF _ here ng, of "ps_ran ps"]
                Cons.IH [of "add_note steps i st x (ps\<lparr>ps_ran := ps_ran ps @ [(i, decision_at ds i)], ps_done := toks\<rparr>)" "Suc i"] by simp
            have ends: "pass_spec env steps start ds (ps_gated ps) (st # rest) i (ps_ran ps) (e, ps')"
              if "ps_ran ps' = ps_ran ps @ [(i, decision_at ds i)]" "\<And>k b. e \<noteq> PausedAt k b" for e ps'
              using that here unfolding pass_spec_def by (intro exI [of _ "[(i, decision_at ds i)]"]) auto
            have step: "pass env steps start ds i (st # rest) ps = acted env steps start ds i st rest ps"
              by (rule pass_acts) (use start waits acts skip plain False in \<open>auto simp: dec_def\<close>)
            show ?thesis
              unfolding step by (cases "fe_act env i st (decision_at ds i)") (simp_all add: acted_def more ends)
          qed
        qed
      qed
    qed
  qed
qed


text \<open>A pass pauses at a step that asks, with the review of that step; what was gating stood above it.\<close>

definition holds_below :: "auto_step \<Rightarrow> bool" where
  "holds_below st = (as_type st = ''approval'' \<or> is_card st)"







section \<open>The review shows what it decides\<close>


text \<open>An extension brings step types of its own.\<close>

definition own_types :: "extension \<Rightarrow> bool" where
  "own_types ext = (\<forall>t \<in> set [''approval'', ''agent'', ''only_if'', ''wait'']. ext t = None)"


text \<open>A review is sound when each step it shows would wait by itself, or below a gate that the review cannot skip.\<close>

definition good_shown :: "extension \<Rightarrow> auto_step list \<Rightarrow> nat list \<Rightarrow> bool" where
  "good_shown ext steps S = (\<forall>b \<in> set S. as_type (run_plan steps ! b) \<noteq> ''approval''
     \<and> (asks ext steps False (run_plan steps ! b) \<or> (\<exists>k < b. k \<notin> set S \<and> holds_below (run_plan steps ! k))))"

lemma good_shown_Nil [simp]: "good_shown ext steps []"
  by (simp add: good_shown_def)



section \<open>The approval gate\<close>



definition decides_only :: "decisions \<Rightarrow> nat list \<Rightarrow> bool" where
  "decides_only ds shown = (\<forall>k. decision_at ds k \<noteq> None \<longrightarrow> k \<in> set shown)"




text \<open>The whole of a pass, from the top of the plan.\<close>

lemma runSteps_through:
  "\<forall>jd \<in> set (ps_ran (snd (runSteps env steps start ds))). let_through env steps start ds False (run_plan steps) 0 jd"
  "sorted_wrt (<) (map fst (ps_ran (snd (runSteps env steps start ds))))"
  "fst (runSteps env steps start ds) = PausedAt k b \<Longrightarrow> start \<le> k \<and> (\<forall>jd \<in> set (ps_ran (snd (runSteps env steps start ds))). fst jd < k)"
  using pass_ran [of env steps start ds "\<lparr>ps_gated = False, ps_card = False, ps_log = [], ps_done = [], ps_ran = []\<rparr>" "run_plan steps" 0]
  by (auto simp: runSteps_def pass_spec_def add_note_def Let_def split: option.splits list.splits)


lemma decides_none [simp]: "decides_only [] shown"
  by (simp add: decides_only_def decision_at_def)






section \<open>A run stays approved\<close>






definition demo_ext :: extension where
  "demo_ext t = None"

definition demo_env :: flow_env where
  "demo_env = \<lparr>fe_ext = demo_ext, fe_act = (\<lambda>i st d. Did [as_type st]), fe_vars = (\<lambda>i f. JUndef), fe_slack = True, fe_hold = False, fe_scope = None\<rparr>"

definition plain_step :: "string \<Rightarrow> auto_step" where
  "plain_step t = \<lparr>as_id = None, as_type = t, as_config = JObj []\<rparr>"

definition asking_step :: "string \<Rightarrow> (string \<times> jsval) list \<Rightarrow> auto_step" where
  "asking_step t kvs = \<lparr>as_id = None, as_type = t, as_config = JObj ((''approval'', JBool True) # kvs)\<rparr>"

definition demo_flow :: "auto_step list" where
  "demo_flow = [plain_step ''approval'', plain_step ''webhook'']"

definition plain_yes :: verdict where
  "plain_yes = \<lparr>vd_approve = True, vd_decisions = None, vd_slack = False, vd_pause = None, vd_exists = True\<rparr>"

definition no_card :: "nat \<Rightarrow> string option" where
  "no_card i = None"

lemmas demo_simps = demo_ext_def demo_env_def plain_step_def asking_step_def demo_flow_def plain_yes_def no_card_def

lemmas flow_simps = first_run_def decideAutomationRun_def runOutcome_def runSteps_def run_plan_def followAt_def draftsItself_def is_mail_step_def
  shownAt_def is_card_def asks_def isActionStep_def ACTION_STEPS_def isRead_def from_smtp_def sendFromOf_def cfg_def decision_at_def
  merged_log_def add_note_def card_of_def shown_of_def shownDecisions_def approve_all_def skips_def Let_def




definition demo_run :: run_row where
  "demo_run = snd (decideAutomationRun demo_env no_card plain_yes (first_run demo_env no_card demo_flow) (first_run demo_env no_card demo_flow))"


lemma demo_env_ok: "fe_ext demo_env = demo_ext" "\<not> fe_hold demo_env" "own_types demo_ext"
  by (simp_all add: demo_env_def own_types_def demo_ext_def)



section \<open>Each step once\<close>

definition once_ok :: "run_row \<Rightarrow> bool" where
  "once_ok row = (sorted_wrt (<) (map fst (rw_ran row))
     \<and> (rw_status row = ''awaiting_approval'' \<longrightarrow> (\<forall>x \<in> set (rw_ran row). fst x < rw_index row)))"

lemma outcome_once:
  assumes "sorted_wrt (<) (map fst (rw_ran row))" "\<forall>x \<in> set (rw_ran row). fst x < start"
  shows "once_ok (runOutcome posted steps shown old (runSteps env steps start ds) (row\<lparr>rw_status := ''running''\<rparr>))"
proof -
  let ?out = "runSteps env steps start ds"
  have from_start: "\<forall>jd \<in> set (ps_ran (snd ?out)). start \<le> fst jd"
    using runSteps_through(1) [of env steps start ds] by (auto simp: let_through_def)
  have ids: "map fst (map (\<lambda>(j, d). (j, d, shown)) xs) = map fst xs" for xs :: "(nat \<times> jsval option) list"
    by (induction xs) auto
  have "sorted_wrt (<) (map fst (rw_ran row @ map (\<lambda>(j, d). (j, d, shown)) (ps_ran (snd ?out))))"
    using assms from_start runSteps_through(2) [of env steps start ds]
    unfolding map_append ids sorted_wrt_append by fastforce
  moreover have "\<forall>x \<in> set (rw_ran row @ map (\<lambda>(j, d). (j, d, shown)) (ps_ran (snd ?out))). fst x < k" if "fst ?out = PausedAt k b" for k b
    using runSteps_through(3) [OF that] assms(2) by fastforce
  ultimately show ?thesis
    by (cases "fst ?out") (simp_all add: once_ok_def runOutcome_def Let_def)
qed

lemma once_status: "once_ok row \<Longrightarrow> s \<noteq> ''awaiting_approval'' \<Longrightarrow> once_ok (row\<lparr>rw_status := s\<rparr>)"
  by (simp add: once_ok_def)

lemma decided_once:
  assumes "once_ok row"
  shows "once_ok (snd (decideAutomationRun env posted v row row))"
proof (cases "rw_status row = ''awaiting_approval''")
  case True
  with assms have facts: "sorted_wrt (<) (map fst (rw_ran row))" "\<forall>x \<in> set (rw_ran row). fst x < rw_index row" by (simp_all add: once_ok_def)
  show ?thesis
    unfolding decideAutomationRun_def using assms by (auto simp: Let_def intro: outcome_once [OF facts] once_status)
next
  case False
  with assms show ?thesis by (simp add: decideAutomationRun_def)
qed

text \<open>C37: When the requests on a run do not race, no step is let through twice, and the steps go through in the plan's order: over all
  the reviews of a run the indices let through only grow, and a waiting run has let through nothing at or past the step it waits at.\<close>

lemma each_step_runs_once:
  assumes "run_alone ext steps row"
  shows "distinct (map fst (rw_ran row)) \<and> sorted (map fst (rw_ran row))
     \<and> (rw_status row = ''awaiting_approval'' \<longrightarrow> (\<forall>x \<in> set (rw_ran row). fst x < rw_index row))"
proof -
  have "once_ok row" using assms
  proof (induction rule: run_alone.induct)
    case (Alone_started env posted)
    then show ?case unfolding first_run_def
      using outcome_once [of "\<lparr>rw_status = ''running'', rw_index = 0, rw_bundle = [], rw_card = None, rw_steps = steps, rw_partial = False, rw_log = [], rw_ran = []\<rparr>" 0]
      by simp
  next
    case (Alone_decided row env posted v)
    then show ?case by (intro decided_once)
  next
    case (Alone_saved row)
    then show ?case by (simp add: saveApprovalChoices_def once_ok_def)
  qed
  then show ?thesis by (auto simp: once_ok_def strict_sorted_iff)
qed

lemma each_step_runs_once_witness: "distinct (map fst (rw_ran demo_run))"
  using each_step_runs_once [of demo_ext demo_flow demo_run] unfolding demo_run_def
  by (simp add: Alone_decided Alone_started demo_env_ok)

section \<open>Where the gate is open\<close>

text \<open>Skipping a Slack approval card that waits on its own switch lets the steps below it go without a review: the step skipped sets no gate.\<close>

definition card_flow :: "auto_step list" where
  "card_flow = [asking_step ''slack'' [(''format'', JStr ''approval'')], plain_step ''webhook'']"

definition no_to :: "nat \<Rightarrow> verdict" where
  "no_to i = plain_yes\<lparr>vd_decisions := Some [(show_nat i, JObj [(''approve'', JBool False)])]\<rparr>"

lemma skipped_card_releases:
  "let r = first_run demo_env no_card card_flow; r' = snd (decideAutomationRun demo_env no_card (no_to 0) r r)
   in rw_bundle r = [0] \<and> rw_ran r' = [(1, None, [0])] \<and> rw_status r' = ''ok''"
  by (simp add: no_to_def card_flow_def demo_simps flow_simps js_coalesce_def js_trim_def to_lower_def show_nat_inj)

text \<open>A decision made in the app claims the run by its status alone: one that was read before the run paused again runs the steps of
  the first review a second time.\<close>

definition two_pauses :: "auto_step list" where
  "two_pauses = [asking_step ''webhook'' [], plain_step ''agent'', asking_step ''webhook'' []]"

lemma two_first: "first_run demo_env no_card two_pauses =
  \<lparr>rw_status = ''awaiting_approval'', rw_index = 0, rw_bundle = [0], rw_card = None, rw_steps = two_pauses, rw_partial = False,
   rw_log = [\<lparr>ll_step = 1, ll_type = Some ''webhook'', ll_status = ''waiting''\<rparr>], rw_ran = []\<rparr>"
  by (simp add: two_pauses_def demo_simps flow_simps js_coalesce_def)

lemma two_pass: "pass demo_env two_pauses 0 (approve_all [0]) 0 two_pauses \<lparr>ps_gated = False, ps_card = False, ps_log = [], ps_done = [], ps_ran = []\<rparr> =
  (PausedAt 2 [2], \<lparr>ps_gated = False, ps_card = False,
     ps_log = [\<lparr>ll_step = 1, ll_type = Some ''webhook'', ll_status = ''ok''\<rparr>, \<lparr>ll_step = 2, ll_type = Some ''agent'', ll_status = ''ok''\<rparr>,
       \<lparr>ll_step = 3, ll_type = Some ''webhook'', ll_status = ''waiting''\<rparr>],
     ps_done = [''webhook'', ''agent''], ps_ran = [(0, Some (JObj [(''approve'', JBool True)])), (1, None)]\<rparr>)"
  by code_simp

lemma two_run: "fst (runSteps demo_env two_pauses 0 (approve_all [0])) = PausedAt 2 [2]"
  "ps_ran (snd (runSteps demo_env two_pauses 0 (approve_all [0]))) = [(0, Some (JObj [(''approve'', JBool True)])), (1, None)]"
proof -
  have "run_plan two_pauses = two_pauses" by code_simp
  moreover have "fe_scope demo_env = None" by (simp add: demo_env_def)
  ultimately show "fst (runSteps demo_env two_pauses 0 (approve_all [0])) = PausedAt 2 [2]"
    "ps_ran (snd (runSteps demo_env two_pauses 0 (approve_all [0]))) = [(0, Some (JObj [(''approve'', JBool True)])), (1, None)]"
    by (simp_all add: runSteps_def two_pass Let_def)
qed

definition two_next :: "run_row \<Rightarrow> run_row" where
  "two_next row = snd (decideAutomationRun demo_env no_card plain_yes (first_run demo_env no_card two_pauses) row)"

lemma two_next: "rw_status row = ''awaiting_approval'' \<Longrightarrow>
   rw_ran (two_next row) = rw_ran row @ [(0, Some (JObj [(''approve'', JBool True)]), [0]), (1, None, [0])]
   \<and> rw_index (two_next row) = 2 \<and> rw_bundle (two_next row) = [2] \<and> rw_status (two_next row) = ''awaiting_approval''"
  unfolding two_next_def two_first
  by (simp add: decideAutomationRun_def plain_yes_def shown_of_def shownDecisions_def runOutcome_def two_run Let_def)

lemma two_first_facts: "rw_status (first_run demo_env no_card two_pauses) = ''awaiting_approval''"
  "rw_bundle (first_run demo_env no_card two_pauses) = [0]" "rw_ran (first_run demo_env no_card two_pauses) = []"
  by (simp_all add: two_first)

lemma stale_decision_repeats:
  "let r = first_run demo_env no_card two_pauses; r' = snd (decideAutomationRun demo_env no_card plain_yes r r);
       r'' = snd (decideAutomationRun demo_env no_card plain_yes r r')
   in map fst (rw_ran r') = [0, 1] \<and> rw_index r' = 2 \<and> map fst (rw_ran r'') = [0, 1, 0, 1]"
  unfolding Let_def two_next_def [symmetric] by (simp add: two_next two_first_facts)

text \<open>Saving half a review writes back the state as it was read: the review of the pause the run is at is lost.\<close>

lemma stale_choices_overwrite:
  "let r = first_run demo_env no_card two_pauses; r' = snd (decideAutomationRun demo_env no_card plain_yes r r);
       r'' = saveApprovalChoices r r'
   in rw_index r'' = 2 \<and> rw_bundle r' = [2] \<and> rw_bundle r'' = [0]"
  unfolding Let_def two_next_def [symmetric] by (simp add: saveApprovalChoices_def two_next two_first_facts)

end
