(* ===== verification/Spec2Isabelle.thy ===== *)
theory Spec2Isabelle
  imports MessagePrivacy DerivedPrivacy ApiKeys Egress OAuth Paging Plans Backfill Credits CreditGate
    Engagement Qualification LivingDoc LivingParse LivingRoundTrip Pipeline StageDerivation Lifecycle Schedule Triggers TaskStatus Visibility RuleChecks Identity EmailThreads Access Membership DocOps DocEdits CanonicalAxes Claims Conflicts ClaimEngine ClaimQueue ClaimCategories ClaimTime WebhookGuard AutomationRun
begin

text \<open>
  OpenNous keeps what a sales team knows about its accounts. Observations arrive from mail, calls, CRMs and forms; workers
  derive claims from them (what is believed, with a confidence and a freshness), move accounts along a funnel, propose
  lifecycle moves and check rules; living documents are written from claims and edited by people; members of a
  workspace read all of it through an api, a web page and agents, each within a plan's credits. This development models
  the rules of that system, which live in \<^verbatim>\<open>packages/core/src\<close> (shared), \<^verbatim>\<open>apps/api/src/lib\<close> (the api) and
  \<^verbatim>\<open>apps/worker/src\<close> (the workers). Routes, pollers, clients of other services and pages are glue around these rules.

  \<^bold>\<open>How the code is read.\<close> A function of the source is a definition of the same name, with the order of its branches; an early
  return or an exception is a constructor or \<open>None\<close>; a loop is a recursion or a fold over what it runs through. A payload whose shape
  the code tests at run time is a \<open>jsval\<close>, anything else a record with the source's fields. What is not in the repository is an
  argument: the database's answers and whether a write succeeds, the clock (\<open>now\<close>, in milliseconds), random ids, \<open>fetch\<close> and DNS,
  the URL parser, SHA digests, the collation of \<open>localeCompare\<close>, the offsets of a time zone, the text of \<open>Intl\<close>.
  Counts, instants and indices are \<open>int\<close> or \<open>nat\<close>: they stay far below \<open>2 ^ 53\<close>, where the code's doubles are exact.
  Where the code divides the model has exact rationals, so a statement about a quotient is free of rounding. Text is
  a list of characters, one for each UTF-16 code unit; letters beyond ASCII are not folded by case.

  \<^bold>\<open>The library\<close> is the language and its runtime. \<open>JsPrelude\<close>: payload values, optional text, strings. \<open>JsArrays\<close>: the stable sort
  (locale \<open>js_comparator\<close>, interpreted by every comparator of the components), \<open>Map\<close> and \<open>Set\<close> in insertion order (locale
  \<open>keyed_store\<close> and its extension \<open>row_store\<close>, interpreted on the model of \<open>Map\<close>, from which grouping is proved), slices, rounding.
  \<open>JsNumber\<close>: the conversions between values, numbers and text. \<open>JsDate\<close> and \<open>Calendar\<close>: instants, \<open>Date.parse\<close>, the civil calendar and
  that it is a bijection with the days. \<open>JsRegex\<close>: regular expressions with the backtracking of ECMAScript, by which the patterns
  of the code are written out.

  \<^bold>\<open>Who may read\<close> (\<^verbatim>\<open>privacy/messagePrivacy.mjs\<close>, \<^verbatim>\<open>db/readContext.ts\<close>, \<^verbatim>\<open>lib/visibility.mjs\<close>, \<^verbatim>\<open>lib/ownerScope.mjs\<close>).
  \<open>MessagePrivacy\<close> has the rule for a message and the redaction of rows, which fails closed; \<open>DerivedPrivacy\<close> carries it to what was derived
  from messages: wording nobody may read is never shown, and the audience key under which derived text is shared stands for exactly
  the set of its readers. \<open>Visibility\<close> has the workspace's open or closed policy, a member's book and the scope of a list.

  \<^bold>\<open>Who is let in\<close> (\<^verbatim>\<open>lib/apiKeyScope.mjs\<close>, \<^verbatim>\<open>lib/routineVisibility.mjs\<close>, \<^verbatim>\<open>lib/oauth.mjs\<close>, \<^verbatim>\<open>lib/ssrf.mjs\<close>, \<^verbatim>\<open>lib/teamMembership.mjs\<close>,
  \<^verbatim>\<open>lib/keysetCursor.mjs\<close>). \<open>ApiKeys\<close>: minting and revoking keys, personal and shared plays. \<open>OAuth\<close>: the checks of an authorization request, with no open
  redirect. \<open>Egress\<close>: no request of \<open>safeFetch\<close> goes to an address its guard did not pass. \<open>Membership\<close>: the routes that change a team as steps of
  a relation (\<open>team_step\<close>), with nobody joining uninvited and the founder staying, by rule induction over the steps. \<open>Paging\<close>: cursors
  come back as they were made, and a client that follows them ends and sees every row once.

  \<^bold>\<open>What it costs\<close> (\<^verbatim>\<open>lib/plans.mjs\<close>, \<^verbatim>\<open>lib/access.mjs\<close>, \<^verbatim>\<open>lib/backfillBudget.mjs\<close>, \<^verbatim>\<open>apps/worker/src/lib/creditGate.mjs\<close>). \<open>Plans\<close> resolves a subscription
  (trial, grace, period), \<open>Credits\<close> meters a team and refuses, \<open>Access\<close> is the gates of a request over both, \<open>Backfill\<close> prices a history import
  against one pool, and \<open>CreditGate\<close> is the worker's cached gate: a measured cap stays shut through an outage of the api.

  \<^bold>\<open>The funnel\<close> (\<^verbatim>\<open>pipeline.ts\<close>, \<^verbatim>\<open>db/pipelineStage.ts\<close>, \<^verbatim>\<open>workers/stageDerivation.mjs\<close>, \<^verbatim>\<open>lib/lifecycleRules.mjs\<close>, \<^verbatim>\<open>services/*.mjs\<close>).
  \<open>Pipeline\<close>: stages, the account's stage, the path an activity may move a person on. \<open>StageDerivation\<close>: the batch derivation, which agrees with the live
  path where that is what it means to do. \<open>Lifecycle\<close>: entry rules propose exactly the moves that hold. \<open>RuleChecks\<close>, \<open>TaskStatus\<close>, \<open>Triggers\<close>,
  \<open>Schedule\<close>: checked rules, tasks, what starts an automation and when it runs next. \<open>Engagement\<close>, \<open>Qualification\<close>, \<open>EmailThreads\<close>, \<open>Identity\<close>: what a
  person's activity says, the letters of MEDDICC, which mail is read, when two records are one person.

  \<^bold>\<open>What acts\<close> (\<^verbatim>\<open>services/automationRun.mjs\<close>). \<open>AutomationRun\<close>: one pass over the steps of an automation, where it pauses and what that
  review shows, and the decision that resumes it. A step that needs approval is carried out only if a reviewer was shown it and approved it, however
  requests race (\<open>run_reaches\<close>); without races each step goes once (\<open>run_alone\<close>), and with a stale read it may not (\<open>stale_decision_repeats\<close>).
  What a step does once let through is an argument. \<open>WebhookGuard\<close>: the address guard of its webhooks against that of \<open>Egress\<close>.

  \<^bold>\<open>What is believed\<close> (\<^verbatim>\<open>db/claims.ts\<close>, \<^verbatim>\<open>db/canonicalAxes.ts\<close>, \<^verbatim>\<open>db/conflicts.ts\<close>, \<^verbatim>\<open>db/triggers.ts\<close>, \<^verbatim>\<open>services/settleClaimQueue.ts\<close>,
  \<^verbatim>\<open>workers/claimEngine.mjs\<close>, \<^verbatim>\<open>db/claimCategories.ts\<close>, \<^verbatim>\<open>db/claimTime.ts\<close>). \<open>CanonicalAxes\<close> projects raw values onto axes and says when
  two differ. \<open>Claims\<close> derives a claim from observations, by recency or by the authority of sources, now or as of an instant. \<open>Conflicts\<close> keeps the
  row a disagreement raises; a person's decision survives detection. \<open>ClaimEngine\<close> composes them: one recompute, a batch that writes what
  its targets would write one by one, assertion and the resolve route. \<open>ClaimQueue\<close> settles the queue of recomputes: no job is lost
  whatever fails, and when nothing fails it drains. \<open>ClaimCategories\<close> is the taxonomy every claim is brought to and the chip it shows; \<open>ClaimTime\<close> ages
  claims and shapes what a reader gets, without showing a fact twice or losing one.

  \<^bold>\<open>Living documents\<close> (\<^verbatim>\<open>lib/livingDoc.mjs\<close>). \<open>LivingDoc\<close>: sections, blocks and edits; \<open>LivingParse\<close> and \<open>LivingRoundTrip\<close>: reading a file back keeps
  the ids, and an unedited file comes back as it was; \<open>DocOps\<close>: which operations of a model's reply are accepted; \<open>DocEdits\<close>: an accepted edit
  is written and read back unchanged.

  \<^bold>\<open>Fuel and bounds.\<close> A loop whose end depends on outside answers takes a number of rounds. \<open>settle_phase\<close> has one more than the jobs of the start: each
  full page steps past at least one of them (\<open>settle_phase_returns\<close>). \<open>walk\<close> in \<open>Paging\<close> is proved to end within the rows of the log. \<open>processClaimJobs\<close> takes the number of
  sweeps its deadline allows, and \<open>engine_drains\<close> says how many are enough. The redirect loop of \<open>safeFetch\<close> and the correction of \<open>zonedTimeToUtc\<close> are
  bounded in the source by the same numbers. \<open>rx_replace_all\<close> has a round for each character, since each match it replaces is not empty.

  \<^bold>\<open>Not modelled.\<close> The web page (\<^verbatim>\<open>apps/frontend\<close>), the MCP server and CLI, the CRM and messaging clients, the pollers and enrichers of the
  worker, the routes of the api beyond those named, the writers, mail and polls of automations, SQL functions and migrations, prompts
  and the calls to language models: their behaviour is that of services, of SQL or of a model that is not in the repository, and what they decide by themselves is
  in the rules above. Wording of messages is a constructor where it carries no decision. Concurrency is modelled where the code
  relies on it: as steps of a relation (\<open>team_step\<close>, \<open>engine_step\<close>), or as arrivals between two calls (\<open>settle_env\<close>); work the code runs in parallel on
  different rows runs in order.
\<close>

end
